(* ===== verification/Prelude.thy ===== *)
theory Prelude
  imports Main "HOL-Library.Word"
begin

text \<open>
  What the components share: the machine types of the C++ code, range checks for its signed
  integers, generic facts about lists, and the interface of an incremental parser, which the
  radio protocol, the CAT server and the DX cluster client all provide.

  \<^item> \<open>byte\<close> is \<open>uint8_t\<close>, \<open>u32\<close> is \<open>uint32_t\<close> and \<open>u64\<close> is \<open>size_t\<close> on the 64-bit targets.
  \<^item> \<open>int32_t\<close> and \<open>int64_t\<close> values are \<^typ>\<open>int\<close>. Where the code computes with them, the range is
    written out (\<open>in_i32\<close>, \<open>in_i64\<close>) and a result outside it is \<open>None\<close>: signed overflow is
    undefined behaviour in C++, so it is a branch of the model and never wraps silently.
  \<^item> \<open>std::string\<close> is \<^typ>\<open>string\<close>: its characters are bytes.
\<close>

unbundle bit_operations_syntax

named_theorems cpp_defs "definitions of the model that evaluation and case analysis unfold"
named_theorems inv_intros "operations keep their component's invariant"

type_synonym byte = "8 word"
type_synonym u32 = "32 word"
type_synonym u64 = "64 word"

section \<open>Signed integers\<close>

definition in_i32 :: "int \<Rightarrow> bool" where
  "in_i32 x \<longleftrightarrow> - 2147483648 \<le> x \<and> x \<le> 2147483647"

definition in_i64 :: "int \<Rightarrow> bool" where
  "in_i64 x \<longleftrightarrow> - 9223372036854775808 \<le> x \<and> x \<le> 9223372036854775807"

definition checked_i32 :: "int \<Rightarrow> int option" where
  "checked_i32 x = (if in_i32 x then Some x else None)"

definition checked_i64 :: "int \<Rightarrow> int option" where
  "checked_i64 x = (if in_i64 x then Some x else None)"

text \<open>\<open>std::clamp(v, lo, hi)\<close>, with its comparisons in the library's order.\<close>

definition clamp :: "int \<Rightarrow> int \<Rightarrow> int \<Rightarrow> int" where
  "clamp v lo hi = (if v < lo then lo else if hi < v then hi else v)"

lemma clamp_range: "lo \<le> hi \<Longrightarrow> lo \<le> clamp v lo hi \<and> clamp v lo hi \<le> hi"
  by (simp add: clamp_def)

lemma clamp_idem [simp]: "lo \<le> hi \<Longrightarrow> clamp (clamp v lo hi) lo hi = clamp v lo hi"
  by (simp add: clamp_def)

lemma clamp_id: "lo \<le> v \<Longrightarrow> v \<le> hi \<Longrightarrow> clamp v lo hi = v"
  by (simp add: clamp_def)

text \<open>C++ division of signed integers truncates towards zero.\<close>

definition tdiv :: "int \<Rightarrow> int \<Rightarrow> int" where
  "tdiv a b = sgn a * sgn b * (\<bar>a\<bar> div \<bar>b\<bar>)"

lemma tdiv_nonneg [simp]: "0 \<le> a \<Longrightarrow> 0 < b \<Longrightarrow> tdiv a b = a div b"
  by (cases "a = 0") (simp_all add: tdiv_def)

section \<open>Arrays of two\<close>

text \<open>
  The code keeps per-VFO and per-receiver data in arrays of two and indexes them with
  \<open>i & 1\<close>, so every index is in range.
\<close>

definition arr2_get :: "'a \<times> 'a \<Rightarrow> int \<Rightarrow> 'a" where
  "arr2_get a i = (if i AND 1 = 0 then fst a else snd a)"

definition arr2_put :: "'a \<times> 'a \<Rightarrow> int \<Rightarrow> 'a \<Rightarrow> 'a \<times> 'a" where
  "arr2_put a i v = (if i AND 1 = 0 then (v, snd a) else (fst a, v))"

lemma arr2_get_put [simp]: "arr2_get (arr2_put a i v) i = v"
  by (simp add: arr2_get_def arr2_put_def)

lemma arr2_put_get [simp]: "arr2_put a i (arr2_get a i) = a"
  by (simp add: arr2_get_def arr2_put_def)

lemma arr2_put_put [simp]: "arr2_put (arr2_put a i v) i w = arr2_put a i w"
  by (simp add: arr2_put_def)

lemma arr2_get_put_other: "i AND 1 \<noteq> j AND 1 \<Longrightarrow> arr2_get (arr2_put a i v) j = arr2_get a j"
  by (auto simp: arr2_get_def arr2_put_def and_one_eq)

section \<open>Lists\<close>

lemma take_append_le: "n \<le> length xs \<Longrightarrow> take n (xs @ ys) = take n xs"
  by simp

lemma drop_append_le: "n \<le> length xs \<Longrightarrow> drop n (xs @ ys) = drop n xs @ ys"
  by simp

lemma take_map_upt: "map f [0..<n] ! i = f i" if "i < n"
  using that by simp

section \<open>Incremental parsers\<close>

text \<open>
  A component that is fed chunks of a byte stream keeps a state and emits outputs.
  \<open>feed_all feed s cs\<close> feeds the chunks \<open>cs\<close> one after the other and collects the outputs.
\<close>

primrec feed_all :: "('s \<Rightarrow> 'b list \<Rightarrow> 's \<times> 'o list) \<Rightarrow> 's \<Rightarrow> 'b list list \<Rightarrow> 's \<times> 'o list" where
  "feed_all feed s [] = (s, [])"
| "feed_all feed s (c # cs) =
     (case feed s c of (s', os) \<Rightarrow> case feed_all feed s' cs of (s'', os') \<Rightarrow> (s'', os @ os'))"

lemma feed_all_append:
  "feed_all feed s (cs @ ds) =
     (case feed_all feed s cs of (s', os) \<Rightarrow>
      case feed_all feed s' ds of (s'', os') \<Rightarrow> (s'', os @ os'))"
  by (induction cs arbitrary: s) (auto split: prod.splits)

text \<open>
  The contract: in the states the parser can rest in (\<open>inv\<close>), feeding a chunk that is cut in
  two gives the same as feeding it whole. The clients' lemma is that the fragmentation of
  the stream never matters.
\<close>

locale incremental =
  fixes feed :: "'s \<Rightarrow> 'b list \<Rightarrow> 's \<times> 'o list"
    and inv :: "'s \<Rightarrow> bool"
  assumes feed_nil: "inv s \<Longrightarrow> feed s [] = (s, [])"
    and feed_append: "inv s \<Longrightarrow> feed s (xs @ ys) =
      (case feed s xs of (s', os) \<Rightarrow> case feed s' ys of (s'', os') \<Rightarrow> (s'', os @ os'))"
    and inv_feed: "inv s \<Longrightarrow> inv (fst (feed s xs))"
begin

lemma feed_all_concat: "inv s \<Longrightarrow> feed_all feed s cs = feed s (concat cs)"
proof (induction cs arbitrary: s)
  case Nil
  then show ?case by (simp add: feed_nil)
next
  case (Cons c cs)
  have "inv (fst (feed s c))" using Cons.prems by (rule inv_feed)
  then have "feed_all feed (fst (feed s c)) cs = feed (fst (feed s c)) (concat cs)"
    by (rule Cons.IH)
  with Cons.prems show ?case by (simp add: feed_append split_beta)
qed

lemma fragmentation:
  "inv s \<Longrightarrow> concat cs = concat ds \<Longrightarrow> feed_all feed s cs = feed_all feed s ds"
  by (simp add: feed_all_concat)

end

text \<open>
  The code's entry points also protect themselves against unbounded input. While the guard
  holds, such an entry point behaves as the unprotected parser.
\<close>

locale guarded_incremental = incremental +
  fixes entry :: "'s \<Rightarrow> 'b list \<Rightarrow> 's \<times> 'o list"
    and guard :: "'s \<Rightarrow> 'b list \<Rightarrow> bool"
  assumes entry_eq: "inv s \<Longrightarrow> guard s xs \<Longrightarrow> entry s xs = feed s xs"
begin

lemma entry_all_concat:
  assumes "inv s" and "\<And>s c. inv s \<Longrightarrow> c \<in> set cs \<Longrightarrow> guard s c"
  shows "feed_all entry s cs = feed s (concat cs)"
  using assms
proof (induction cs arbitrary: s)
  case Nil
  then show ?case by (simp add: feed_nil)
next
  case (Cons c cs)
  from Cons.prems have eq: "entry s c = feed s c" by (simp add: entry_eq)
  have "inv (fst (feed s c))" using Cons.prems(1) by (rule inv_feed)
  then have "feed_all entry (fst (feed s c)) cs = feed (fst (feed s c)) (concat cs)"
    using Cons.prems(2) by (intro Cons.IH) auto
  with Cons.prems(1) show ?case by (simp add: eq feed_append split_beta)
qed

text \<open>The guard may depend on the state: it has to hold along the run.\<close>

primrec guarded_run :: "'s \<Rightarrow> 'b list list \<Rightarrow> bool" where
  "guarded_run s [] = True"
| "guarded_run s (c # cs) = (guard s c \<and> guarded_run (fst (feed s c)) cs)"

lemma entry_run_concat:
  "inv s \<Longrightarrow> guarded_run s cs \<Longrightarrow> feed_all entry s cs = feed s (concat cs)"
proof (induction cs arbitrary: s)
  case Nil
  then show ?case by (simp add: feed_nil)
next
  case (Cons c cs)
  have "inv (fst (feed s c))" using Cons.prems(1) by (rule inv_feed)
  with Cons show ?case by (simp add: entry_eq feed_append split_beta)
qed

end

end
