(* ===== verification/Protocol.thy ===== *)
theory Protocol
  imports Prelude "HOL-Library.Sublist"
begin

text \<open>
  The K4 binary framing of \<open>core/src/network/protocol.cpp\<close> and \<open>protocol.h\<close>: the encoder, the
  decoder's state machine with its buffer, and what the two promise each other. The decoder's
  callback is a list of the frames it is called with; \<open>m_frameCb\<close> says whether one is set.
\<close>

section \<open>Frames and the encoder\<close>

type_synonym frame = "byte \<times> byte list"

definition START_MARKER :: "byte list" where
  "START_MARKER = [0xFE, 0xFD, 0xFC, 0xFB]"

definition END_MARKER :: "byte list" where
  "END_MARKER = [0x00, 0x00, 0x00, 0x00]"

definition MAX_FRAME_SIZE :: nat where
  "MAX_FRAME_SIZE = 1024 * 1024"

definition TYPE_CAT_COMMAND :: byte where "TYPE_CAT_COMMAND = 0x01"
definition TYPE_CAT_RESPONSE :: byte where "TYPE_CAT_RESPONSE = 0x02"
definition TYPE_AUDIO_DATA :: byte where "TYPE_AUDIO_DATA = 0x03"
definition TYPE_SPECTRUM :: byte where "TYPE_SPECTRUM = 0x04"
definition TYPE_MINI_PAN :: byte where "TYPE_MINI_PAN = 0x05"
definition TYPE_STATUS :: byte where "TYPE_STATUS = 0x06"

text \<open>
  The length is computed in \<open>size_t\<close> and truncated to 32 bits, then written big-endian.
\<close>

definition length_bytes :: "u32 \<Rightarrow> byte list" where
  "length_bytes payloadLen =
     [ucast (drop_bit 24 payloadLen AND 0xFF), ucast (drop_bit 16 payloadLen AND 0xFF),
      ucast (drop_bit 8 payloadLen AND 0xFF), ucast (payloadLen AND 0xFF)]"

definition encode :: "byte \<Rightarrow> byte list \<Rightarrow> byte list" where
  "encode ty payload =
     (let payloadLen = word_of_nat (1 + length payload) :: u32
      in START_MARKER @ length_bytes payloadLen @ [ty] @ payload @ END_MARKER)"

definition string_bytes :: "string \<Rightarrow> byte list" where
  "string_bytes s = map (\<lambda>c. word_of_nat (of_char c)) s"

definition bytes_string :: "byte list \<Rightarrow> string" where
  "bytes_string bs = map (\<lambda>b. char_of (unat b)) bs"

definition encodeCat :: "string \<Rightarrow> byte list" where
  "encodeCat command = encode TYPE_CAT_COMMAND (string_bytes command)"

section \<open>The decoder\<close>

datatype parse_state = SEEKING_START | READING_LENGTH | READING_PAYLOAD | READING_END

record protocol =
  m_state :: parse_state
  m_buffer :: "byte list"
  m_expectedLength :: u32
  m_startMatchCount :: u64
  m_endMatchCount :: u64
  m_frameCb :: bool

definition Protocol_new :: protocol where
  "Protocol_new = \<lparr>m_state = SEEKING_START, m_buffer = [], m_expectedLength = 0,
     m_startMatchCount = 0, m_endMatchCount = 0, m_frameCb = False\<rparr>"

definition setFrameCallback :: "bool \<Rightarrow> protocol \<Rightarrow> protocol" where
  "setFrameCallback cb p = p\<lparr>m_frameCb := cb\<rparr>"

definition protocol_reset :: "protocol \<Rightarrow> protocol" where
  "protocol_reset p = p\<lparr>m_state := SEEKING_START, m_buffer := [], m_expectedLength := 0,
     m_startMatchCount := 0, m_endMatchCount := 0\<rparr>"

text \<open>\<open>findStartMarker\<close>: the loop over \<open>i\<close> from 0 while \<open>i <= size - 4\<close>.\<close>

definition marker_at :: "byte list \<Rightarrow> nat \<Rightarrow> bool" where
  "marker_at buf i \<longleftrightarrow> buf ! i = START_MARKER ! 0 \<and> buf ! (i + 1) = START_MARKER ! 1 \<and>
     buf ! (i + 2) = START_MARKER ! 2 \<and> buf ! (i + 3) = START_MARKER ! 3"

function marker_loop :: "byte list \<Rightarrow> nat \<Rightarrow> nat option" where
  "marker_loop buf i =
     (if i \<le> length buf - 4
      then if marker_at buf i then Some i else marker_loop buf (i + 1)
      else None)"
  by pat_completeness auto
termination
  by (relation "measure (\<lambda>(buf, i). length buf - 4 + 1 - i)") auto

declare marker_loop.simps [simp del]

definition findStartMarker :: "byte list \<Rightarrow> nat option" where
  "findStartMarker buf = (if length buf < 4 then None else marker_loop buf 0)"

definition read_length :: "byte list \<Rightarrow> u32" where
  "read_length buf =
     push_bit 24 (ucast (buf ! 0)) OR push_bit 16 (ucast (buf ! 1)) OR
     push_bit 8 (ucast (buf ! 2)) OR ucast (buf ! 3)"

text \<open>
  One iteration of \<open>processBuffer\<close>'s loop either returns from the function or goes round again,
  having called the callback with the listed frames.
\<close>

datatype iteration = Return protocol | Continue protocol "frame list"

definition processStep :: "protocol \<Rightarrow> iteration" where
  "processStep p =
     (let buf = m_buffer p in
      case m_state p of
        SEEKING_START \<Rightarrow>
          (case findStartMarker buf of
             None \<Rightarrow> Return (if length buf > 3 then p\<lparr>m_buffer := drop (length buf - 3) buf\<rparr> else p)
           | Some pos \<Rightarrow> Continue (p\<lparr>m_buffer := drop (pos + 4) buf, m_state := READING_LENGTH\<rparr>) [])
      | READING_LENGTH \<Rightarrow>
          (if length buf < 4 then Return p
           else
             let len = read_length buf;
                 p' = p\<lparr>m_expectedLength := len, m_buffer := drop 4 buf\<rparr>
             in if len = 0 \<or> unat len > MAX_FRAME_SIZE
                then Continue (p'\<lparr>m_state := SEEKING_START\<rparr>) []
                else Continue (p'\<lparr>m_state := READING_PAYLOAD\<rparr>) [])
      | READING_PAYLOAD \<Rightarrow>
          (let n = unat (m_expectedLength p) in
           if length buf < n then Return p
           else
             let payload = take n buf;
                 p' = p\<lparr>m_buffer := drop n buf, m_state := READING_END\<rparr>
             in Continue p'
                  (if m_frameCb p \<and> payload \<noteq> [] then [(hd payload, tl payload)] else []))
      | READING_END \<Rightarrow>
          (if length buf < 4 then Return p
           else Continue (p\<lparr>m_buffer := drop 4 buf, m_state := SEEKING_START\<rparr>) []))"

definition step_measure :: "protocol \<Rightarrow> nat" where
  "step_measure p = 2 * length (m_buffer p) + (if m_state p = READING_PAYLOAD then 1 else 0)"

lemma step_decreases:
  "m_buffer p \<noteq> [] \<Longrightarrow> processStep p = Continue p' fs \<Longrightarrow> step_measure p' < step_measure p"
  by (auto simp: processStep_def step_measure_def Let_def findStartMarker_def
      split: parse_state.splits option.splits if_splits)

function processBuffer :: "protocol \<Rightarrow> protocol \<times> frame list" where
  "processBuffer p =
     (if m_buffer p = [] then (p, [])
      else case processStep p of
        Return p' \<Rightarrow> (p', [])
      | Continue p' fs \<Rightarrow> (case processBuffer p' of (q, gs) \<Rightarrow> (q, fs @ gs)))"
  by pat_completeness auto
termination
  by (relation "measure step_measure") (auto simp: step_decreases)

declare processBuffer.simps [simp del]

text \<open>\<open>feedData\<close> appends the chunk, and drops everything when 2 MB are exceeded.\<close>

definition append_bytes :: "protocol \<Rightarrow> byte list \<Rightarrow> protocol" where
  "append_bytes p data = p\<lparr>m_buffer := m_buffer p @ data\<rparr>"

definition feedData :: "protocol \<Rightarrow> byte list \<Rightarrow> protocol \<times> frame list" where
  "feedData p data =
     (let p1 = append_bytes p data
      in if length (m_buffer p1) > MAX_FRAME_SIZE * 2 then (protocol_reset p1, [])
         else processBuffer p1)"


section \<open>Searching the start marker\<close>

lemma START_MARKER_length [simp]: "length START_MARKER = 4"
  by (simp add: START_MARKER_def)

lemma START_MARKER_neq_Nil [simp]: "START_MARKER \<noteq> []"
  by (simp add: START_MARKER_def)

lemma END_MARKER_length [simp]: "length END_MARKER = 4"
  by (simp add: END_MARKER_def)

lemma length_bytes_length [simp]: "length (length_bytes n) = 4"
  by (simp add: length_bytes_def)

lemma take_4_drop:
  assumes "i + 4 \<le> length buf"
  shows "take 4 (drop i buf) = [buf ! i, buf ! (i + 1), buf ! (i + 2), buf ! (i + 3)]"
proof -
  have "drop i buf = buf ! i # buf ! Suc i # buf ! Suc (Suc i) # buf ! Suc (Suc (Suc i)) # drop (i + 4) buf"
    using assms by (simp add: Cons_nth_drop_Suc numeral_eq_Suc)
  then show ?thesis by (simp add: numeral_eq_Suc)
qed

lemma marker_at_take:
  "i + 4 \<le> length buf \<Longrightarrow> marker_at buf i \<longleftrightarrow> take 4 (drop i buf) = START_MARKER"
  by (simp add: marker_at_def take_4_drop START_MARKER_def)

lemma marker_loop_steps:
  "i \<le> length buf - 4 \<Longrightarrow> marker_at buf i \<Longrightarrow> marker_loop buf i = Some i"
  "i \<le> length buf - 4 \<Longrightarrow> \<not> marker_at buf i \<Longrightarrow> marker_loop buf i = marker_loop buf (Suc i)"
  "length buf - 4 < i \<Longrightarrow> marker_loop buf i = None"
  by (subst marker_loop.simps, simp)+

lemma marker_loop_Some:
  "marker_loop buf i = Some p \<Longrightarrow> 4 \<le> length buf \<Longrightarrow>
     i \<le> p \<and> p + 4 \<le> length buf \<and> marker_at buf p \<and> (\<forall>q. i \<le> q \<and> q < p \<longrightarrow> \<not> marker_at buf q)"
proof (induction buf i rule: marker_loop.induct)
  case (1 buf i)
  show ?case
  proof (cases "i \<le> length buf - 4")
    case False
    with "1.prems" show ?thesis by (simp add: marker_loop_steps)
  next
    case le: True
    show ?thesis
    proof (cases "marker_at buf i")
      case True
      with le "1.prems" show ?thesis by (auto simp: marker_loop_steps(1))
    next
      case False
      with le "1.prems" have "marker_loop buf (i + 1) = Some p" by (simp add: marker_loop_steps(2))
      with "1.IH" [OF le False] "1.prems"(2)
      have IH: "i + 1 \<le> p" "p + 4 \<le> length buf" "marker_at buf p"
        "\<forall>q. i + 1 \<le> q \<and> q < p \<longrightarrow> \<not> marker_at buf q" by auto
      with False show ?thesis by (metis Suc_eq_plus1 Suc_leD not_less_eq_eq le_antisym)
    qed
  qed
qed

lemma marker_loop_None:
  "marker_loop buf i = None \<Longrightarrow> i \<le> p \<Longrightarrow> p \<le> length buf - 4 \<Longrightarrow> \<not> marker_at buf p"
proof (induction buf i rule: marker_loop.induct)
  case (1 buf i)
  then have "i \<le> length buf - 4" by simp
  moreover from this "1.prems" have "\<not> marker_at buf i" by (auto simp: marker_loop_steps(1))
  ultimately have i: "i \<le> length buf - 4" "\<not> marker_at buf i" by simp_all
  then have "marker_loop buf (i + 1) = None" using "1.prems"(1) by (simp add: marker_loop_steps(2))
  note IH = "1.IH" [OF i this]
  show ?case
  proof (cases "i = p")
    case False
    with "1.prems" show ?thesis by (intro IH) simp_all
  qed (use i in simp)
qed

lemma findStartMarker_SomeD:
  assumes "findStartMarker buf = Some p"
  shows "p + 4 \<le> length buf" and "take 4 (drop p buf) = START_MARKER"
    and "q < p \<Longrightarrow> take 4 (drop q buf) \<noteq> START_MARKER"
proof -
  from assms have "marker_loop buf 0 = Some p" "4 \<le> length buf"
    by (auto simp: findStartMarker_def split: if_splits)
  then have *: "p + 4 \<le> length buf" "marker_at buf p" "q < p \<Longrightarrow> \<not> marker_at buf q" for q
    using marker_loop_Some by blast+
  then show "p + 4 \<le> length buf" by simp
  from * show "take 4 (drop p buf) = START_MARKER" by (simp add: marker_at_take)
  show "take 4 (drop q buf) \<noteq> START_MARKER" if "q < p"
    using that * marker_at_take [of q buf] by simp
qed

lemma findStartMarker_None:
  "findStartMarker buf = None \<longleftrightarrow> (\<forall>p. p + 4 \<le> length buf \<longrightarrow> take 4 (drop p buf) \<noteq> START_MARKER)"
    (is "?l \<longleftrightarrow> ?r")
proof
  assume ?l
  show ?r
  proof (intro allI impI)
    fix p assume p: "p + 4 \<le> length buf"
    with \<open>?l\<close> have "marker_loop buf 0 = None" by (simp add: findStartMarker_def)
    with p have "\<not> marker_at buf p" by (auto dest: marker_loop_None [where p = p])
    with p show "take 4 (drop p buf) \<noteq> START_MARKER" by (simp add: marker_at_take)
  qed
next
  assume ?r
  then show ?l
    by (cases "findStartMarker buf") (auto dest: findStartMarker_SomeD(1,2))
qed

lemma findStartMarker_Some:
  "findStartMarker buf = Some p \<longleftrightarrow>
     p + 4 \<le> length buf \<and> take 4 (drop p buf) = START_MARKER \<and>
     (\<forall>q < p. take 4 (drop q buf) \<noteq> START_MARKER)" (is "?l \<longleftrightarrow> ?r")
proof
  assume ?l
  then show ?r by (blast dest: findStartMarker_SomeD)
next
  assume r: ?r
  then obtain p' where p': "findStartMarker buf = Some p'"
    using findStartMarker_None by (cases "findStartMarker buf") auto
  with r have "p' = p" by (metis findStartMarker_SomeD(2,3) linorder_neqE_nat)
  with p' show ?l by simp
qed

lemma findStartMarker_at_front [simp]: "findStartMarker (START_MARKER @ xs) = Some 0"
  by (simp add: findStartMarker_Some)

lemma findStartMarker_append:
  "findStartMarker xs = Some p \<Longrightarrow> findStartMarker (xs @ ys) = Some p"
  by (auto simp: findStartMarker_Some)

text \<open>
  When no marker is in the buffer, its last three bytes are all that can matter: whatever is
  appended, the search behaves the same on the tail.
\<close>

definition marker_tail :: "byte list \<Rightarrow> byte list" where
  "marker_tail buf = (if length buf > 3 then drop (length buf - 3) buf else buf)"

lemma marker_tail_length: "length (marker_tail xs) = min 3 (length xs)"
  by (simp add: marker_tail_def)

lemma marker_tail_Nil [simp]: "marker_tail xs = [] \<longleftrightarrow> xs = []"
  by (auto simp: marker_tail_def)

lemma marker_tail_find:
  assumes "findStartMarker xs = None"
  shows "findStartMarker (marker_tail xs @ ys) = None \<longleftrightarrow> findStartMarker (xs @ ys) = None"
    and "findStartMarker (xs @ ys) = Some p \<Longrightarrow>
      length xs - length (marker_tail xs) \<le> p \<and>
      findStartMarker (marker_tail xs @ ys) = Some (p - (length xs - length (marker_tail xs)))"
proof -
  define d where "d = length xs - length (marker_tail xs)"
  have tail: "marker_tail xs @ ys = drop d (xs @ ys)"
    by (simp add: d_def marker_tail_def)
  have early: "take 4 (drop q (xs @ ys)) \<noteq> START_MARKER" if "q < d" for q
  proof -
    from that have "q + 4 \<le> length xs" by (simp add: d_def marker_tail_length split: if_splits)
    moreover then have "take 4 (drop q (xs @ ys)) = take 4 (drop q xs)" by simp
    ultimately show ?thesis using assms by (auto simp: findStartMarker_None)
  qed
  show some: "length xs - length (marker_tail xs) \<le> p \<and>
      findStartMarker (marker_tail xs @ ys) = Some (p - (length xs - length (marker_tail xs)))"
    if "findStartMarker (xs @ ys) = Some p" for p
  proof -
    have "d \<le> p" using that early by (metis findStartMarker_Some linorder_not_le)
    moreover have "findStartMarker (drop d (xs @ ys)) = Some (p - d)"
      using that \<open>d \<le> p\<close> unfolding findStartMarker_Some drop_drop
      by (auto simp: less_diff_conv)
    ultimately show ?thesis unfolding tail d_def [symmetric] by simp
  qed
  show "findStartMarker (marker_tail xs @ ys) = None \<longleftrightarrow> findStartMarker (xs @ ys) = None"
  proof
    assume "findStartMarker (marker_tail xs @ ys) = None"
    then show "findStartMarker (xs @ ys) = None" using some by (cases "findStartMarker (xs @ ys)") auto
  next
    assume "findStartMarker (xs @ ys) = None"
    then show "findStartMarker (marker_tail xs @ ys) = None"
      unfolding tail findStartMarker_None drop_drop
      by (auto simp: add.commute add.left_commute le_diff_conv2)
  qed
qed

section \<open>The loop on more input\<close>

lemma m_buffer_append [simp]:
  "m_buffer (append_bytes p ys) = m_buffer p @ ys"
  "m_state (append_bytes p ys) = m_state p"
  "m_expectedLength (append_bytes p ys) = m_expectedLength p"
  "m_frameCb (append_bytes p ys) = m_frameCb p"
  by (simp_all add: append_bytes_def)

lemma append_bytes_Nil [simp]: "append_bytes p [] = p"
  by (simp add: append_bytes_def)

lemma append_bytes_append: "append_bytes p (xs @ ys) = append_bytes (append_bytes p xs) ys"
  by (simp add: append_bytes_def)

lemma read_length_append: "4 \<le> length xs \<Longrightarrow> read_length (xs @ ys) = read_length xs"
  by (auto simp: read_length_def nth_append)

lemma processBuffer_Nil: "m_buffer p = [] \<Longrightarrow> processBuffer p = (p, [])"
  by (subst processBuffer.simps) simp

lemma processBuffer_Return: "processStep p = Return p' \<Longrightarrow> m_buffer p \<noteq> [] \<Longrightarrow> processBuffer p = (p', [])"
  by (subst processBuffer.simps) simp

lemma processBuffer_Continue:
  "processStep p = Continue p' fs \<Longrightarrow> m_buffer p \<noteq> [] \<Longrightarrow>
     processBuffer p = (fst (processBuffer p'), fs @ snd (processBuffer p'))"
  by (subst processBuffer.simps) (simp add: split_beta)

lemma Continue_append:
  assumes "processStep p = Continue p' fs"
  shows "processStep (append_bytes p ys) = Continue (append_bytes p' ys) fs"
proof (cases "m_state p")
  case SEEKING_START
  with assms obtain pos where "findStartMarker (m_buffer p) = Some pos"
    "p' = p\<lparr>m_buffer := drop (pos + 4) (m_buffer p), m_state := READING_LENGTH\<rparr>" "fs = []"
    by (auto simp: processStep_def Let_def split: option.splits)
  moreover from this(1) have "pos + 4 \<le> length (m_buffer p)" by (rule findStartMarker_SomeD)
  ultimately show ?thesis
    using SEEKING_START by (simp add: processStep_def Let_def findStartMarker_append append_bytes_def)
qed (use assms in \<open>auto simp: processStep_def Let_def read_length_append append_bytes_def
  split: if_splits\<close>)

text \<open>Where the loop returns while a marker is sought, only the tail of the buffer is kept.\<close>

lemma Return_cases:
  "processStep p = Return p' \<Longrightarrow>
     p' = p \<or> m_state p = SEEKING_START \<and> findStartMarker (m_buffer p) = None \<and>
              p' = p\<lparr>m_buffer := marker_tail (m_buffer p)\<rparr>"
  by (auto simp: processStep_def marker_tail_def Let_def split: parse_state.splits option.splits if_splits)

lemma processStep_seek_None:
  "m_state p = SEEKING_START \<Longrightarrow> findStartMarker (m_buffer p) = None \<Longrightarrow>
     processStep p = Return (p\<lparr>m_buffer := marker_tail (m_buffer p)\<rparr>)"
  by (simp add: processStep_def marker_tail_def Let_def)

lemma marker_tail_append: "marker_tail (marker_tail xs @ ys) = marker_tail (xs @ ys)"
  by (auto simp: marker_tail_def add.commute)

lemma processBuffer_marker_tail:
  assumes st: "m_state p = SEEKING_START" and none: "findStartMarker (m_buffer p) = None"
    and ne: "m_buffer p \<noteq> []"
  shows "processBuffer (append_bytes (p\<lparr>m_buffer := marker_tail (m_buffer p)\<rparr>) ys) =
         processBuffer (append_bytes p ys)"
proof -
  let ?xs = "m_buffer p" and ?q = "append_bytes (p\<lparr>m_buffer := marker_tail (m_buffer p)\<rparr>) ys"
  show ?thesis
  proof (cases "findStartMarker (?xs @ ys)")
    case None
    then have "findStartMarker (marker_tail ?xs @ ys) = None"
      using marker_tail_find(1) [OF none] by simp
    then have "processStep ?q = Return (p\<lparr>m_buffer := marker_tail (?xs @ ys)\<rparr>)"
      "processStep (append_bytes p ys) = Return (p\<lparr>m_buffer := marker_tail (?xs @ ys)\<rparr>)"
      using st None by (simp_all add: processStep_seek_None append_bytes_def marker_tail_append)
    then show ?thesis using ne by (simp add: processBuffer_Return)
  next
    case (Some pos)
    let ?d = "length ?xs - length (marker_tail ?xs)"
    from marker_tail_find(2) [OF none Some]
    have pos: "?d \<le> pos" "findStartMarker (marker_tail ?xs @ ys) = Some (pos - ?d)" by auto
    have "marker_tail ?xs @ ys = drop ?d (?xs @ ys)"
      by (simp add: marker_tail_def)
    then have "drop (pos - ?d + 4) (marker_tail ?xs @ ys) = drop (pos + 4) (?xs @ ys)"
      using pos(1) by (simp only: drop_drop) simp
    then have "processStep ?q = processStep (append_bytes p ys)"
      using st Some pos(2) by (simp add: processStep_def Let_def append_bytes_def)
    then show ?thesis using ne by (subst (1 2) processBuffer.simps) simp
  qed
qed

text \<open>
  Processing what is there and then what arrives later is the same as processing all of it at
  once: the key to independence from the fragmentation of the stream.
\<close>

lemma processBuffer_append:
  "processBuffer (append_bytes p ys) =
     (case processBuffer p of (q, fs) \<Rightarrow>
      case processBuffer (append_bytes q ys) of (q', gs) \<Rightarrow> (q', fs @ gs))"
proof (induction p rule: processBuffer.induct)
  case (1 p)
  show ?case
  proof (cases "m_buffer p = []")
    case True
    then show ?thesis by (simp add: processBuffer_Nil)
  next
    case ne: False
    show ?thesis
    proof (cases "processStep p")
      case (Return p')
      then have "processBuffer (append_bytes p' ys) = processBuffer (append_bytes p ys)"
        using Return_cases ne processBuffer_marker_tail by metis
      with Return ne show ?thesis by (simp add: processBuffer_Return)
    next
      case (Continue p' fs)
      note IH = "1.IH" [OF ne Continue]
      from Continue have "processStep (append_bytes p ys) = Continue (append_bytes p' ys) fs"
        by (rule Continue_append)
      then show ?thesis using ne Continue IH
        by (simp add: processBuffer_Continue split_beta)
    qed
  qed
qed

section \<open>The states the decoder rests in\<close>

text \<open>
  \<open>live\<close> holds in every state of the loop: a payload is only awaited with a length the sanity
  check let through. \<open>resting\<close> holds between two calls of \<open>feedData\<close>: each state waits for
  more bytes than the buffer holds, so the buffer stays below \<open>MAX_FRAME_SIZE\<close>.
\<close>

definition live :: "protocol \<Rightarrow> bool" where
  "live p \<longleftrightarrow> (m_state p = READING_PAYLOAD \<longrightarrow>
     0 < unat (m_expectedLength p) \<and> unat (m_expectedLength p) \<le> MAX_FRAME_SIZE)"

definition resting :: "protocol \<Rightarrow> bool" where
  "resting p \<longleftrightarrow> live p \<and> (case m_state p of
       SEEKING_START \<Rightarrow> length (m_buffer p) \<le> 3
     | READING_LENGTH \<Rightarrow> length (m_buffer p) \<le> 3
     | READING_PAYLOAD \<Rightarrow> length (m_buffer p) < unat (m_expectedLength p)
     | READING_END \<Rightarrow> length (m_buffer p) \<le> 3)"

lemma resting_live [simp]: "resting p \<Longrightarrow> live p"
  by (simp add: resting_def)

lemma live_append [simp]: "live (append_bytes p ys) = live p"
  by (simp add: live_def)

lemma live_new [inv_intros]: "resting Protocol_new" "resting (protocol_reset p)"
  by (simp_all add: resting_def live_def Protocol_new_def protocol_reset_def)

lemma resting_setFrameCallback [inv_intros]: "resting p \<Longrightarrow> resting (setFrameCallback cb p)"
  by (cases "m_state p") (simp_all add: resting_def live_def setFrameCallback_def)

lemma live_Continue: "processStep p = Continue p' fs \<Longrightarrow> live p'"
  by (auto simp: processStep_def live_def Let_def unat_gt_0 word_gt_0
      split: parse_state.splits option.splits if_splits)

lemma resting_Return: "processStep p = Return p' \<Longrightarrow> live p \<Longrightarrow> resting p'"
  by (auto simp: processStep_def resting_def live_def Let_def
      split: parse_state.splits option.splits if_splits)

lemma resting_Nil: "m_buffer p = [] \<Longrightarrow> live p \<Longrightarrow> resting p"
  by (auto simp: resting_def live_def split: parse_state.splits)

lemma processBuffer_resting: "live p \<Longrightarrow> resting (fst (processBuffer p))"
proof (induction p rule: processBuffer.induct)
  case (1 p)
  show ?case
  proof (cases "m_buffer p = []")
    case True
    with "1.prems" show ?thesis by (simp add: processBuffer_Nil resting_Nil)
  next
    case ne: False
    show ?thesis
    proof (cases "processStep p")
      case (Return p')
      with ne "1.prems" show ?thesis by (simp add: processBuffer_Return resting_Return)
    next
      case (Continue p' fs)
      with "1.IH" [OF ne Continue] ne show ?thesis
        by (simp add: processBuffer_Continue live_Continue)
    qed
  qed
qed

lemma resting_find: "resting p \<Longrightarrow> m_state p = SEEKING_START \<Longrightarrow> findStartMarker (m_buffer p) = None"
  by (simp add: resting_def findStartMarker_def)

lemma processBuffer_rest: "resting p \<Longrightarrow> processBuffer p = (p, [])"
proof (cases "m_buffer p = []")
  case False
  assume "resting p"
  with False have "processStep p = Return p"
    by (auto simp: processStep_def resting_def findStartMarker_def Let_def split: parse_state.splits)
  with False show ?thesis by (simp add: processBuffer_Return)
qed (simp add: processBuffer_Nil)

lemma resting_bound: "resting p \<Longrightarrow> length (m_buffer p) < MAX_FRAME_SIZE"
  by (auto simp: resting_def live_def MAX_FRAME_SIZE_def split: parse_state.splits)

text \<open>
  The decoder is an incremental parser: \<open>parse\<close> is \<open>feedData\<close> without its overflow check, and
  chunks of at most 1 MB never trigger that check.
\<close>

definition parse :: "protocol \<Rightarrow> byte list \<Rightarrow> protocol \<times> frame list" where
  "parse p data = processBuffer (append_bytes p data)"

lemma feedData_parse:
  "resting p \<Longrightarrow> length data \<le> MAX_FRAME_SIZE \<Longrightarrow> feedData p data = parse p data"
  using resting_bound [of p] by (simp add: feedData_def parse_def Let_def)

lemma feedData_resting [inv_intros]: "resting p \<Longrightarrow> resting (fst (feedData p data))"
  by (simp add: feedData_def Let_def live_new processBuffer_resting)

interpretation framing: incremental parse resting
proof unfold_locales
  show "parse p [] = (p, [])" if "resting p" for p
    using that by (simp add: parse_def processBuffer_rest)
  show "parse p (xs @ ys) =
      (case parse p xs of (q, fs) \<Rightarrow> case parse q ys of (q', gs) \<Rightarrow> (q', fs @ gs))" for p xs ys
    unfolding parse_def append_bytes_append by (rule processBuffer_append)
  show "resting (fst (parse p xs))" if "resting p" for p xs
    using that by (simp add: parse_def processBuffer_resting)
qed

interpretation socket: guarded_incremental parse resting feedData "\<lambda>_ c. length c \<le> MAX_FRAME_SIZE"
  by unfold_locales (rule feedData_parse)

section \<open>Encoded frames through the decoder\<close>

lemma mask_byte: "(0xFF :: u32) = mask 8"
  by (simp add: mask_eq_exp_minus_1)

lemma read_length_bytes [simp]: "read_length (length_bytes n @ xs) = n"
proof (rule bit_word_eqI)
  fix k assume "k < LENGTH(32)"
  then have k: "k < 32" by simp
  consider "k < 8" | "8 \<le> k" "k < 16" | "16 \<le> k" "k < 24" | "24 \<le> k" "k < 32" using k by linarith
  then show "bit (read_length (length_bytes n @ xs)) k = bit n k"
    by cases (auto simp: read_length_def length_bytes_def bit_simps mask_byte nth_append)
qed

definition fits :: "byte list \<Rightarrow> bool" where
  "fits payload \<longleftrightarrow> length payload < MAX_FRAME_SIZE"

lemma unat_length: "fits pl \<Longrightarrow> unat (word_of_nat (1 + length pl) :: u32) = 1 + length pl"
  by (subst unat_of_nat) (simp add: fits_def MAX_FRAME_SIZE_def)

definition at_start :: "protocol \<Rightarrow> byte list \<Rightarrow> protocol" where
  "at_start p buf = p\<lparr>m_state := SEEKING_START, m_buffer := buf\<rparr>"

lemma at_start_id [simp]: "m_state p = SEEKING_START \<Longrightarrow> m_buffer p = buf \<Longrightarrow> at_start p buf = p"
  by (simp add: at_start_def)

text \<open>
  \<open>frame_head\<close> is a frame without its end marker. A complete frame at the front of the buffer
  is delivered and removed, whatever follows, and whatever the four bytes \<open>e\<close> in the place of
  the end marker are.
\<close>

definition frame_head :: "frame \<Rightarrow> byte list" where
  "frame_head f = (case f of (ty, pl) \<Rightarrow>
     START_MARKER @ length_bytes (word_of_nat (1 + length pl)) @ [ty] @ pl)"

lemma encode_frame_head: "encode ty pl = frame_head (ty, pl) @ END_MARKER"
  by (simp add: encode_def frame_head_def Let_def)

lemma processBuffer_frame_head:
  assumes "fits pl" and "m_frameCb p" and "length e = 4"
  defines "n \<equiv> word_of_nat (1 + length pl) :: u32"
  shows "processBuffer (at_start p (frame_head (ty, pl) @ e @ rest)) =
    (case processBuffer (at_start (p\<lparr>m_expectedLength := n\<rparr>) rest) of (q, fs) \<Rightarrow> (q, (ty, pl) # fs))"
proof -
  let ?r3 = "e @ rest" let ?r2 = "[ty] @ pl @ ?r3" let ?r1 = "length_bytes n @ ?r2"
  let ?p0 = "at_start p (frame_head (ty, pl) @ e @ rest)"
  let ?p1 = "p\<lparr>m_state := READING_LENGTH, m_buffer := ?r1\<rparr>"
  let ?p2 = "p\<lparr>m_state := READING_PAYLOAD, m_buffer := ?r2, m_expectedLength := n\<rparr>"
  let ?p3 = "p\<lparr>m_state := READING_END, m_buffer := ?r3, m_expectedLength := n\<rparr>"
  have n: "unat n = 1 + length pl" "n \<noteq> 0" "1 + length pl \<le> MAX_FRAME_SIZE"
    using assms(1) unat_length [OF assms(1)] by (auto simp: n_def fits_def)
  have buf: "frame_head (ty, pl) @ e @ rest = START_MARKER @ ?r1"
    by (simp add: frame_head_def n_def)
  have s0: "processStep ?p0 = Continue ?p1 []"
    unfolding buf by (simp add: processStep_def at_start_def Let_def)
  have s1: "processStep ?p1 = Continue ?p2 []"
    using n by (simp add: processStep_def Let_def)
  have s2: "processStep ?p2 = Continue ?p3 [(ty, pl)]"
    using n assms(2) by (simp add: processStep_def Let_def)
  have s3: "processStep ?p3 = Continue (at_start (p\<lparr>m_expectedLength := n\<rparr>) rest) []"
    using assms(3) by (simp add: processStep_def at_start_def Let_def)
  have "e \<noteq> []" using assms(3) by auto
  then have ne: "m_buffer ?p0 \<noteq> []" "m_buffer ?p1 \<noteq> []" "m_buffer ?p2 \<noteq> []" "m_buffer ?p3 \<noteq> []"
    by (simp_all add: buf at_start_def length_bytes_def)
  show ?thesis
    unfolding processBuffer_Continue [OF s0 ne(1)] processBuffer_Continue [OF s1 ne(2)]
      processBuffer_Continue [OF s2 ne(3)] processBuffer_Continue [OF s3 ne(4)]
    by (simp add: split_beta)
qed

lemma processBuffer_frame:
  assumes "fits pl" and "m_frameCb p"
  shows "processBuffer (at_start p (encode ty pl @ rest)) =
    (case processBuffer (at_start (p\<lparr>m_expectedLength := word_of_nat (1 + length pl)\<rparr>) rest) of
      (q, fs) \<Rightarrow> (q, (ty, pl) # fs))"
  using processBuffer_frame_head [OF assms END_MARKER_length, of ty rest]
  by (simp add: encode_frame_head)

text \<open>A length of zero or above the maximum sends the decoder back to seeking a marker.\<close>

lemma processBuffer_bad_length:
  assumes "n = 0 \<or> unat n > MAX_FRAME_SIZE"
  shows "processBuffer (at_start p (START_MARKER @ length_bytes n @ rest)) =
         processBuffer (at_start (p\<lparr>m_expectedLength := n\<rparr>) rest)"
proof -
  let ?p0 = "at_start p (START_MARKER @ length_bytes n @ rest)"
  let ?p1 = "p\<lparr>m_state := READING_LENGTH, m_buffer := length_bytes n @ rest\<rparr>"
  have "processStep ?p0 = Continue ?p1 []"
    by (simp add: processStep_def at_start_def Let_def)
  moreover have "processStep ?p1 = Continue (at_start (p\<lparr>m_expectedLength := n\<rparr>) rest) []"
    using assms by (auto simp: processStep_def at_start_def Let_def)
  moreover have "m_buffer ?p0 \<noteq> []" "m_buffer ?p1 \<noteq> []"
    by (simp_all add: at_start_def length_bytes_def)
  ultimately show ?thesis by (simp add: processBuffer_Continue)
qed

section \<open>Garbage between frames\<close>

text \<open>
  The start marker does not overlap itself, so garbage without a marker in front of a frame is
  skipped exactly: the first marker found is the frame's.
\<close>

definition no_marker :: "byte list \<Rightarrow> bool" where
  "no_marker g \<longleftrightarrow> findStartMarker g = None"

text \<open>Bytes without \<open>0xFE\<close> hold no marker.\<close>

lemma no_marker_FE: "0xFE \<notin> set g \<Longrightarrow> no_marker g"
proof -
  assume g: "0xFE \<notin> set g"
  have "take 4 (drop p g) \<noteq> START_MARKER" for p
  proof
    assume "take 4 (drop p g) = START_MARKER"
    then have "0xFE \<in> set (take 4 (drop p g))" by (simp add: START_MARKER_def)
    with g show False by (meson in_set_dropD in_set_takeD)
  qed
  then show ?thesis by (simp add: no_marker_def findStartMarker_None)
qed

lemma no_marker_Nil [simp]: "no_marker []"
  by (simp add: no_marker_def findStartMarker_def)

lemma marker_start_at: "q < length g \<Longrightarrow> take 4 (drop q (g @ START_MARKER @ rest)) = START_MARKER \<Longrightarrow>
    q + 4 \<le> length g \<and> take 4 (drop q g) = START_MARKER"
proof -
  assume q: "q < length g" and m: "take 4 (drop q (g @ START_MARKER @ rest)) = START_MARKER"
  have "q + 4 \<le> length g"
  proof (rule ccontr)
    assume "\<not> q + 4 \<le> length g"
    with q obtain j where j: "j = length g - q" "0 < j" "j < 4" by auto
    have "take 4 (drop q (g @ START_MARKER @ rest)) ! j = START_MARKER ! 0"
      using j q by (simp add: nth_append START_MARKER_def)
    then have "START_MARKER ! j = START_MARKER ! 0" using m by simp
    moreover from j have "j = 1 \<or> j = 2 \<or> j = 3" by linarith
    ultimately show False by (auto simp: START_MARKER_def)
  qed
  with m show ?thesis by simp
qed

lemma find_after_garbage:
  assumes "no_marker g"
  shows "findStartMarker (g @ START_MARKER @ rest) = Some (length g)"
  unfolding findStartMarker_Some
proof (intro conjI allI impI)
  fix q assume "q < length g"
  then show "take 4 (drop q (g @ START_MARKER @ rest)) \<noteq> START_MARKER"
    using assms marker_start_at unfolding no_marker_def findStartMarker_None by blast
qed simp_all

lemma encode_split: "encode ty pl = START_MARKER @ drop 4 (encode ty pl)"
  by (simp add: encode_def Let_def)

lemma processBuffer_skip:
  assumes "no_marker g"
  shows "processBuffer (at_start p (g @ START_MARKER @ rest)) = processBuffer (at_start p (START_MARKER @ rest))"
proof -
  have "processStep (at_start p (g @ START_MARKER @ rest)) =
      Continue (p\<lparr>m_state := READING_LENGTH, m_buffer := rest\<rparr>) []" if "no_marker g" for g
    using find_after_garbage [OF that, of rest] by (simp add: processStep_def at_start_def Let_def)
  from this [OF assms] this [OF no_marker_Nil] show ?thesis
    by (simp add: processBuffer_Continue at_start_def)
qed

lemma processBuffer_no_marker: "no_marker g \<Longrightarrow> snd (processBuffer (at_start p g)) = []"
  and processBuffer_no_marker_state: "no_marker g \<Longrightarrow> m_state (fst (processBuffer (at_start p g))) = SEEKING_START"
proof -
  have "snd (processBuffer (at_start p g)) = [] \<and> m_state (fst (processBuffer (at_start p g))) = SEEKING_START"
    if "no_marker g"
  proof (cases "g = []")
    case False
    with that show ?thesis
      by (simp add: no_marker_def at_start_def processBuffer_Return [OF processStep_seek_None])
  qed (simp add: at_start_def processBuffer_Nil)
  then show "no_marker g \<Longrightarrow> snd (processBuffer (at_start p g)) = []"
    "no_marker g \<Longrightarrow> m_state (fst (processBuffer (at_start p g))) = SEEKING_START" by simp_all
qed

text \<open>A stream of frames, each after some garbage, as it may come off the socket.\<close>

type_synonym segment = "byte list \<times> frame"

definition segment_ok :: "segment \<Rightarrow> bool" where
  "segment_ok s = (case s of (g, ty, pl) \<Rightarrow> no_marker g \<and> fits pl)"

definition segment_bytes :: "segment \<Rightarrow> byte list" where
  "segment_bytes s = (case s of (g, ty, pl) \<Rightarrow> g @ encode ty pl)"

definition stream_bytes :: "segment list \<Rightarrow> byte list" where
  "stream_bytes ss = concat (map segment_bytes ss)"

lemma processBuffer_segment:
  assumes "no_marker g" "fits pl" "m_frameCb p"
  shows "\<exists>n. processBuffer (at_start p (g @ encode ty pl @ rest)) =
    (case processBuffer (at_start (p\<lparr>m_expectedLength := n\<rparr>) rest) of (q, fs) \<Rightarrow> (q, (ty, pl) # fs))"
proof -
  have "processBuffer (at_start p (g @ encode ty pl @ rest)) = processBuffer (at_start p (encode ty pl @ rest))"
    using processBuffer_skip [OF assms(1), of p "drop 4 (encode ty pl) @ rest"]
    by (subst (1 2) encode_split) simp
  then show ?thesis using processBuffer_frame [OF assms(2,3), of ty rest] by auto
qed

lemma processBuffer_stream:
  assumes "list_all segment_ok ss" "no_marker g" "m_frameCb p"
  shows "snd (processBuffer (at_start p (stream_bytes ss @ g))) = map snd ss \<and>
         m_state (fst (processBuffer (at_start p (stream_bytes ss @ g)))) = SEEKING_START"
  using assms
proof (induction ss arbitrary: p)
  case Nil
  then show ?case by (simp add: stream_bytes_def processBuffer_no_marker processBuffer_no_marker_state)
next
  case (Cons s ss)
  obtain h ty pl where s: "s = (h, ty, pl)" by (cases s)
  with Cons.prems have "no_marker h" "fits pl" by (auto simp: segment_ok_def)
  then obtain n where "processBuffer (at_start p (h @ encode ty pl @ stream_bytes ss @ g)) =
      (case processBuffer (at_start (p\<lparr>m_expectedLength := n\<rparr>) (stream_bytes ss @ g)) of
        (q, fs) \<Rightarrow> (q, (ty, pl) # fs))"
    using processBuffer_segment Cons.prems(3) by blast
  with Cons.IH [of "p\<lparr>m_expectedLength := n\<rparr>"] Cons.prems s show ?case
    by (simp add: stream_bytes_def segment_bytes_def split_beta)
qed

lemma append_bytes_at_start:
  "m_state p = SEEKING_START \<Longrightarrow> m_buffer p = [] \<Longrightarrow> append_bytes p xs = at_start p xs"
  by (cases p) (simp add: append_bytes_def at_start_def)

lemma feedData_at_start:
  assumes "m_state p = SEEKING_START" "m_buffer p = []" "\<forall>c \<in> set cs. length c \<le> MAX_FRAME_SIZE"
  shows "feed_all feedData p cs = processBuffer (at_start p (concat cs))"
proof -
  have "resting p" using assms(1,2) by (simp add: resting_def live_def)
  then have "feed_all feedData p cs = parse p (concat cs)"
    using assms(3) by (intro socket.entry_all_concat) auto
  then show ?thesis using assms(1,2) by (simp add: parse_def append_bytes_at_start)
qed

section \<open>Every delivered frame was in the stream\<close>

lemma length_bytes_read: "4 \<le> length xs \<Longrightarrow> length_bytes (read_length xs) = take 4 xs"
proof -
  assume "4 \<le> length xs"
  then have t: "take 4 xs = [xs ! 0, xs ! 1, xs ! 2, xs ! 3]" 
    using take_4_drop [of 0 xs] by (simp add: eval_nat_numeral)
  have "ucast (drop_bit 24 (read_length xs) AND 0xFF) = xs ! 0"
    "ucast (drop_bit 16 (read_length xs) AND 0xFF) = xs ! 1"
    "ucast (drop_bit 8 (read_length xs) AND 0xFF) = xs ! 2"
    "ucast (read_length xs AND 0xFF) = xs ! 3"
    by (rule bit_word_eqI, force simp: read_length_def mask_byte bit_simps dest: bit_imp_le_length)+
  then show ?thesis unfolding t by (simp add: length_bytes_def)
qed

text \<open>The bytes of the current frame that the decoder has already taken off its buffer.\<close>

definition consumed :: "protocol \<Rightarrow> byte list" where
  "consumed p = (case m_state p of
       SEEKING_START \<Rightarrow> []
     | READING_LENGTH \<Rightarrow> START_MARKER
     | READING_PAYLOAD \<Rightarrow> START_MARKER @ length_bytes (m_expectedLength p)
     | READING_END \<Rightarrow> [])"

lemma suffix_take_drop: "suffix (take 4 (drop n xs) @ drop (n + 4) xs) xs"
  by (metis add.commute append_take_drop_id drop_drop suffix_drop)

lemma Continue_suffix:
  assumes "processStep p = Continue p' fs"
  shows "suffix (consumed p' @ m_buffer p') (consumed p @ m_buffer p)"
proof (cases "m_state p")
  case SEEKING_START
  with assms obtain pos where *: "findStartMarker (m_buffer p) = Some pos"
    "p' = p\<lparr>m_buffer := drop (pos + 4) (m_buffer p), m_state := READING_LENGTH\<rparr>"
    by (auto simp: processStep_def Let_def split: option.splits)
  with findStartMarker_SomeD(2) [OF *(1)] suffix_take_drop [of pos "m_buffer p"] SEEKING_START
  show ?thesis by (simp add: consumed_def)
next
  case READING_LENGTH
  with assms show ?thesis
    by (auto simp: processStep_def Let_def consumed_def length_bytes_read suffix_drop suffix_appendI
        split: if_splits)
next
  case READING_PAYLOAD
  with assms show ?thesis
    by (auto simp: processStep_def Let_def consumed_def suffix_drop suffix_appendI split: if_splits)
next
  case READING_END
  with assms show ?thesis
    by (auto simp: processStep_def Let_def consumed_def suffix_drop split: if_splits)
qed

lemma Continue_frames:
  assumes "processStep p = Continue p' fs" "f \<in> set fs"
  shows "prefix (frame_head f) (consumed p @ m_buffer p)"
proof -
  let ?n = "unat (m_expectedLength p)"
  from assms have *: "m_state p = READING_PAYLOAD" "?n \<le> length (m_buffer p)"
    "take ?n (m_buffer p) \<noteq> []" "f = (hd (take ?n (m_buffer p)), tl (take ?n (m_buffer p)))"
    by (auto simp: processStep_def Let_def split: parse_state.splits option.splits if_splits)
  then have "1 + length (snd f) = ?n" by (cases "m_buffer p") auto
  then have "word_of_nat (1 + length (snd f)) = m_expectedLength p" by simp
  moreover have "fst f # snd f = take ?n (m_buffer p)" using *(3,4) by (simp del: take_eq_Nil)
  ultimately have "frame_head f = consumed p @ take ?n (m_buffer p)"
    using *(1) by (simp add: frame_head_def consumed_def split_beta)
  then show ?thesis by (metis append_take_drop_id append_assoc prefixI)
qed

lemma processBuffer_delivers:
  "f \<in> set (snd (processBuffer p)) \<Longrightarrow> sublist (frame_head f) (consumed p @ m_buffer p)"
proof (induction p rule: processBuffer.induct)
  case (1 p)
  have ne: "m_buffer p \<noteq> []" using "1.prems" by (auto simp: processBuffer_Nil)
  then obtain p' fs where C: "processStep p = Continue p' fs"
    using "1.prems" by (cases "processStep p") (auto simp: processBuffer_Return)
  with ne "1.prems" consider "f \<in> set fs" | "f \<in> set (snd (processBuffer p'))"
    by (auto simp: processBuffer_Continue)
  then show ?case
  proof cases
    case 1
    then show ?thesis using Continue_frames [OF C] by (simp only: prefix_imp_sublist)
  next
    case 2
    then have "sublist (frame_head f) (consumed p' @ m_buffer p')" by (rule "1.IH" [OF ne C])
    then show ?thesis using Continue_suffix [OF C]
      by (meson sublist_order.order_trans suffix_imp_sublist)
  qed
qed

lemma processBuffer_frames_live:
  "live p \<Longrightarrow> f \<in> set (snd (processBuffer p)) \<Longrightarrow> fits (snd f)"
proof (induction p rule: processBuffer.induct)
  case (1 p)
  have ne: "m_buffer p \<noteq> []" using "1.prems" by (auto simp: processBuffer_Nil)
  then obtain p' fs where C: "processStep p = Continue p' fs"
    using "1.prems" by (cases "processStep p") (auto simp: processBuffer_Return)
  have "fits (snd f)" if "f \<in> set fs"
    using C that "1.prems"(1)
    by (auto simp: processStep_def live_def fits_def Let_def
        split: parse_state.splits option.splits if_splits)
  with ne C "1.prems" "1.IH" [OF ne C live_Continue [OF C]] show ?case
    by (auto simp: processBuffer_Continue)
qed

section \<open>Properties of the framing\<close>

lemma feed_all_resting: "resting p \<Longrightarrow> resting (fst (feed_all feedData p cs))"
  by (induction cs arbitrary: p) (auto simp: split_beta feedData_resting)

lemma feedData_frames: "resting p \<Longrightarrow> f \<in> set (snd (feedData p c)) \<Longrightarrow> fits (snd f)"
  using processBuffer_frames_live [of "append_bytes p c" f]
  by (auto simp: feedData_def Let_def split: if_splits)

lemma feed_all_frames: "resting p \<Longrightarrow> f \<in> set (snd (feed_all feedData p cs)) \<Longrightarrow> fits (snd f)"
  by (induction cs arbitrary: p)
    (auto simp: split_beta dest: feedData_frames feedData_resting)

text \<open>
  C1. Round trip over an arbitrary transport. A list of frames is encoded, each with garbage
  holding no start marker in front of it and such garbage at the end, and the bytes reach a
  freshly reset decoder cut into chunks in any way, each chunk at most 1 MB: the callback is
  called with exactly those frames, in order, and the decoder ends up seeking the next start.
\<close>

theorem frames_survive_transport:
  assumes "list_all segment_ok ss" and "no_marker g"
    and "m_frameCb p" and "m_state p = SEEKING_START" and "m_buffer p = []"
    and "concat cs = stream_bytes ss @ g" and "\<forall>c \<in> set cs. length c \<le> MAX_FRAME_SIZE"
  shows "snd (feed_all feedData p cs) = map snd ss \<and>
         m_state (fst (feed_all feedData p cs)) = SEEKING_START"
  using processBuffer_stream [OF assms(1-3)] feedData_at_start [OF assms(4,5,7)] assms(6) by simp

theorem frames_survive_transport_witness:
  "snd (feed_all feedData (setFrameCallback True Protocol_new)
     [[0, 0xFE, 0xFD, 0xFE], [0xFD, 0xFC, 0xFB, 0, 0], [0, 3, 2, 0x46, 0x41, 0, 0, 0, 0, 9]])
   = [(TYPE_CAT_RESPONSE, [0x46, 0x41])]"
  using frames_survive_transport [of "[([0, 0xFE, 0xFD], TYPE_CAT_RESPONSE, [0x46, 0x41])]" "[9]"
      "setFrameCallback True Protocol_new"
      "[[0, 0xFE, 0xFD, 0xFE], [0xFD, 0xFC, 0xFB, 0, 0], [0, 3, 2, 0x46, 0x41, 0, 0, 0, 0, 9]]"]
  by (simp add: segment_ok_def no_marker_def findStartMarker_def fits_def MAX_FRAME_SIZE_def
      setFrameCallback_def Protocol_new_def stream_bytes_def segment_bytes_def encode_def
      START_MARKER_def END_MARKER_def length_bytes_def TYPE_CAT_RESPONSE_def)

text \<open>
  Fragmentation does not matter in any state the decoder rests in: two ways of cutting the
  same bytes into chunks of at most 1 MB leave the same state and call the callback with the
  same frames.
\<close>

theorem fragmentation_irrelevant:
  assumes "resting p" and "concat cs = concat ds"
    and "\<forall>c \<in> set cs. length c \<le> MAX_FRAME_SIZE" and "\<forall>d \<in> set ds. length d \<le> MAX_FRAME_SIZE"
  shows "feed_all feedData p cs = feed_all feedData p ds"
proof -
  have "feed_all feedData p xs = parse p (concat xs)" if "\<forall>c \<in> set xs. length c \<le> MAX_FRAME_SIZE" for xs
    using that assms(1) by (intro socket.entry_all_concat) auto
  with assms show ?thesis by simp
qed

theorem fragmentation_irrelevant_witness:
  "feed_all feedData Protocol_new [[0xFE, 0xFD], [], [0xFC, 0xFB, 0, 0, 0, 1, 7, 0]] =
   feed_all feedData Protocol_new [[0xFE, 0xFD, 0xFC, 0xFB, 0], [0, 0, 1, 7, 0]]"
  by (rule fragmentation_irrelevant)
    (simp_all add: live_new MAX_FRAME_SIZE_def)

text \<open>
  C17. Soundness: every frame the callback is called with was in the stream, as a start marker,
  its length in big-endian and its type and data, contiguous and undamaged.
\<close>

theorem delivered_frames_were_sent:
  assumes "m_state p = SEEKING_START" and "m_buffer p = []"
    and "\<forall>c \<in> set cs. length c \<le> MAX_FRAME_SIZE"
    and "f \<in> set (snd (feed_all feedData p cs))"
  shows "sublist (frame_head f) (concat cs)"
  using assms(4) processBuffer_delivers [of f "at_start p (concat cs)"]
  by (simp add: feedData_at_start [OF assms(1-3)] consumed_def at_start_def)

theorem delivered_frames_were_sent_witness:
  "sublist (frame_head (7, [])) (concat [[9, 0xFE, 0xFD, 0xFC, 0xFB, 0, 0, 0, 1, 7 :: byte]])"
proof (rule delivered_frames_were_sent [where p = "setFrameCallback True Protocol_new"])
  show "(7, []) \<in> set (snd (feed_all feedData (setFrameCallback True Protocol_new)
      [[9, 0xFE, 0xFD, 0xFC, 0xFB, 0, 0, 0, 1, 7]]))"
    by (simp add: setFrameCallback_def Protocol_new_def feedData_def MAX_FRAME_SIZE_def Let_def
        append_bytes_def processBuffer.simps processStep_def findStartMarker_def marker_loop.simps
        marker_at_def START_MARKER_def read_length_def)
qed (simp_all add: setFrameCallback_def Protocol_new_def MAX_FRAME_SIZE_def)

text \<open>
  C18. Bounded memory, whatever is fed and in whatever chunks, oversized ones included: between
  calls the buffer is shorter than \<open>MAX_FRAME_SIZE\<close>, and so is the data of every frame.
\<close>

theorem decoder_memory_bounded:
  assumes "resting p"
  shows "length (m_buffer (fst (feed_all feedData p cs))) < MAX_FRAME_SIZE \<and>
         (\<forall>f \<in> set (snd (feed_all feedData p cs)). length (snd f) < MAX_FRAME_SIZE)"
  using resting_bound [OF feed_all_resting [OF assms]] feed_all_frames [OF assms]
  by (auto simp: fits_def)

theorem decoder_memory_bounded_witness:
  "length (m_buffer (fst (feed_all feedData Protocol_new [[0xFE, 0xFD], [0xFC]]))) < MAX_FRAME_SIZE"
  using decoder_memory_bounded [OF live_new(1)] by blast

text \<open>
  A frame whose length field is zero or above \<open>MAX_FRAME_SIZE\<close> is abandoned right after the
  field, and the decoder recovers: all valid frames after it are delivered.
\<close>

theorem bad_length_resynchronises:
  assumes "n = 0 \<or> unat n > MAX_FRAME_SIZE"
    and "list_all segment_ok ss" and "no_marker g"
    and "m_frameCb p" and "m_state p = SEEKING_START" and "m_buffer p = []"
    and "concat cs = START_MARKER @ length_bytes n @ stream_bytes ss @ g"
    and "\<forall>c \<in> set cs. length c \<le> MAX_FRAME_SIZE"
  shows "snd (feed_all feedData p cs) = map snd ss"
  using processBuffer_stream [OF assms(2,3), of "p\<lparr>m_expectedLength := n\<rparr>"] assms(4)
  by (simp add: feedData_at_start [OF assms(5,6,8)] assms(7) processBuffer_bad_length [OF assms(1)])

theorem bad_length_resynchronises_witness:
  "snd (feed_all feedData (setFrameCallback True Protocol_new)
     [START_MARKER @ length_bytes 0x200000, encode 1 [0x52]]) = [(1, [0x52])]"
  using bad_length_resynchronises [where n = "0x200000" and ss = "[([], 1, [0x52])]" and g = "[]" and
      p = "setFrameCallback True Protocol_new" and cs = "[START_MARKER @ length_bytes 0x200000, encode 1 [0x52]]"]
  by (simp add: segment_ok_def fits_def MAX_FRAME_SIZE_def setFrameCallback_def Protocol_new_def
      stream_bytes_def segment_bytes_def encode_def Let_def)

text \<open>
  The encoder does not check \<open>MAX_FRAME_SIZE\<close>: a frame whose type and data together exceed
  it is encoded all the same, and a decoder drops it without calling the callback.
\<close>

theorem oversized_frame_is_dropped:
  assumes "MAX_FRAME_SIZE \<le> length pl" and "length pl < 2 ^ 32 - 1"
    and "no_marker (ty # pl @ END_MARKER)"
    and "m_state p = SEEKING_START" and "m_buffer p = []"
    and "concat cs = encode ty pl" and "\<forall>c \<in> set cs. length c \<le> MAX_FRAME_SIZE"
  shows "snd (feed_all feedData p cs) = []"
proof -
  define n where "n = (word_of_nat (1 + length pl) :: u32)"
  have "unat n = 1 + length pl" using assms(2) unfolding n_def by (subst unat_of_nat) simp
  then have bad: "n = 0 \<or> unat n > MAX_FRAME_SIZE" using assms(1) by simp
  have "encode ty pl = START_MARKER @ length_bytes n @ ty # pl @ END_MARKER"
    by (simp add: encode_def n_def Let_def)
  then show ?thesis
    by (simp add: feedData_at_start [OF assms(4,5,7)] assms(6) processBuffer_bad_length [OF bad]
        processBuffer_no_marker [OF assms(3)])
qed

theorem oversized_frame_is_dropped_witness:
  "snd (feed_all feedData Protocol_new
     [take MAX_FRAME_SIZE (encode 3 (replicate MAX_FRAME_SIZE 0)),
      drop MAX_FRAME_SIZE (encode 3 (replicate MAX_FRAME_SIZE 0))]) = []"
proof (rule oversized_frame_is_dropped)
  show "no_marker (3 # replicate MAX_FRAME_SIZE 0 @ END_MARKER)"
    by (rule no_marker_FE) (simp add: END_MARKER_def)
  show "concat [take MAX_FRAME_SIZE (encode 3 (replicate MAX_FRAME_SIZE 0)),
      drop MAX_FRAME_SIZE (encode 3 (replicate MAX_FRAME_SIZE 0))] = encode 3 (replicate MAX_FRAME_SIZE 0)"
    by (simp only: concat.simps append_Nil2 append_take_drop_id)
qed (simp_all add: Protocol_new_def MAX_FRAME_SIZE_def encode_def Let_def)

text \<open>
  The end marker is consumed but never verified: a frame is delivered whatever its last four
  bytes are, and the frames after them are unaffected.
\<close>

theorem end_marker_not_verified:
  assumes "fits pl" and "length e = 4" and "list_all segment_ok ss" and "no_marker g"
    and "m_frameCb p" and "m_state p = SEEKING_START" and "m_buffer p = []"
    and "concat cs = frame_head (ty, pl) @ e @ stream_bytes ss @ g"
    and "\<forall>c \<in> set cs. length c \<le> MAX_FRAME_SIZE"
  shows "snd (feed_all feedData p cs) = (ty, pl) # map snd ss"
  using processBuffer_stream [OF assms(3,4), of "p\<lparr>m_expectedLength := word_of_nat (1 + length pl)\<rparr>"]
  by (simp add: feedData_at_start [OF assms(6,7,9)] assms(5,8) split_beta
      processBuffer_frame_head [OF assms(1,5,2)] del: of_nat_Suc of_nat_add)

theorem end_marker_not_verified_witness:
  "snd (feed_all feedData (setFrameCallback True Protocol_new)
     [frame_head (2, [0x41]) @ [0xDE, 0xAD, 0xBE, 0xEF], encode 6 []]) = [(2, [0x41]), (6, [])]"
  using end_marker_not_verified [where ty = 2 and pl = "[0x41]" and e = "[0xDE, 0xAD, 0xBE, 0xEF]" and
      ss = "[([], 6, [])]" and g = "[]" and p = "setFrameCallback True Protocol_new" and
      cs = "[frame_head (2, [0x41]) @ [0xDE, 0xAD, 0xBE, 0xEF], encode 6 []]"]
  by (simp add: segment_ok_def fits_def MAX_FRAME_SIZE_def setFrameCallback_def Protocol_new_def
      stream_bytes_def segment_bytes_def encode_def frame_head_def Let_def)

text \<open>
  Where the end marker is missing altogether, the four bytes consumed in its place are the
  next frame's start marker, and that frame is lost although it is well formed.
\<close>

theorem missing_end_marker_loses_next_frame:
  assumes "fits pl" and "no_marker (drop 4 (encode ty' pl'))"
    and "m_frameCb p" and "m_state p = SEEKING_START" and "m_buffer p = []"
    and "concat cs = frame_head (ty, pl) @ encode ty' pl'"
    and "\<forall>c \<in> set cs. length c \<le> MAX_FRAME_SIZE"
  shows "snd (feed_all feedData p cs) = [(ty, pl)]"
proof -
  have "concat cs = frame_head (ty, pl) @ START_MARKER @ drop 4 (encode ty' pl')"
    unfolding assms(6) using encode_split by simp
  then show ?thesis
    by (simp add: feedData_at_start [OF assms(4,5,7)] split_beta
        processBuffer_frame_head [OF assms(1,3) START_MARKER_length]
        processBuffer_no_marker [OF assms(2)])
qed

theorem missing_end_marker_loses_next_frame_witness:
  "snd (feed_all feedData (setFrameCallback True Protocol_new)
     [frame_head (2, [0x41]) @ encode 2 [0x42]]) = [(2, [0x41])]"
proof (rule missing_end_marker_loses_next_frame)
  show "no_marker (drop 4 (encode 2 [0x42]))"
    by (rule no_marker_FE) (simp add: encode_def START_MARKER_def END_MARKER_def length_bytes_def)
qed (simp_all add: fits_def MAX_FRAME_SIZE_def setFrameCallback_def Protocol_new_def frame_head_def encode_def)

end
