(* ===== verification/RingBuffer.thy ===== *)
theory RingBuffer
  imports Prelude "HOL-Library.Sublist"
begin

text \<open>
  The single-producer single-consumer queue of \<open>core/src/audio/ring_buffer.cpp\<close>: sequential
  operations with 64-bit positions that wrap around, the bounded-queue contract the audio path
  relies on, and every interleaving of one producer thread with one consumer thread.
\<close>

type_synonym sample = "16 word"

section \<open>Operations\<close>

definition nextPowerOf2 :: "u64 \<Rightarrow> u64" where
  "nextPowerOf2 v0 =
     (let v = v0 - 1;
          v = v OR drop_bit 1 v;
          v = v OR drop_bit 2 v;
          v = v OR drop_bit 4 v;
          v = v OR drop_bit 8 v;
          v = v OR drop_bit 16 v;
          v = v OR drop_bit 32 v
      in v + 1)"

record ring =
  rb_buffer :: "sample list"
  rb_capacity :: u64
  rb_mask :: u64
  rb_writePos :: u64
  rb_readPos :: u64

definition RingBuffer_new :: "u64 \<Rightarrow> ring" where
  "RingBuffer_new capacity_samples =
     (let cap = nextPowerOf2 capacity_samples
      in \<lparr>rb_buffer = replicate (unat cap) 0, rb_capacity = cap, rb_mask = cap - 1,
          rb_writePos = 0, rb_readPos = 0\<rparr>)"

text \<open>Slot of the buffer for an absolute position, and the two copy loops.\<close>

definition slot :: "ring \<Rightarrow> u64 \<Rightarrow> nat" where
  "slot rb pos = unat (pos AND rb_mask rb)"

definition copy_in :: "ring \<Rightarrow> u64 \<Rightarrow> sample list \<Rightarrow> nat \<Rightarrow> sample list" where
  "copy_in rb writePos samples toWrite =
     foldl (\<lambda>buf i. buf[slot rb (writePos + of_nat i) := samples ! i]) (rb_buffer rb) [0..<toWrite]"

definition copy_out :: "ring \<Rightarrow> u64 \<Rightarrow> nat \<Rightarrow> sample list" where
  "copy_out rb readPos toRead = map (\<lambda>i. rb_buffer rb ! slot rb (readPos + of_nat i)) [0..<toRead]"

text \<open>\<open>write\<close> returns the number of samples written, \<open>read\<close> the samples read.\<close>

definition rb_write :: "ring \<Rightarrow> sample list \<Rightarrow> u64 \<Rightarrow> ring \<times> u64" where
  "rb_write rb samples count =
     (let writePos = rb_writePos rb; readPos = rb_readPos rb;
          avail = rb_capacity rb - (writePos - readPos);
          toWrite = min count avail
      in (rb\<lparr>rb_buffer := copy_in rb writePos samples (unat toWrite),
             rb_writePos := writePos + toWrite\<rparr>, toWrite))"

definition rb_read :: "ring \<Rightarrow> u64 \<Rightarrow> ring \<times> sample list" where
  "rb_read rb count =
     (let readPos = rb_readPos rb; writePos = rb_writePos rb;
          avail = writePos - readPos;
          toRead = min count avail
      in (rb\<lparr>rb_readPos := readPos + toRead\<rparr>, copy_out rb readPos (unat toRead)))"

definition rb_available :: "ring \<Rightarrow> u64" where
  "rb_available rb = rb_writePos rb - rb_readPos rb"

definition rb_space :: "ring \<Rightarrow> u64" where
  "rb_space rb = rb_capacity rb - rb_available rb"

definition rb_reset :: "ring \<Rightarrow> ring" where
  "rb_reset rb = rb\<lparr>rb_writePos := 0, rb_readPos := 0\<rparr>"

section \<open>Rounding up to a power of two\<close>

text \<open>Each shift doubles the window of higher bits that have been or-ed into a bit.\<close>

definition smeared :: "nat \<Rightarrow> u64 \<Rightarrow> u64 \<Rightarrow> bool" where
  "smeared s x y \<longleftrightarrow> (\<forall>n. bit y n \<longleftrightarrow> (\<exists>d < s. bit x (n + d)))"

lemma smeared_1: "smeared 1 x x"
  by (simp add: smeared_def)

lemma smeared_step: "smeared s x y \<Longrightarrow> t = s + s \<Longrightarrow> smeared t x (y OR drop_bit s y)"
proof -
  assume y: "smeared s x y" and t: "t = s + s"
  have "(\<exists>d < s. bit x (n + d)) \<or> (\<exists>d < s. bit x (n + s + d)) \<longleftrightarrow> (\<exists>d < s + s. bit x (n + d))" for n
  proof
    assume "\<exists>d < s + s. bit x (n + d)"
    then obtain d where d: "d < s + s" "bit x (n + d)" by blast
    show "(\<exists>d < s. bit x (n + d)) \<or> (\<exists>d < s. bit x (n + s + d))"
    proof (cases "d < s")
      case False
      with d have "d - s < s \<and> bit x (n + s + (d - s))" by simp
      then show ?thesis by blast
    qed (use d in blast)
  next
    assume "(\<exists>d < s. bit x (n + d)) \<or> (\<exists>d < s. bit x (n + s + d))"
    then consider d where "d < s" "bit x (n + d)" | d where "d < s" "bit x (n + (s + d))"
      by (auto simp: add.assoc)
    then show "\<exists>d < s + s. bit x (n + d)"
      by cases (meson add_less_mono1 trans_less_add1 add_strict_left_mono)+
  qed
  with y t show ?thesis by (simp add: smeared_def bit_simps add.commute)
qed

definition smear :: "u64 \<Rightarrow> u64" where
  "smear x =
     (let v = x OR drop_bit 1 x; v = v OR drop_bit 2 v; v = v OR drop_bit 4 v;
          v = v OR drop_bit 8 v; v = v OR drop_bit 16 v
      in v OR drop_bit 32 v)"

lemma nextPowerOf2_smear: "nextPowerOf2 v = smear (v - 1) + 1"
  by (simp add: nextPowerOf2_def smear_def Let_def)

lemma smear_bit: "bit (smear x) n \<longleftrightarrow> (\<exists>m \<ge> n. bit x m)"
proof -
  define v1 where "v1 = x OR drop_bit 1 x"
  define v2 where "v2 = v1 OR drop_bit 2 v1"
  define v3 where "v3 = v2 OR drop_bit 4 v2"
  define v4 where "v4 = v3 OR drop_bit 8 v3"
  define v5 where "v5 = v4 OR drop_bit 16 v4"
  note v = v1_def v2_def v3_def v4_def v5_def
  have "smeared 2 x v1" unfolding v1_def by (rule smeared_step [OF smeared_1]) simp
  then have "smeared 4 x v2" unfolding v2_def by (rule smeared_step) simp
  then have "smeared 8 x v3" unfolding v3_def by (rule smeared_step) simp
  then have "smeared 16 x v4" unfolding v4_def by (rule smeared_step) simp
  then have "smeared 32 x v5" unfolding v5_def by (rule smeared_step) simp
  then have "smeared 64 x (v5 OR drop_bit 32 v5)" by (rule smeared_step) simp
  then have "smeared 64 x (smear x)" by (simp only: smear_def v Let_def)
  moreover have "m - n < 64" if "bit x m" for m using bit_imp_le_length [OF that] by simp
  ultimately show ?thesis unfolding smeared_def
    by (metis le_add1 le_add_diff_inverse)
qed

lemma top_bit:
  fixes x :: u64
  assumes "x \<noteq> 0"
  obtains h where "h < 64" "smear x = mask (Suc h)" "2 ^ h \<le> unat x" "unat x < 2 ^ Suc h"
proof -
  let ?B = "{n. bit x n}"
  have fin: "finite ?B" by (rule finite_subset [of _ "{..<64}"]) (auto dest: bit_imp_le_length)
  have ne: "?B \<noteq> {}" using assms by (auto simp: bit_eq_iff)
  define h where "h = Max ?B"
  have h: "bit x h" using Max_in [OF fin ne] by (simp add: h_def)
  then have lt: "h < 64" by (auto dest: bit_imp_le_length)
  have above: "n \<le> h" if "bit x n" for n using that fin by (simp add: h_def)
  have "smear x = mask (Suc h)"
    by (rule bit_word_eqI) (use h above lt in \<open>auto simp: smear_bit bit_simps less_Suc_eq_le intro: order_trans\<close>)
  moreover have "x = take_bit (Suc h) x"
    by (rule bit_word_eqI) (use above in \<open>auto simp: bit_simps less_Suc_eq_le\<close>)
  then have "unat x < 2 ^ Suc h" by (metis take_bit_nat_less_exp unsigned_take_bit_eq)
  moreover have "2 ^ h \<le> unat x"
  proof (rule ccontr)
    assume "\<not> 2 ^ h \<le> unat x"
    then have "take_bit h (unat x) = unat x" by (simp add: take_bit_nat_eq_self)
    then have "\<not> bit (unat x) h" by (metis bit_take_bit_iff less_irrefl)
    with h show False by (simp add: bit_unsigned_iff)
  qed
  ultimately show thesis using lt that by blast
qed

lemma mask_plus_1: "h < 64 \<Longrightarrow> mask (Suc h) + 1 = (2 ^ Suc h :: u64)"
  by (simp add: mask_eq_exp_minus_1)

lemma smear_0: "smear 0 = 0"
  by (simp add: smear_def)

lemma nextPowerOf2_cases:
  assumes "0 < unat v"
  obtains k where "nextPowerOf2 v = 2 ^ k" "k \<le> 64" "unat v \<le> 2 ^ k" "2 ^ k < 2 * unat v"
proof (cases "v = 1")
  case True
  then show thesis using that [of 0] by (simp add: nextPowerOf2_smear smear_0)
next
  case False
  then have "v - 1 \<noteq> 0" by simp
  then obtain h where h: "h < 64" "smear (v - 1) = mask (Suc h)" "2 ^ h \<le> unat (v - 1)"
    "unat (v - 1) < 2 ^ Suc h" by (rule top_bit)
  have "unat (v - 1) = unat v - 1" using assms by (metis unat_gt_0 unat_minus_one)
  with h assms show thesis using that [of "Suc h"]
    by (simp add: nextPowerOf2_smear mask_plus_1)
qed

section \<open>Slots and the copy loops\<close>

text \<open>
  \<open>ring_shape rb k\<close>: the capacity is \<open>2 ^ k\<close>, small enough for the positions' difference to be
  meaningful, and the mask and the storage fit it. \<open>ring_ok\<close> adds that no more than the capacity
  is unread. The positions themselves may have wrapped around.
\<close>

definition ring_shape :: "ring \<Rightarrow> nat \<Rightarrow> bool" where
  "ring_shape rb k \<longleftrightarrow> k < 64 \<and> rb_capacity rb = 2 ^ k \<and> rb_mask rb = rb_capacity rb - 1 \<and>
     length (rb_buffer rb) = 2 ^ k"

definition ring_ok :: "ring \<Rightarrow> bool" where
  "ring_ok rb \<longleftrightarrow> (\<exists>k < 64. ring_shape rb k) \<and> unat (rb_available rb) \<le> unat (rb_capacity rb)"

lemma unat_exp: "k < 64 \<Longrightarrow> unat (2 ^ k :: u64) = 2 ^ k"
proof -
  assume "k < 64"
  then have "(2::nat) ^ k < 2 ^ 64" by (intro power_strict_increasing) simp_all
  then have "unat (word_of_nat (2 ^ k) :: u64) = 2 ^ k" by (subst unat_of_nat) simp
  then show ?thesis by simp
qed

lemma unat_capacity: "ring_shape rb k \<Longrightarrow> unat (rb_capacity rb) = 2 ^ k"
  by (simp add: ring_shape_def unat_exp)

lemma slot_mod:
  assumes "ring_shape rb k"
  shows "slot rb (pos + of_nat i) = (unat pos + i) mod 2 ^ k"
proof -
  from assms have k: "k < 64" and "rb_mask rb = mask k"
    by (simp_all add: ring_shape_def mask_eq_exp_minus_1)
  then have "slot rb (pos + of_nat i) = unat (take_bit k (pos + of_nat i))"
    by (simp add: slot_def take_bit_eq_mask)
  also have "\<dots> = take_bit k (unat (pos + of_nat i))" by (rule unsigned_take_bit_eq)
  also have "\<dots> = unat (pos + of_nat i) mod 2 ^ k" by (rule take_bit_eq_mod)
  also have "unat (pos + of_nat i) = (unat pos + i) mod 2 ^ 64"
    by (simp add: unat_word_ariths unat_of_nat mod_add_right_eq)
  also have "\<dots> mod 2 ^ k = (unat pos + i) mod 2 ^ k"
    using k by (intro mod_mod_cancel le_imp_power_dvd) simp
  finally show ?thesis .
qed

lemma slot_less: "ring_shape rb k \<Longrightarrow> slot rb (pos + of_nat i) < 2 ^ k"
  by (simp add: slot_mod)

lemma mod_window_inj:
  assumes "(p + i) mod c = (p + j) mod (c :: nat)" "i < c" "j < c"
  shows "i = j"
  using assms
proof (induction i j rule: linorder_wlog)
  case (le i j)
  then have "c dvd (p + j) - (p + i)" by (metis add_le_cancel_left mod_eq_dvd_iff_nat)
  then have "c dvd j - i" by simp
  moreover have "j - i < c" using le by simp
  ultimately show ?case using le by (auto dest: dvd_imp_le)
qed auto

lemma slot_inj:
  "ring_shape rb k \<Longrightarrow> slot rb (pos + of_nat i) = slot rb (pos + of_nat j) \<Longrightarrow>
     i < 2 ^ k \<Longrightarrow> j < 2 ^ k \<Longrightarrow> i = j"
  by (auto simp: slot_mod intro: mod_window_inj)

lemma foldl_update_length [simp]: "length (foldl (\<lambda>b i. b[f i := g i]) b is) = length b"
  by (induction "is" arbitrary: b) simp_all

lemma foldl_update_other: "p \<notin> f ` set is \<Longrightarrow> foldl (\<lambda>b i. b[f i := g i]) b is ! p = b ! p"
  by (induction "is" arbitrary: b) simp_all

lemma foldl_update_hit:
  "j < n \<Longrightarrow> f j < length b \<Longrightarrow> \<forall>i < n. f i = f j \<longrightarrow> i = j \<Longrightarrow>
     foldl (\<lambda>b i. b[f i := g i]) b [0..<n] ! f j = g j"
proof (induction n)
  case (Suc n)
  then show ?case by (cases "j = n") auto
qed simp

lemma copy_in_length [simp]: "length (copy_in rb w xs n) = length (rb_buffer rb)"
  by (simp add: copy_in_def)

text \<open>The window of \<open>d\<close> unread samples followed by \<open>n\<close> new ones does not collide.\<close>

lemma copy_in_old:
  assumes "ring_shape rb k" "d + n \<le> 2 ^ k" "i < d" and w: "w = r + of_nat d"
  shows "copy_in rb w xs n ! slot rb (r + of_nat i) = rb_buffer rb ! slot rb (r + of_nat i)"
proof -
  have "slot rb (r + of_nat d + of_nat j) \<noteq> slot rb (r + of_nat i)" if "j < n" for j
    using slot_inj [OF assms(1), of r "d + j" i] assms(2,3) that by (auto simp: add.assoc)
  then have "slot rb (r + of_nat i) \<notin> (\<lambda>j. slot rb (r + of_nat d + of_nat j)) ` set [0..<n]"
    by (auto simp: image_iff) metis
  then show ?thesis unfolding copy_in_def w by (rule foldl_update_other)
qed

lemma copy_in_new:
  assumes "ring_shape rb k" "n \<le> 2 ^ k" "j < n"
  shows "copy_in rb w xs n ! slot rb (w + of_nat j) = xs ! j"
  unfolding copy_in_def
proof (rule foldl_update_hit [where f = "\<lambda>i. slot rb (w + of_nat i)", OF assms(3)])
  show "slot rb (w + of_nat j) < length (rb_buffer rb)"
    using assms(1) slot_less [OF assms(1)] by (simp add: ring_shape_def)
  show "\<forall>i < n. slot rb (w + of_nat i) = slot rb (w + of_nat j) \<longrightarrow> i = j"
    using slot_inj [OF assms(1)] assms(2,3) by (meson order_less_le_trans)
qed

section \<open>The unread samples\<close>

definition contents :: "ring \<Rightarrow> sample list" where
  "contents rb = copy_out rb (rb_readPos rb) (unat (rb_available rb))"

lemma copy_out_length [simp]: "length (copy_out rb r n) = n"
  by (simp add: copy_out_def)

lemma length_contents: "length (contents rb) = unat (rb_available rb)"
  by (simp add: contents_def)

lemma writePos_available: "rb_writePos rb = rb_readPos rb + of_nat (unat (rb_available rb))"
  by (simp add: rb_available_def)

lemma toWrite_eq:
  assumes "ring_ok rb"
  shows "unat (snd (rb_write rb xs count)) = min (unat count) (unat (rb_capacity rb) - length (contents rb))"
proof -
  have "unat (rb_capacity rb - rb_available rb) = unat (rb_capacity rb) - unat (rb_available rb)"
    using assms by (intro unat_sub) (simp add: ring_ok_def word_le_nat_alt)
  then show ?thesis
    by (simp add: rb_write_def Let_def length_contents rb_available_def min_def word_le_nat_alt)
qed

lemma unat_add_le: "unat (a :: u64) + n \<le> 2 ^ k \<Longrightarrow> k < 64 \<Longrightarrow> unat (a + of_nat n) = unat a + n"
proof -
  assume *: "unat a + n \<le> 2 ^ k" "k < 64"
  then have "(2::nat) ^ k < 2 ^ 64" by (intro power_strict_increasing) simp_all
  with * have "unat a + n < 2 ^ 64" by linarith
  then show ?thesis by (simp add: unat_word_ariths unat_of_nat mod_add_right_eq)
qed

lemma rb_write_effect:
  assumes ok: "ring_ok rb" and len: "unat count \<le> length xs"
  defines "n \<equiv> unat (snd (rb_write rb xs count))"
  shows "ring_ok (fst (rb_write rb xs count)) \<and>
         contents (fst (rb_write rb xs count)) = contents rb @ take n xs \<and>
         rb_capacity (fst (rb_write rb xs count)) = rb_capacity rb"
proof -
  let ?rb' = "fst (rb_write rb xs count)" and ?d = "unat (rb_available rb)"
  from ok obtain k where k: "ring_shape rb k" "?d \<le> 2 ^ k"
    by (auto simp: ring_ok_def unat_capacity)
  have n: "?d + n \<le> 2 ^ k" "n \<le> length xs"
    using toWrite_eq [OF ok, of xs count] k len by (auto simp: n_def length_contents unat_capacity)
  have rb': "?rb' = rb\<lparr>rb_buffer := copy_in rb (rb_writePos rb) xs n,
      rb_writePos := rb_writePos rb + of_nat n\<rparr>"
    by (simp add: rb_write_def n_def Let_def)
  have shape: "ring_shape ?rb' k" and slot: "slot ?rb' = slot rb"
    and buf: "rb_buffer ?rb' = copy_in rb (rb_writePos rb) xs n"
    and rpos: "rb_readPos ?rb' = rb_readPos rb"
    using k by (simp_all add: rb' ring_shape_def slot_def fun_eq_iff)
  have avail: "unat (rb_available ?rb') = ?d + n"
    using unat_add_le [of "rb_available rb" n k] n k
    by (simp add: rb' rb_available_def ring_shape_def add_diff_eq diff_add_eq)
  have "contents ?rb' ! i = (contents rb @ take n xs) ! i" if "i < ?d + n" for i
  proof (cases "i < ?d")
    case True
    then show ?thesis
      using copy_in_old [OF k(1) n(1) True writePos_available, of xs] avail that
      by (simp add: contents_def copy_out_def nth_append slot buf rpos)
  next
    case False
    define j where "j = i - ?d"
    with False that have j: "i = ?d + j" "j < n" by simp_all
    have pos: "rb_readPos rb + (rb_available rb + of_nat j) = rb_writePos rb + of_nat j"
      by (simp add: rb_available_def)
    show ?thesis
      using copy_in_new [OF k(1) _ j(2), of "rb_writePos rb" xs] avail that j n
      by (simp add: contents_def copy_out_def nth_append slot buf rpos pos)
  qed
  then have "contents ?rb' = contents rb @ take n xs"
    using avail n by (intro nth_equalityI) (simp_all add: length_contents)
  moreover have "ring_ok ?rb'"
    using shape avail n k by (auto simp: ring_ok_def ring_shape_def unat_exp)
  ultimately show ?thesis by (simp add: rb')
qed

lemma rb_read_effect:
  assumes ok: "ring_ok rb"
  shows "ring_ok (fst (rb_read rb count)) \<and>
         contents rb = snd (rb_read rb count) @ contents (fst (rb_read rb count)) \<and>
         length (snd (rb_read rb count)) = min (unat count) (length (contents rb)) \<and>
         rb_capacity (fst (rb_read rb count)) = rb_capacity rb"
proof -
  let ?rb' = "fst (rb_read rb count)" and ?d = "unat (rb_available rb)"
  define n where "n = min (unat count) ?d"
  from ok obtain k where k: "ring_shape rb k" "?d \<le> 2 ^ k"
    by (auto simp: ring_ok_def unat_capacity)
  have m: "unat (min count (rb_available rb)) = n" by (simp add: n_def min_def word_le_nat_alt)
  have "min count (rb_available rb) = of_nat (unat (min count (rb_available rb)))" by simp
  then have mm: "min count (rb_available rb) = of_nat n" unfolding m .
  have rb': "?rb' = rb\<lparr>rb_readPos := rb_readPos rb + of_nat n\<rparr>"
    and out: "snd (rb_read rb count) = copy_out rb (rb_readPos rb) n"
    using m mm by (simp_all add: rb_read_def Let_def flip: rb_available_def)
  have un: "unat (of_nat n :: u64) = n" using m unfolding mm .
  have "unat (rb_available rb - of_nat n) = ?d - n"
    by (subst unat_sub) (simp_all add: word_le_nat_alt un, simp add: n_def)
  then have avail: "unat (rb_available ?rb') = ?d - n"
    by (simp add: rb' rb_available_def diff_diff_eq)
  have "contents rb ! i = (copy_out rb (rb_readPos rb) n @ contents ?rb') ! i" if "i < ?d" for i
    using that avail
    by (auto simp: contents_def copy_out_def nth_append rb' slot_def add.assoc n_def
        simp flip: of_nat_add)
  then have "contents rb = copy_out rb (rb_readPos rb) n @ contents ?rb'"
    using avail by (intro nth_equalityI) (simp_all add: length_contents n_def)
  moreover have "ring_ok ?rb'"
    using ok avail by (auto simp: ring_ok_def ring_shape_def rb')
  moreover have "length (snd (rb_read rb count)) = min (unat count) (length (contents rb))"
    by (simp add: out length_contents n_def)
  ultimately show ?thesis by (simp add: out rb')
qed

section \<open>The bounded-queue contract\<close>

text \<open>
  What the audio path relies on: a queue of bounded capacity whose \<open>enq\<close> accepts as many
  items as there is space for and whose \<open>deq\<close> returns the oldest ones. \<open>limit\<close> is the longest
  chunk a caller may pass (a \<open>size_t\<close> must be able to count it). The clients' lemma is
  about any sequence of writes and reads.
\<close>

datatype 'a queue_op = Enq "'a list" | Deq nat

primrec run_queue ::
  "('q \<Rightarrow> 'a list \<Rightarrow> 'q \<times> nat) \<Rightarrow> ('q \<Rightarrow> nat \<Rightarrow> 'q \<times> 'a list) \<Rightarrow> 'q \<Rightarrow> 'a queue_op list \<Rightarrow>
     'q \<times> 'a list \<times> 'a list" where
  "run_queue enq deq q [] = (q, [], [])"
| "run_queue enq deq q (oper # ops) =
     (case oper of
        Enq xs \<Rightarrow> (case enq q xs of (q', n) \<Rightarrow>
          case run_queue enq deq q' ops of (q'', ins, outs) \<Rightarrow> (q'', take n xs @ ins, outs))
      | Deq n \<Rightarrow> (case deq q n of (q', ys) \<Rightarrow>
          case run_queue enq deq q' ops of (q'', ins, outs) \<Rightarrow> (q'', ins, ys @ outs)))"

definition op_ok :: "nat \<Rightarrow> 'a queue_op \<Rightarrow> bool" where
  "op_ok limit oper = (case oper of Enq xs \<Rightarrow> length xs < limit | Deq n \<Rightarrow> n < limit)"

locale bounded_queue =
  fixes enq :: "'q \<Rightarrow> 'a list \<Rightarrow> 'q \<times> nat"
    and deq :: "'q \<Rightarrow> nat \<Rightarrow> 'q \<times> 'a list"
    and items :: "'q \<Rightarrow> 'a list"
    and cap :: "'q \<Rightarrow> nat"
    and limit :: nat
    and inv :: "'q \<Rightarrow> bool"
  assumes inv_enq: "inv q \<Longrightarrow> length xs < limit \<Longrightarrow> inv (fst (enq q xs))"
    and inv_deq: "inv q \<Longrightarrow> n < limit \<Longrightarrow> inv (fst (deq q n))"
    and items_enq: "inv q \<Longrightarrow> length xs < limit \<Longrightarrow>
      items (fst (enq q xs)) = items q @ take (snd (enq q xs)) xs"
    and count_enq: "inv q \<Longrightarrow> length xs < limit \<Longrightarrow>
      snd (enq q xs) = min (length xs) (cap q - length (items q))"
    and items_deq: "inv q \<Longrightarrow> n < limit \<Longrightarrow> items q = snd (deq q n) @ items (fst (deq q n))"
    and count_deq: "inv q \<Longrightarrow> n < limit \<Longrightarrow> length (snd (deq q n)) = min n (length (items q))"
    and cap_enq: "inv q \<Longrightarrow> length xs < limit \<Longrightarrow> cap (fst (enq q xs)) = cap q"
    and cap_deq: "inv q \<Longrightarrow> n < limit \<Longrightarrow> cap (fst (deq q n)) = cap q"
    and bounded: "inv q \<Longrightarrow> length (items q) \<le> cap q"
begin

lemma fifo_run:
  "inv q \<Longrightarrow> list_all (op_ok limit) ops \<Longrightarrow>
     (case run_queue enq deq q ops of (q', ins, outs) \<Rightarrow>
        items q @ ins = outs @ items q' \<and> inv q' \<and> cap q' = cap q)"
proof (induction ops arbitrary: q)
  case Nil
  then show ?case by simp
next
  case (Cons oper ops)
  show ?case
  proof (cases oper)
    case (Enq xs)
    with Cons.prems have "length xs < limit" by (simp add: op_ok_def)
    with Cons.prems Cons.IH [of "fst (enq q xs)"] Enq show ?thesis
      by (simp add: split_beta inv_enq items_enq cap_enq)
  next
    case (Deq n)
    with Cons.prems have "n < limit" by (simp add: op_ok_def)
    with Cons.prems Cons.IH [of "fst (deq q n)"] Deq items_deq [of q n] show ?thesis
      by (simp add: split_beta inv_deq cap_deq)
  qed
qed

end

definition rb_enq :: "ring \<Rightarrow> sample list \<Rightarrow> ring \<times> nat" where
  "rb_enq rb xs = (case rb_write rb xs (of_nat (length xs)) of (rb', n) \<Rightarrow> (rb', unat n))"

definition rb_deq :: "ring \<Rightarrow> nat \<Rightarrow> ring \<times> sample list" where
  "rb_deq rb n = rb_read rb (of_nat n)"

definition rb_cap :: "ring \<Rightarrow> nat" where
  "rb_cap rb = unat (rb_capacity rb)"

lemma unat_count: "n < 2 ^ 64 \<Longrightarrow> unat (of_nat n :: u64) = n"
  by (simp add: unat_of_nat)

interpretation audio: bounded_queue rb_enq rb_deq contents rb_cap "2 ^ 64" ring_ok
proof unfold_locales
  fix rb and xs :: "sample list" assume *: "ring_ok rb" "length xs < 2 ^ 64"
  let ?c = "of_nat (length xs) :: u64"
  have len: "unat ?c \<le> length xs" using *(2) by (simp add: unat_count)
  note w = rb_write_effect [OF *(1) len]
  show "ring_ok (fst (rb_enq rb xs))" "contents (fst (rb_enq rb xs)) = contents rb @ take (snd (rb_enq rb xs)) xs"
    "rb_cap (fst (rb_enq rb xs)) = rb_cap rb"
    using w by (simp_all add: rb_enq_def rb_cap_def split_beta)
  show "snd (rb_enq rb xs) = min (length xs) (rb_cap rb - length (contents rb))"
    using toWrite_eq [OF *(1), of xs ?c] *(2) by (simp add: rb_enq_def rb_cap_def split_beta unat_count)
next
  fix rb and n :: nat assume *: "ring_ok rb" "n < 2 ^ 64"
  note r = rb_read_effect [OF *(1), of "of_nat n"]
  show "ring_ok (fst (rb_deq rb n))" "contents rb = snd (rb_deq rb n) @ contents (fst (rb_deq rb n))"
    using r unfolding rb_deq_def by blast+
  show "rb_cap (fst (rb_deq rb n)) = rb_cap rb"
    using r unfolding rb_deq_def rb_cap_def by metis
  show "length (snd (rb_deq rb n)) = min n (length (contents rb))"
    using r *(2) unfolding rb_deq_def by (metis unat_count)
next
  show "length (contents rb) \<le> rb_cap rb" if "ring_ok rb" for rb
    using that by (simp add: ring_ok_def length_contents rb_cap_def)
qed

lemma RingBuffer_new_pos [simp]:
  "rb_writePos (RingBuffer_new n) = 0" "rb_readPos (RingBuffer_new n) = 0"
  by (simp_all add: RingBuffer_new_def Let_def)

lemma RingBuffer_new_shape:
  assumes "0 < unat n" "unat n \<le> 2 ^ 63"
  obtains k where "k < 64" "ring_shape (RingBuffer_new n) k" "rb_cap (RingBuffer_new n) = 2 ^ k"
    "unat n \<le> 2 ^ k" "2 ^ k < 2 * unat n"
proof -
  from assms(1) obtain k where k: "nextPowerOf2 n = 2 ^ k" "k \<le> 64" "unat n \<le> 2 ^ k" "2 ^ k < 2 * unat n"
    by (rule nextPowerOf2_cases)
  have "(2::nat) ^ k < 2 ^ 64" using k(4) assms(2) by simp
  then have "k < 64" by (rule power_less_imp_less_exp [rotated]) simp
  with k show thesis
    by (intro that [of k]) (simp_all add: RingBuffer_new_def ring_shape_def rb_cap_def unat_exp Let_def)
qed

lemma RingBuffer_new_ok:
  assumes "0 < unat n" "unat n \<le> 2 ^ 63"
  shows "ring_ok (RingBuffer_new n) \<and> contents (RingBuffer_new n) = [] \<and>
         unat n \<le> rb_cap (RingBuffer_new n) \<and> rb_cap (RingBuffer_new n) < 2 * unat n"
proof -
  from assms obtain k where "k < 64" "ring_shape (RingBuffer_new n) k"
    "rb_cap (RingBuffer_new n) = 2 ^ k" "unat n \<le> 2 ^ k" "2 ^ k < 2 * unat n"
    by (rule RingBuffer_new_shape)
  then show ?thesis
    by (auto simp: ring_ok_def contents_def copy_out_def rb_available_def)
qed

section \<open>One producer and one consumer thread\<close>

text \<open>
  Every interleaving of one thread in \<open>write\<close> with one in \<open>read\<close>. A thread's own position is only
  stored by that thread, so its load and the load of the other position are one step; each
  access to a buffer element and each store of a position is a step of its own, and memory is
  sequentially consistent; \<open>RingWeak\<close> has the memory orders of the code. \<open>published\<close> and \<open>taken\<close>
  record what has been written and read so far; the code has no such fields.
\<close>

datatype producer = P_idle | P_copy u64 u64 "sample list" nat
datatype consumer = C_idle | C_copy u64 u64 nat "sample list"

record spsc =
  shared :: ring
  prod :: producer
  cons :: consumer
  published :: "sample list"
  taken :: "sample list"

definition spsc_init :: "ring \<Rightarrow> spsc" where
  "spsc_init rb = \<lparr>shared = rb, prod = P_idle, cons = C_idle, published = [], taken = []\<rparr>"

inductive spsc_step :: "spsc \<Rightarrow> spsc \<Rightarrow> bool" where
  write_begin: "prod s = P_idle \<Longrightarrow> unat count \<le> length samples \<Longrightarrow>
    spsc_step s (s\<lparr>prod := P_copy (rb_writePos (shared s))
      (min count (rb_capacity (shared s) - (rb_writePos (shared s) - rb_readPos (shared s)))) samples 0\<rparr>)"
| write_sample: "prod s = P_copy w n xs i \<Longrightarrow> i < unat n \<Longrightarrow>
    spsc_step s (s\<lparr>shared := (shared s)\<lparr>rb_buffer :=
      (rb_buffer (shared s))[slot (shared s) (w + of_nat i) := xs ! i]\<rparr>, prod := P_copy w n xs (Suc i)\<rparr>)"
| write_publish: "prod s = P_copy w n xs i \<Longrightarrow> \<not> i < unat n \<Longrightarrow>
    spsc_step s (s\<lparr>shared := (shared s)\<lparr>rb_writePos := w + n\<rparr>, prod := P_idle,
      published := published s @ take (unat n) xs\<rparr>)"
| read_begin: "cons s = C_idle \<Longrightarrow>
    spsc_step s (s\<lparr>cons := C_copy (rb_readPos (shared s))
      (min count (rb_writePos (shared s) - rb_readPos (shared s))) 0 []\<rparr>)"
| read_sample: "cons s = C_copy r n i out \<Longrightarrow> i < unat n \<Longrightarrow>
    spsc_step s (s\<lparr>cons := C_copy r n (Suc i) (out @ [rb_buffer (shared s) ! slot (shared s) (r + of_nat i)])\<rparr>)"
| read_release: "cons s = C_copy r n i out \<Longrightarrow> \<not> i < unat n \<Longrightarrow>
    spsc_step s (s\<lparr>shared := (shared s)\<lparr>rb_readPos := r + n\<rparr>, cons := C_idle, taken := taken s @ out\<rparr>)"

inductive spsc_reachable :: "ring \<Rightarrow> spsc \<Rightarrow> bool" for rb where
  start: "spsc_reachable rb (spsc_init rb)"
| step: "spsc_reachable rb s \<Longrightarrow> spsc_step s t \<Longrightarrow> spsc_reachable rb t"

text \<open>
  The invariant, with \<open>W\<close> published and \<open>R\<close> taken samples counted without wrap-around: the
  unread window is in the buffer, the producer fills only slots outside it, and the consumer
  has copied the oldest samples of it.
\<close>

fun producer_inv :: "nat \<Rightarrow> sample list \<Rightarrow> nat \<Rightarrow> nat \<Rightarrow> producer \<Rightarrow> bool" where
  "producer_inv k buf W R P_idle = True"
| "producer_inv k buf W R (P_copy w n xs i) =
     (w = of_nat W \<and> unat n \<le> length xs \<and> i \<le> unat n \<and> W + unat n \<le> R + 2 ^ k \<and>
      (\<forall>j < i. buf ! ((W + j) mod 2 ^ k) = xs ! j))"

fun consumer_inv :: "sample list \<Rightarrow> nat \<Rightarrow> consumer \<Rightarrow> bool" where
  "consumer_inv pub R C_idle = True"
| "consumer_inv pub R (C_copy r n i out) =
     (r = of_nat R \<and> i \<le> unat n \<and> R + unat n \<le> length pub \<and> out = take i (drop R pub))"

definition window_inv :: "nat \<Rightarrow> ring \<Rightarrow> sample list \<Rightarrow> nat \<Rightarrow> bool" where
  "window_inv k rb pub R \<longleftrightarrow> ring_shape rb k \<and>
     rb_writePos rb = of_nat (length pub) \<and> rb_readPos rb = of_nat R \<and>
     R \<le> length pub \<and> length pub \<le> R + 2 ^ k \<and>
     (\<forall>j. R \<le> j \<and> j < length pub \<longrightarrow> rb_buffer rb ! (j mod 2 ^ k) = pub ! j)"

definition spsc_inv :: "nat \<Rightarrow> spsc \<Rightarrow> bool" where
  "spsc_inv k s \<longleftrightarrow>
     window_inv k (shared s) (published s) (length (taken s)) \<and>
     taken s = take (length (taken s)) (published s) \<and>
     producer_inv k (rb_buffer (shared s)) (length (published s)) (length (taken s)) (prod s) \<and>
     consumer_inv (published s) (length (taken s)) (cons s)"

lemma producer_inv_mono: "producer_inv k buf W R p \<Longrightarrow> R \<le> R' \<Longrightarrow> producer_inv k buf W R' p"
  by (cases p) auto

lemma consumer_inv_mono: "consumer_inv pub R c \<Longrightarrow> consumer_inv (pub @ xs) R c"
  by (cases c) auto

lemma slot_of_nat: "ring_shape rb k \<Longrightarrow> slot rb (of_nat m) = m mod 2 ^ k"
  using slot_mod [of rb k 0 m] by simp

lemma unat_diff_of_nat:
  assumes "R \<le> W" "W \<le> R + 2 ^ k" "k < 64"
  shows "unat (of_nat W - of_nat R :: u64) = W - R"
proof -
  have "(2::nat) ^ k < 2 ^ 64" using assms(3) by (intro power_strict_increasing) simp_all
  then have "W - R < 2 ^ 64" using assms by linarith
  moreover have "of_nat W - of_nat R = (of_nat (W - R) :: u64)" using assms(1) by simp
  ultimately show ?thesis by (metis unat_count)
qed

lemma mod_window_distinct:
  "(a :: nat) < b \<Longrightarrow> b < a + 2 ^ k \<Longrightarrow> b mod 2 ^ k \<noteq> a mod 2 ^ k"
proof
  assume *: "a < b" "b < a + 2 ^ k" "b mod 2 ^ k = a mod 2 ^ k"
  then have "b - a < 2 ^ k" "(a + (b - a)) mod 2 ^ k = (a + 0) mod 2 ^ k" by auto
  then have "b - a = 0" by (intro mod_window_inj [of a "b - a" "2 ^ k" 0]) auto
  with * show False by simp
qed

lemma window_available:
  "window_inv k rb pub R \<Longrightarrow> unat (rb_writePos rb - rb_readPos rb) = length pub - R"
  using unat_diff_of_nat [of R "length pub" k] by (auto simp: window_inv_def ring_shape_def)

lemma window_space:
  "window_inv k rb pub R \<Longrightarrow>
     unat (rb_capacity rb - (rb_writePos rb - rb_readPos rb)) = 2 ^ k - (length pub - R)"
  using window_available [of k rb pub R] unat_capacity [of rb k]
  by (subst unat_sub) (auto simp: word_le_nat_alt window_inv_def)

lemma unat_min_le: "unat (min a b :: u64) \<le> unat a" "unat (min a b) \<le> unat b"
  by (auto simp: min_def word_le_nat_alt)

lemma write_begin_inv:
  assumes inv: "spsc_inv k s" and len: "unat count \<le> length xs"
  shows "spsc_inv k (s\<lparr>prod := P_copy (rb_writePos (shared s))
    (min count (rb_capacity (shared s) - (rb_writePos (shared s) - rb_readPos (shared s)))) xs 0\<rparr>)"
proof -
  let ?a = "rb_capacity (shared s) - (rb_writePos (shared s) - rb_readPos (shared s))"
  have w: "window_inv k (shared s) (published s) (length (taken s))" using inv by (simp add: spsc_inv_def)
  then have "unat (min count ?a) \<le> 2 ^ k - (length (published s) - length (taken s))"
    using unat_min_le(2) [of count ?a] by (simp only: window_space)
  moreover have "unat (min count ?a) \<le> length xs" using unat_min_le(1) [of count ?a] len by linarith
  ultimately show ?thesis using inv by (auto simp: spsc_inv_def window_inv_def)
qed

lemma write_sample_inv:
  assumes inv: "spsc_inv k s" and p: "prod s = P_copy w n xs i" "i < unat n"
  shows "spsc_inv k (s\<lparr>shared := (shared s)\<lparr>rb_buffer :=
    (rb_buffer (shared s))[slot (shared s) (w + of_nat i) := xs ! i]\<rparr>, prod := P_copy w n xs (Suc i)\<rparr>)"
proof -
  let ?W = "length (published s)" and ?R = "length (taken s)"
  from inv p have w: "ring_shape (shared s) k" "w = of_nat ?W" "?W + unat n \<le> ?R + 2 ^ k" "?R \<le> ?W"
    by (auto simp: spsc_inv_def window_inv_def)
  have slot: "slot (shared s) (w + of_nat i) = (?W + i) mod 2 ^ k"
    using slot_of_nat [OF w(1), of "?W + i"] by (simp add: w(2))
  have lt: "(?W + i) mod 2 ^ k < length (rb_buffer (shared s))"
    using w(1) by (simp add: ring_shape_def)
  have old: "(?W + i) mod 2 ^ k \<noteq> j mod 2 ^ k" if "?R \<le> j" "j < ?W + i" for j
    using mod_window_distinct [of j "?W + i" k] that w p(2) by simp
  have "producer_inv k ((rb_buffer (shared s))[(?W + i) mod 2 ^ k := xs ! i]) ?W ?R (P_copy w n xs (Suc i))"
    using inv p lt old w(4) by (auto simp: spsc_inv_def less_Suc_eq)
  moreover have "window_inv k ((shared s)\<lparr>rb_buffer := (rb_buffer (shared s))[(?W + i) mod 2 ^ k := xs ! i]\<rparr>)
      (published s) ?R"
    using inv old by (auto simp: spsc_inv_def window_inv_def ring_shape_def)
  ultimately show ?thesis using inv unfolding slot spsc_inv_def by simp
qed

lemma write_publish_inv:
  assumes inv: "spsc_inv k s" and p: "prod s = P_copy w n xs i" "\<not> i < unat n"
  shows "spsc_inv k (s\<lparr>shared := (shared s)\<lparr>rb_writePos := w + n\<rparr>, prod := P_idle,
    published := published s @ take (unat n) xs\<rparr>)"
proof -
  let ?W = "length (published s)"
  from inv p have w: "w = of_nat ?W" "unat n \<le> length xs" "?W + unat n \<le> length (taken s) + 2 ^ k"
    "\<forall>j < unat n. rb_buffer (shared s) ! ((?W + j) mod 2 ^ k) = xs ! j"
    by (auto simp: spsc_inv_def)
  have "rb_buffer (shared s) ! (j mod 2 ^ k) = xs ! (j - ?W)"
    if "?W \<le> j" "j < ?W + unat n" for j
    using w(4) [rule_format, of "j - ?W"] that by simp
  then have "window_inv k ((shared s)\<lparr>rb_writePos := w + n\<rparr>) (published s @ take (unat n) xs) (length (taken s))"
    using inv w by (auto simp: spsc_inv_def window_inv_def ring_shape_def nth_append)
  moreover have "length (taken s) \<le> ?W" using inv by (simp add: spsc_inv_def window_inv_def)
  ultimately show ?thesis using inv consumer_inv_mono by (simp add: spsc_inv_def)
qed

lemma read_begin_inv:
  assumes inv: "spsc_inv k s"
  shows "spsc_inv k (s\<lparr>cons := C_copy (rb_readPos (shared s))
    (min count (rb_writePos (shared s) - rb_readPos (shared s))) 0 []\<rparr>)"
proof -
  let ?a = "rb_writePos (shared s) - rb_readPos (shared s)"
  have w: "window_inv k (shared s) (published s) (length (taken s))" using inv by (simp add: spsc_inv_def)
  then have "unat (min count ?a) \<le> length (published s) - length (taken s)"
    using unat_min_le(2) [of count ?a] by (simp only: window_available)
  then show ?thesis using inv by (auto simp: spsc_inv_def window_inv_def)
qed

lemma read_sample_inv:
  assumes inv: "spsc_inv k s" and c: "cons s = C_copy r n i out" "i < unat n"
  shows "spsc_inv k (s\<lparr>cons := C_copy r n (Suc i)
    (out @ [rb_buffer (shared s) ! slot (shared s) (r + of_nat i)])\<rparr>)"
proof -
  let ?R = "length (taken s)"
  from inv c have w: "ring_shape (shared s) k" "r = of_nat ?R" "?R + i < length (published s)"
    "out = take i (drop ?R (published s))"
    by (auto simp: spsc_inv_def window_inv_def)
  have "rb_buffer (shared s) ! slot (shared s) (r + of_nat i) = published s ! (?R + i)"
    using slot_of_nat [OF w(1), of "?R + i"] inv w(2,3) by (simp add: spsc_inv_def window_inv_def)
  then have "out @ [rb_buffer (shared s) ! slot (shared s) (r + of_nat i)] =
      take (Suc i) (drop ?R (published s))"
    using w(3,4) by (simp add: take_Suc_conv_app_nth)
  with inv c show ?thesis by (simp add: spsc_inv_def)
qed

lemma read_release_inv:
  assumes inv: "spsc_inv k s" and c: "cons s = C_copy r n i out" "\<not> i < unat n"
  shows "spsc_inv k (s\<lparr>shared := (shared s)\<lparr>rb_readPos := r + n\<rparr>, cons := C_idle, taken := taken s @ out\<rparr>)"
proof -
  let ?R = "length (taken s)"
  from inv c have w: "r = of_nat ?R" "?R + unat n \<le> length (published s)"
    "out = take (unat n) (drop ?R (published s))"
    by (auto simp: spsc_inv_def)
  then have len: "length out = unat n" by simp
  have t: "taken s = take ?R (published s)" using inv by (simp add: spsc_inv_def)
  have "taken s @ out = take (?R + unat n) (published s)"
    unfolding w(3) take_add by (subst t) (rule refl)
  moreover have "window_inv k ((shared s)\<lparr>rb_readPos := r + n\<rparr>) (published s) (?R + unat n)"
    using inv w by (auto simp: spsc_inv_def window_inv_def ring_shape_def)
  ultimately show ?thesis
    using inv len producer_inv_mono [of k _ _ ?R _ "?R + unat n"]
    by (simp add: spsc_inv_def min.absorb2 [OF w(2)])
qed

lemma spsc_step_inv: "spsc_step s t \<Longrightarrow> spsc_inv k s \<Longrightarrow> spsc_inv k t"
  by (induction rule: spsc_step.induct)
    (simp_all only: write_begin_inv write_sample_inv write_publish_inv read_begin_inv
      read_sample_inv read_release_inv simp_thms)

lemma spsc_init_inv: "ring_shape rb k \<Longrightarrow> rb_writePos rb = 0 \<Longrightarrow> rb_readPos rb = 0 \<Longrightarrow> spsc_inv k (spsc_init rb)"
  by (simp add: spsc_inv_def window_inv_def spsc_init_def)

lemma spsc_reachable_inv:
  "spsc_reachable rb s \<Longrightarrow> ring_shape rb k \<Longrightarrow> rb_writePos rb = 0 \<Longrightarrow> rb_readPos rb = 0 \<Longrightarrow> spsc_inv k s"
  by (induction rule: spsc_reachable.induct) (auto intro: spsc_init_inv spsc_step_inv)

section \<open>Properties of the queue\<close>

text \<open>
  Order and completeness over any interleaving: starting from a new buffer, what the
  consumer has taken is always a prefix of what the producer has published, the unread rest
  never exceeds the capacity, and a read in progress holds exactly the next samples.
\<close>

theorem spsc_fifo:
  assumes "0 < unat n" and "unat n \<le> 2 ^ 63" and "spsc_reachable (RingBuffer_new n) s"
  shows "prefix (taken s) (published s) \<and>
         length (published s) - length (taken s) \<le> rb_cap (RingBuffer_new n) \<and>
         (case cons s of C_idle \<Rightarrow> True
          | C_copy r m i out \<Rightarrow> prefix (taken s @ out) (published s))"
proof -
  from assms(1,2) obtain k where k: "ring_shape (RingBuffer_new n) k"
    "rb_cap (RingBuffer_new n) = 2 ^ k" by (rule RingBuffer_new_shape)
  have inv: "spsc_inv k s" using spsc_reachable_inv [OF assms(3) k(1)] by simp
  then have t: "taken s = take (length (taken s)) (published s)" by (simp add: spsc_inv_def)
  then have "taken s @ take i (drop (length (taken s)) (published s)) =
      take (length (taken s) + i) (published s)" for i
    unfolding take_add by (subst t) (rule refl)
  with inv t show ?thesis
    by (auto simp: spsc_inv_def window_inv_def k(2) take_is_prefix split: consumer.splits)
      (metis take_is_prefix)+
qed

text \<open>
  No data race on the samples: whenever the producer is about to store a sample and the
  consumer to load one, the two slots differ.
\<close>

theorem spsc_race_free:
  assumes "0 < unat n" and "unat n \<le> 2 ^ 63" and "spsc_reachable (RingBuffer_new n) s"
    and "prod s = P_copy w m xs i" and "i < unat m" and "cons s = C_copy r l j out" and "j < unat l"
  shows "slot (shared s) (w + of_nat i) \<noteq> slot (shared s) (r + of_nat j)"
proof -
  from assms(1,2) obtain k where k: "ring_shape (RingBuffer_new n) k" by (rule RingBuffer_new_shape)
  have "spsc_inv k s" using spsc_reachable_inv [OF assms(3) k] by simp
  with assms(4-7) have *: "ring_shape (shared s) k" "w = of_nat (length (published s))"
    "r = of_nat (length (taken s))" "length (taken s) + j < length (published s) + i"
    "length (published s) + i < length (taken s) + j + 2 ^ k"
    by (auto simp: spsc_inv_def window_inv_def)
  then show ?thesis
    using mod_window_distinct [OF *(4,5)] slot_of_nat [OF *(1), of "length (published s) + i"]
      slot_of_nat [OF *(1), of "length (taken s) + j"] by simp
qed

lemma run_queue_fst_audio:
  "ring_ok rb \<Longrightarrow> list_all (op_ok (2 ^ 64)) ops \<Longrightarrow> ring_ok (fst (run_queue rb_enq rb_deq rb ops))"
  using audio.fifo_run [of rb ops] by (simp add: split_beta)

text \<open>
  A run of the two threads on a buffer of two samples, for the witnesses: one sample is
  published, then both threads are in the middle of a copy.
\<close>

definition ring2 :: "sample list \<Rightarrow> u64 \<Rightarrow> ring" where
  "ring2 buf w = \<lparr>rb_buffer = buf, rb_capacity = 2, rb_mask = 1, rb_writePos = w, rb_readPos = 0\<rparr>"

lemma ring2_new: "RingBuffer_new 2 = ring2 [0, 0] 0"
  by code_simp

lemma spsc_run:
  "spsc_reachable (RingBuffer_new 2)
     \<lparr>shared = ring2 [7, 0] 1, prod = P_copy 1 1 [8] 0, cons = C_copy 0 1 0 [], published = [7], taken = []\<rparr>"
    (is "spsc_reachable ?rb ?end")
proof -
  have "spsc_reachable ?rb \<lparr>shared = ring2 [0, 0] 0, prod = P_idle, cons = C_idle, published = [], taken = []\<rparr>"
    using spsc_reachable.start [of ?rb] by (simp add: spsc_init_def ring2_new)
  from spsc_reachable.step [OF this spsc_step.write_begin [where count = 1 and samples = "[7]"]]
  have "spsc_reachable ?rb \<lparr>shared = ring2 [0, 0] 0, prod = P_copy 0 1 [7] 0, cons = C_idle, published = [], taken = []\<rparr>"
    by (simp add: ring2_def)
  from spsc_reachable.step [OF this spsc_step.write_sample [where w = 0 and n = 1 and xs = "[7]" and i = 0]]
  have "spsc_reachable ?rb \<lparr>shared = ring2 [7, 0] 0, prod = P_copy 0 1 [7] 1, cons = C_idle, published = [], taken = []\<rparr>"
    by (simp add: ring2_def slot_def)
  from spsc_reachable.step [OF this spsc_step.write_publish [where w = 0 and n = 1 and xs = "[7]" and i = 1]]
  have "spsc_reachable ?rb \<lparr>shared = ring2 [7, 0] 1, prod = P_idle, cons = C_idle, published = [7], taken = []\<rparr>"
    by (simp add: ring2_def)
  from spsc_reachable.step [OF this spsc_step.read_begin [where count = 1]]
  have "spsc_reachable ?rb \<lparr>shared = ring2 [7, 0] 1, prod = P_idle, cons = C_copy 0 1 0 [], published = [7], taken = []\<rparr>"
    by (simp add: ring2_def)
  from spsc_reachable.step [OF this spsc_step.write_begin [where count = 1 and samples = "[8]"]]
  show ?thesis by (simp add: ring2_def)
qed

theorem spsc_fifo_witness:
  "prefix ([] :: sample list) [7] \<and> 0 < unat (2 :: u64)"
  using spsc_fifo [OF _ _ spsc_run] by simp

theorem spsc_race_free_witness:
  "slot (ring2 [7, 0] 1) (1 + of_nat 0) \<noteq> slot (ring2 [7, 0] 1) (0 + of_nat 0)"
  using spsc_race_free [OF _ _ spsc_run, of 1 1 "[8]" 0 0 1 0 "[]"] by simp

text \<open>
  C7. Any sequence of writes and reads by one thread is first in, first out and loses nothing
  that was accepted: the samples unread before, followed by those the writes accepted, are those
  the reads returned, followed by those unread after. The positions may start anywhere, so this
  includes their wrap-around.
\<close>

theorem ring_sequences_fifo:
  assumes "ring_ok rb" and "list_all (op_ok (2 ^ 64)) ops"
  shows "case run_queue rb_enq rb_deq rb ops of (rb', accepted, returned) \<Rightarrow>
           contents rb @ accepted = returned @ contents rb' \<and>
           unat (rb_available rb') \<le> rb_cap rb \<and> rb_cap rb' = rb_cap rb"
  using audio.fifo_run [OF assms] run_queue_fst_audio [OF assms]
  by (auto simp: split_beta rb_cap_def ring_ok_def)

definition wrapped :: ring where
  "wrapped = \<lparr>rb_buffer = [1, 2], rb_capacity = 2, rb_mask = 1, rb_writePos = 0, rb_readPos = 0xFFFFFFFFFFFFFFFF\<rparr>"

lemma wrapped_ok: "ring_ok wrapped"
  by (auto simp: ring_ok_def wrapped_def ring_shape_def rb_available_def intro: exI [of _ 1])

theorem ring_sequences_fifo_witness:
  "fst (snd (run_queue rb_enq rb_deq wrapped [Enq [5, 6], Deq 3])) = [5] \<and>
   snd (snd (run_queue rb_enq rb_deq wrapped [Enq [5, 6], Deq 3])) = [2, 5] \<and>
   unat (rb_available (fst (run_queue rb_enq rb_deq wrapped [Enq [5, 6], Deq 3]))) \<le> rb_cap wrapped"
proof -
  have "list_all (op_ok (2 ^ 64)) [Enq [5, 6 :: sample], Deq 3]" by (simp add: op_ok_def)
  from ring_sequences_fifo [OF wrapped_ok this]
  have "unat (rb_available (fst (run_queue rb_enq rb_deq wrapped [Enq [5, 6], Deq 3]))) \<le> rb_cap wrapped"
    by (simp add: split_beta del: run_queue.simps)
  moreover have "snd (run_queue rb_enq rb_deq wrapped [Enq [5, 6], Deq 3]) = ([5], [2, 5])"
    by code_simp
  ultimately show ?thesis by simp
qed

text \<open>
  \<open>write\<close> accepts exactly as many samples as were offered or as there is \<open>space\<close> for, and
  \<open>read\<close> returns exactly as many as were asked for or are \<open>available\<close>.
\<close>

theorem ring_counts:
  assumes "ring_ok rb"
  shows "unat (snd (rb_write rb xs count)) = min (unat count) (unat (rb_space rb)) \<and>
         length (snd (rb_read rb count)) = min (unat count) (unat (rb_available rb)) \<and>
         unat (rb_space rb) + unat (rb_available rb) = rb_cap rb"
proof -
  have le: "unat (rb_available rb) \<le> unat (rb_capacity rb)" using assms by (simp add: ring_ok_def)
  then have space: "unat (rb_space rb) = unat (rb_capacity rb) - unat (rb_available rb)"
    unfolding rb_space_def by (intro unat_sub) (simp add: word_le_nat_alt)
  have "length (snd (rb_read rb count)) = min (unat count) (unat (rb_available rb))"
    using rb_read_effect [OF assms, of count] by (simp only: length_contents)
  moreover have "unat (snd (rb_write rb xs count)) = min (unat count) (unat (rb_space rb))"
    using toWrite_eq [OF assms, of xs count] by (simp only: length_contents space)
  ultimately show ?thesis using le by (simp add: space rb_cap_def)
qed

theorem ring_counts_witness:
  "unat (snd (rb_write wrapped [5, 6] 2)) = 1 \<and> length (snd (rb_read wrapped 9)) = 1"
proof -
  have "unat (rb_space wrapped) = 1" "unat (rb_available wrapped) = 1" by code_simp+
  with ring_counts [OF wrapped_ok, of "[5, 6]" 2] ring_counts [OF wrapped_ok, of "[]" 9]
  show ?thesis by simp
qed

text \<open>
  A new buffer is empty and its capacity is the smallest power of two that holds the
  requested number of samples, for every request from 1 to \<open>2 ^ 63\<close>; after \<open>reset\<close> it is empty again.
\<close>

theorem new_ring_capacity:
  assumes "0 < unat n" and "unat n \<le> 2 ^ 63"
  shows "ring_ok (RingBuffer_new n) \<and> contents (RingBuffer_new n) = [] \<and>
         (\<exists>k. rb_cap (RingBuffer_new n) = 2 ^ k \<and> unat n \<le> 2 ^ k \<and> (\<forall>j. unat n \<le> 2 ^ j \<longrightarrow> k \<le> j))"
proof -
  from assms obtain k where k: "rb_cap (RingBuffer_new n) = 2 ^ k" "unat n \<le> 2 ^ k" "2 ^ k < 2 * unat n"
    by (rule RingBuffer_new_shape)
  have "k \<le> j" if "unat n \<le> 2 ^ j" for j
  proof -
    have "(2::nat) ^ k < 2 ^ Suc j" using k(3) that by simp
    then have "k < Suc j" by (rule power_less_imp_less_exp [rotated]) simp
    then show ?thesis by simp
  qed
  with k RingBuffer_new_ok [OF assms] show ?thesis by blast
qed

theorem new_ring_capacity_witness:
  "\<exists>k. rb_cap (RingBuffer_new 48000) = 2 ^ k \<and> 48000 \<le> (2::nat) ^ k"
  using new_ring_capacity [of 48000] by auto

text \<open>
  Whatever has been done to the buffer, \<open>reset\<close> makes it empty, and a request of 0 samples, or
  of more than \<open>2 ^ 63\<close>, gives a buffer that never accepts a sample.
\<close>

theorem ring_reset_and_degenerate:
  assumes "ring_ok rb" and "unat n = 0 \<or> 2 ^ 63 < unat n"
  shows "contents (rb_reset rb) = [] \<and> ring_ok (rb_reset rb) \<and>
         rb_cap (RingBuffer_new n) = 0 \<and> rb_write (RingBuffer_new n) xs count = (RingBuffer_new n, 0)"
proof -
  have "nextPowerOf2 n = 0"
  proof (cases "unat n = 0")
    case True
    then have "n = 0" by (simp add: unat_eq_zero)
    then show ?thesis by (simp add: nextPowerOf2_def)
  next
    case False
    then obtain k where k: "nextPowerOf2 n = 2 ^ k" "k \<le> 64" "unat n \<le> 2 ^ k"
      using nextPowerOf2_cases [of n] by auto
    have "(2::nat) ^ 63 < 2 ^ k" using assms(2) False k(3) by linarith
    then have "63 < k" by (rule power_less_imp_less_exp [rotated]) simp
    with k(2) have "k = 64" by simp
    with k(1) show ?thesis by simp
  qed
  then have "RingBuffer_new n = \<lparr>rb_buffer = [], rb_capacity = 0, rb_mask = - 1, rb_writePos = 0, rb_readPos = 0\<rparr>"
    by (simp add: RingBuffer_new_def)
  moreover have "ring_ok (rb_reset rb)" "contents (rb_reset rb) = []"
    using assms(1) by (auto simp: ring_ok_def rb_reset_def ring_shape_def rb_available_def contents_def copy_out_def)
  ultimately show ?thesis by (simp add: rb_cap_def rb_write_def copy_in_def)
qed

theorem ring_reset_and_degenerate_witness:
  "contents (rb_reset wrapped) = [] \<and> rb_write (RingBuffer_new 0) [1, 2, 3] 3 = (RingBuffer_new 0, 0)"
  using ring_reset_and_degenerate [OF wrapped_ok, of 0 "[1, 2, 3]" 3] by simp

end
