(* ===== verification/RingWeak.thy ===== *)
theory RingWeak
  imports RingBuffer
begin

text \<open>
  The memory orders of \<open>core/src/audio/ring_buffer.cpp\<close>. The positions are \<open>std::atomic\<close>, loaded with
  \<open>acquire\<close> or \<open>relaxed\<close> and stored with \<open>release\<close>; the samples are ordinary memory. The machine below has
  the C++ memory model for this class: a load of a position may return any value stored that is not older
  than what the thread has already seen, an \<open>acquire\<close> load of a \<open>release\<close> store makes what happened
  before the store happen before what follows the load, and an access of a sample that is not ordered
  with a conflicting access of the other thread is a data race, which leaves the program
  undefined.
\<close>

section \<open>Views, loads and stores\<close>

text \<open>
  What a thread knows to have happened: how many samples the producer has stored and the consumer
  has loaded, and the newest store of each position it has seen. A store of a position is a message
  with its value and what is known to a thread that acquires it.
\<close>

record view =
  vw_stores :: nat
  vw_loads :: nat
  vw_writePos :: nat
  vw_readPos :: nat

definition no_view :: view where
  "no_view = \<lparr>vw_stores = 0, vw_loads = 0, vw_writePos = 0, vw_readPos = 0\<rparr>"

definition join_view :: "view \<Rightarrow> view \<Rightarrow> view" where
  "join_view a b = \<lparr>vw_stores = max (vw_stores a) (vw_stores b), vw_loads = max (vw_loads a) (vw_loads b),
     vw_writePos = max (vw_writePos a) (vw_writePos b), vw_readPos = max (vw_readPos a) (vw_readPos b)\<rparr>"

record message =
  msg_value :: u64
  msg_view :: view

datatype position = Write_pos | Read_pos

fun seen :: "position \<Rightarrow> view \<Rightarrow> nat" where
  "seen Write_pos v = vw_writePos v"
| "seen Read_pos v = vw_readPos v"

fun see :: "position \<Rightarrow> nat \<Rightarrow> view \<Rightarrow> view" where
  "see Write_pos i v = v\<lparr>vw_writePos := max i (vw_writePos v)\<rparr>"
| "see Read_pos i v = v\<lparr>vw_readPos := max i (vw_readPos v)\<rparr>"

text \<open>
  \<open>load(acquire)\<close> or, without the flag, \<open>load(relaxed)\<close>, of the message \<open>i\<close> of all stores \<open>h\<close>; and
  \<open>store(release)\<close> or \<open>store(relaxed)\<close>.
\<close>

definition load :: "bool \<Rightarrow> position \<Rightarrow> nat \<Rightarrow> message list \<Rightarrow> view \<Rightarrow> (u64 \<times> view) option" where
  "load acquire p i h v =
     (if seen p v \<le> i \<and> i < length h then
        Some (msg_value (h ! i), if acquire then join_view (msg_view (h ! i)) (see p i v) else see p i v)
      else None)"

definition store :: "bool \<Rightarrow> position \<Rightarrow> u64 \<Rightarrow> message list \<Rightarrow> view \<Rightarrow> message list \<times> view" where
  "store release p x h v =
     (let v' = see p (length h) v
      in (h @ [\<lparr>msg_value = x, msg_view = if release then v' else see p (length h) no_view\<rparr>], v'))"

text \<open>The memory orders of the four accesses that the code does not leave relaxed, and those it has.\<close>

record orders =
  write_acquires :: bool
  write_releases :: bool
  read_acquires :: bool
  read_releases :: bool

definition code_orders :: orders where
  "code_orders = \<lparr>write_acquires = True, write_releases = True, read_acquires = True, read_releases = True\<rparr>"

section \<open>The two threads\<close>

text \<open>
  Where a thread is in \<open>write\<close>: before it, after the load of \<open>m_writePos\<close>, or before sample \<open>i\<close> of the
  \<open>toWrite\<close> it copies; and likewise in \<open>read\<close>.
\<close>

datatype writer = W_idle | W_loaded u64 u64 "sample list" | W_copy u64 u64 "sample list" nat
datatype reader = R_idle | R_loaded u64 u64 | R_copy u64 u64 nat "sample list"

text \<open>
  The buffer, its capacity and its mask are in \<open>wm_ring\<close>, the positions in the lists of their stores.
  \<open>wm_stored\<close> has for every slot the number of the last store, counted from 1 over all samples the
  producer has stored, \<open>wm_loaded\<close> the number of the last load; \<open>wm_raced\<close> tells that there was a data
  race. \<open>wm_published\<close> and \<open>wm_taken\<close> record what has been written and read.
\<close>

record weak =
  wm_ring :: ring
  wm_writePos :: "message list"
  wm_readPos :: "message list"
  wm_stored :: "nat list"
  wm_loaded :: "nat list"
  wm_writer :: writer
  wm_wview :: view
  wm_reader :: reader
  wm_rview :: view
  wm_raced :: bool
  wm_published :: "sample list"
  wm_taken :: "sample list"

definition weak_init :: "ring \<Rightarrow> weak" where
  "weak_init rb = \<lparr>wm_ring = rb, wm_writePos = [\<lparr>msg_value = 0, msg_view = no_view\<rparr>],
     wm_readPos = [\<lparr>msg_value = 0, msg_view = no_view\<rparr>], wm_stored = replicate (length (rb_buffer rb)) 0,
     wm_loaded = replicate (length (rb_buffer rb)) 0, wm_writer = W_idle, wm_wview = no_view, wm_reader = R_idle,
     wm_rview = no_view, wm_raced = False, wm_published = [], wm_taken = []\<rparr>"

text \<open>
  \<open>m_buffer[x] = y\<close> of the producer races with a load it does not know of, a load of the consumer
  with a store it does not know of.
\<close>

definition store_sample :: "nat \<Rightarrow> sample \<Rightarrow> weak \<Rightarrow> weak" where
  "store_sample x y s = s\<lparr>wm_ring := (wm_ring s)\<lparr>rb_buffer := (rb_buffer (wm_ring s))[x := y]\<rparr>,
     wm_stored := (wm_stored s)[x := Suc (vw_stores (wm_wview s))],
     wm_wview := (wm_wview s)\<lparr>vw_stores := Suc (vw_stores (wm_wview s))\<rparr>,
     wm_raced := wm_raced s \<or> \<not> wm_loaded s ! x \<le> vw_loads (wm_wview s)\<rparr>"

definition load_sample :: "nat \<Rightarrow> weak \<Rightarrow> weak" where
  "load_sample x s = s\<lparr>wm_loaded := (wm_loaded s)[x := Suc (vw_loads (wm_rview s))],
     wm_rview := (wm_rview s)\<lparr>vw_loads := Suc (vw_loads (wm_rview s))\<rparr>,
     wm_raced := wm_raced s \<or> \<not> wm_stored s ! x \<le> vw_stores (wm_rview s)\<rparr>"

text \<open>
  One step of \<open>write(samples, count)\<close> or \<open>read(samples, count)\<close>. A thread outside begins a call with the
  arguments given; \<open>i\<close> is the message a load returns. \<open>None\<close>: it cannot return that one, or \<open>samples\<close> has
  no \<open>count\<close> elements.
\<close>

definition writer_step :: "orders \<Rightarrow> u64 \<Rightarrow> sample list \<Rightarrow> nat \<Rightarrow> weak \<Rightarrow> weak option" where
  "writer_step ord count samples i s =
     (case wm_writer s of
        W_idle \<Rightarrow>
          if unat count \<le> length samples then
            map_option (\<lambda>(w, v). s\<lparr>wm_writer := W_loaded w count samples, wm_wview := v\<rparr>)
              (load False Write_pos i (wm_writePos s) (wm_wview s))
          else None
      | W_loaded w cnt xs \<Rightarrow>
          map_option (\<lambda>(r, v). s\<lparr>wm_writer := W_copy w (min cnt (rb_capacity (wm_ring s) - (w - r))) xs 0, wm_wview := v\<rparr>)
            (load (write_acquires ord) Read_pos i (wm_readPos s) (wm_wview s))
      | W_copy w n xs j \<Rightarrow>
          if j < unat n then
            Some ((store_sample (slot (wm_ring s) (w + of_nat j)) (xs ! j) s)\<lparr>wm_writer := W_copy w n xs (Suc j)\<rparr>)
          else
            Some (case store (write_releases ord) Write_pos (w + n) (wm_writePos s) (wm_wview s) of (h, v) \<Rightarrow>
              s\<lparr>wm_writePos := h, wm_wview := v, wm_writer := W_idle, wm_published := wm_published s @ take (unat n) xs\<rparr>))"

definition reader_step :: "orders \<Rightarrow> u64 \<Rightarrow> nat \<Rightarrow> weak \<Rightarrow> weak option" where
  "reader_step ord count i s =
     (case wm_reader s of
        R_idle \<Rightarrow>
          map_option (\<lambda>(r, v). s\<lparr>wm_reader := R_loaded r count, wm_rview := v\<rparr>)
            (load False Read_pos i (wm_readPos s) (wm_rview s))
      | R_loaded r cnt \<Rightarrow>
          map_option (\<lambda>(w, v). s\<lparr>wm_reader := R_copy r (min cnt (w - r)) 0 [], wm_rview := v\<rparr>)
            (load (read_acquires ord) Write_pos i (wm_writePos s) (wm_rview s))
      | R_copy r n j out \<Rightarrow>
          if j < unat n then
            (let x = slot (wm_ring s) (r + of_nat j)
             in Some ((load_sample x s)\<lparr>wm_reader := R_copy r n (Suc j) (out @ [rb_buffer (wm_ring s) ! x])\<rparr>))
          else
            Some (case store (read_releases ord) Read_pos (r + n) (wm_readPos s) (wm_rview s) of (h, v) \<Rightarrow>
              s\<lparr>wm_readPos := h, wm_rview := v, wm_reader := R_idle, wm_taken := wm_taken s @ out\<rparr>))"

datatype weak_choice = Writer u64 "sample list" nat | Reader u64 nat

fun weak_step :: "orders \<Rightarrow> weak_choice \<Rightarrow> weak \<Rightarrow> weak option" where
  "weak_step ord (Writer count samples i) s = writer_step ord count samples i s"
| "weak_step ord (Reader count i) s = reader_step ord count i s"

primrec weak_run :: "orders \<Rightarrow> weak_choice list \<Rightarrow> weak \<Rightarrow> weak option" where
  "weak_run ord [] s = Some s"
| "weak_run ord (c # cs) s = Option.bind (weak_step ord c s) (weak_run ord cs)"

section \<open>The memory orders are enough\<close>

text \<open>
  The stores of a position by the one thread that stores it: message \<open>i\<close> has seen itself last, its
  value is the number of samples its thread had dealt with, and the newest value is \<open>newest\<close>.
\<close>

definition history :: "(view \<Rightarrow> nat) \<Rightarrow> position \<Rightarrow> nat \<Rightarrow> message list \<Rightarrow> bool" where
  "history cnt p newest h \<longleftrightarrow> h \<noteq> [] \<and> cnt (msg_view (last h)) = newest \<and>
     (\<forall>i < length h. msg_value (h ! i) = of_nat (cnt (msg_view (h ! i))) \<and> seen p (msg_view (h ! i)) = i) \<and>
     (\<forall>i j. i \<le> j \<and> j < length h \<longrightarrow> cnt (msg_view (h ! i)) \<le> cnt (msg_view (h ! j)))"

text \<open>A view knows at most what happened.\<close>

definition view_ok :: "nat \<Rightarrow> nat \<Rightarrow> nat \<Rightarrow> nat \<Rightarrow> view \<Rightarrow> bool" where
  "view_ok stores loads hw hr v \<longleftrightarrow> vw_stores v \<le> stores \<and> vw_loads v \<le> loads \<and> vw_writePos v < hw \<and> vw_readPos v < hr"

definition views_inv :: "message list \<Rightarrow> message list \<Rightarrow> view \<Rightarrow> view \<Rightarrow> bool" where
  "views_inv hw hr wv rv \<longleftrightarrow> Suc (vw_writePos wv) = length hw \<and> Suc (vw_readPos rv) = length hr \<and>
     list_all (view_ok (vw_stores wv) (vw_loads rv) (length hw) (length hr)) (wv # rv # map msg_view (hw @ hr))"

text \<open>
  The producer, with \<open>W\<close> samples published, knows of \<open>known\<close> samples that have been read; the consumer,
  with \<open>R\<close> samples taken, of \<open>known\<close> samples published.
\<close>

fun writer_inv :: "nat \<Rightarrow> nat \<Rightarrow> nat \<Rightarrow> writer \<Rightarrow> bool" where
  "writer_inv k W known W_idle = True"
| "writer_inv k W known (W_loaded w cnt xs) = (w = of_nat W \<and> unat cnt \<le> length xs)"
| "writer_inv k W known (W_copy w n xs i) = (w = of_nat W \<and> unat n \<le> length xs \<and> i \<le> unat n \<and> W + unat n \<le> known + 2 ^ k)"

fun reader_inv :: "sample list \<Rightarrow> nat \<Rightarrow> nat \<Rightarrow> reader \<Rightarrow> bool" where
  "reader_inv pub R known R_idle = True"
| "reader_inv pub R known (R_loaded r cnt) = (r = of_nat R)"
| "reader_inv pub R known (R_copy r n i out) =
     (r = of_nat R \<and> i \<le> unat n \<and> R + unat n \<le> known \<and> out = take i (drop R pub))"

fun copied :: "writer \<Rightarrow> sample list" where
  "copied (W_copy w n xs i) = take i xs"
| "copied _ = []"

fun reading :: "reader \<Rightarrow> sample list" where
  "reading (R_copy r n i out) = out"
| "reading _ = []"

text \<open>
  The slots: every stored sample that has not been taken is in its slot, with its number, and
  the last load of a slot was one of the loads so far.
\<close>

definition slots_inv :: "nat \<Rightarrow> ring \<Rightarrow> nat list \<Rightarrow> nat list \<Rightarrow> sample list \<Rightarrow> nat \<Rightarrow> nat \<Rightarrow> bool" where
  "slots_inv k rb stored loaded samples R loads \<longleftrightarrow> ring_shape rb k \<and> length stored = 2 ^ k \<and> length loaded = 2 ^ k \<and>
     (\<forall>j. R \<le> j \<and> j < length samples \<longrightarrow> rb_buffer rb ! (j mod 2 ^ k) = samples ! j \<and> stored ! (j mod 2 ^ k) = Suc j) \<and>
     (\<forall>x < 2 ^ k. loaded ! x = 0 \<or> (\<exists>m < loads. m mod 2 ^ k = x \<and> loaded ! x = Suc m))"

definition known_reads :: "weak \<Rightarrow> nat" where
  "known_reads s = vw_loads (msg_view (wm_readPos s ! vw_readPos (wm_wview s)))"

definition known_writes :: "weak \<Rightarrow> nat" where
  "known_writes s = vw_stores (msg_view (wm_writePos s ! vw_writePos (wm_rview s)))"

definition weak_inv :: "nat \<Rightarrow> weak \<Rightarrow> bool" where
  "weak_inv k s \<longleftrightarrow>
     slots_inv k (wm_ring s) (wm_stored s) (wm_loaded s) (wm_published s @ copied (wm_writer s))
       (length (wm_taken s)) (length (wm_taken s) + length (reading (wm_reader s))) \<and>
     history vw_stores Write_pos (length (wm_published s)) (wm_writePos s) \<and>
     history vw_loads Read_pos (length (wm_taken s)) (wm_readPos s) \<and>
     views_inv (wm_writePos s) (wm_readPos s) (wm_wview s) (wm_rview s) \<and>
     vw_stores (wm_wview s) = length (wm_published s) + length (copied (wm_writer s)) \<and>
     vw_loads (wm_rview s) = length (wm_taken s) + length (reading (wm_reader s)) \<and>
     known_reads s \<le> vw_loads (wm_wview s) \<and> known_writes s \<le> vw_stores (wm_rview s) \<and>
     length (wm_published s) \<le> known_reads s + 2 ^ k \<and> length (wm_taken s) \<le> known_writes s \<and>
     wm_taken s = take (length (wm_taken s)) (wm_published s) \<and>
     writer_inv k (length (wm_published s)) (known_reads s) (wm_writer s) \<and>
     reader_inv (wm_published s) (length (wm_taken s)) (known_writes s) (wm_reader s) \<and>
     \<not> wm_raced s"

text \<open>What a load returns, and what a thread knows after it.\<close>

lemma load_Some:
  assumes "load acquire p i h v = Some (x, v')" "history cnt p newest h"
  shows "seen p v \<le> i" "i < length h" "x = of_nat (cnt (msg_view (h ! i)))" "cnt (msg_view (h ! seen p v)) \<le> cnt (msg_view (h ! i))"
    "cnt (msg_view (h ! i)) \<le> newest"
    "v' = (if acquire then join_view (msg_view (h ! i)) (see p i v) else see p i v)" "seen p (msg_view (h ! i)) = i"
proof -
  from assms(1) show le: "seen p v \<le> i" "i < length h" by (auto simp: load_def split: if_splits)
  with assms show "x = of_nat (cnt (msg_view (h ! i)))" "cnt (msg_view (h ! seen p v)) \<le> cnt (msg_view (h ! i))"
    "v' = (if acquire then join_view (msg_view (h ! i)) (see p i v) else see p i v)" "seen p (msg_view (h ! i)) = i"
    by (auto simp: load_def history_def)
  have "length h - 1 < length h" "i \<le> length h - 1" using le(2) by linarith+
  with assms(2) le(2) show "cnt (msg_view (h ! i)) \<le> newest" unfolding history_def last_conv_nth [OF conjunct1 [OF iffD1 [OF history_def assms(2)]]] by metis
qed

lemma history_store:
  assumes "history cnt p newest h" "newest \<le> cnt v" "\<And>i. cnt (see p i v) = cnt v" "x = of_nat (cnt v)" "seen p v < length h"
  shows "history cnt p (cnt v) (fst (store True p x h v))"
proof -
  have h: "h \<noteq> []" "\<And>i. i < length h \<Longrightarrow> cnt (msg_view (h ! i)) \<le> newest"
  proof -
    show "h \<noteq> []" using assms(1) by (simp add: history_def)
    fix i assume "i < length h"
    then have "i \<le> length h - 1" "length h - 1 < length h" by linarith+
    with assms(1) show "cnt (msg_view (h ! i)) \<le> newest" unfolding history_def using last_conv_nth [of h] by metis
  qed
  have "seen p (see p (length h) v) = length h" using assms(5) by (cases p) simp_all
  moreover have "cnt (msg_view (h ! i)) \<le> cnt v" if "i < length h" for i using h(2) [OF that] assms(2) by linarith
  ultimately show ?thesis using assms(1,3,4)
    by (auto simp: history_def store_def Let_def nth_append less_Suc_eq_le)
qed

lemma views_writer_load:
  assumes "views_inv hw hr wv rv" "i < length hr" "vw_readPos wv \<le> i" "vw_readPos (msg_view (hr ! i)) = i"
    "v = join_view (msg_view (hr ! i)) (see Read_pos i wv)"
  shows "views_inv hw hr v rv" "vw_stores v = vw_stores wv" "vw_readPos v = i" "vw_loads (msg_view (hr ! i)) \<le> vw_loads v"
proof -
  have "msg_view (hr ! i) \<in> set (map msg_view (hw @ hr))" using assms(2) by simp
  with assms(1) have m: "view_ok (vw_stores wv) (vw_loads rv) (length hw) (length hr) (msg_view (hr ! i))"
    by (auto simp: views_inv_def list_all_iff)
  with assms show "vw_stores v = vw_stores wv" "vw_readPos v = i" "vw_loads (msg_view (hr ! i)) \<le> vw_loads v"
    by (auto simp: view_ok_def join_view_def)
  with m assms show "views_inv hw hr v rv"
    by (auto simp: views_inv_def view_ok_def join_view_def)
qed

lemma views_reader_load:
  assumes "views_inv hw hr wv rv" "i < length hw" "vw_writePos rv \<le> i" "vw_writePos (msg_view (hw ! i)) = i"
    "v = join_view (msg_view (hw ! i)) (see Write_pos i rv)"
  shows "views_inv hw hr wv v" "vw_loads v = vw_loads rv" "vw_writePos v = i" "vw_stores (msg_view (hw ! i)) \<le> vw_stores v"
proof -
  have "msg_view (hw ! i) \<in> set (map msg_view (hw @ hr))" using assms(2) by simp
  with assms(1) have m: "view_ok (vw_stores wv) (vw_loads rv) (length hw) (length hr) (msg_view (hw ! i))"
    by (auto simp: views_inv_def list_all_iff)
  with assms show "vw_loads v = vw_loads rv" "vw_writePos v = i" "vw_stores (msg_view (hw ! i)) \<le> vw_stores v"
    by (auto simp: view_ok_def join_view_def)
  with m assms show "views_inv hw hr wv v"
    by (auto simp: views_inv_def view_ok_def join_view_def)
qed

lemma views_mono:
  "list_all (view_ok a b c d) vs \<Longrightarrow> a \<le> a' \<Longrightarrow> b \<le> b' \<Longrightarrow> c \<le> c' \<Longrightarrow> d \<le> d' \<Longrightarrow> list_all (view_ok a' b' c' d') vs"
  by (erule list.pred_mono_strong) (auto simp: view_ok_def)

lemma views_writer_store:
  assumes "views_inv hw hr wv rv" "store True Write_pos x hw wv = (h, v)"
  shows "views_inv h hr v rv" "vw_stores v = vw_stores wv" "vw_loads v = vw_loads wv" "vw_readPos v = vw_readPos wv"
proof -
  have st: "v = see Write_pos (length hw) wv" "h = hw @ [\<lparr>msg_value = x, msg_view = v\<rparr>]"
    using assms(2) by (auto simp: store_def Let_def)
  then show "vw_stores v = vw_stores wv" "vw_loads v = vw_loads wv" "vw_readPos v = vw_readPos wv" by simp_all
  have "list_all (view_ok (vw_stores wv) (vw_loads rv) (Suc (length hw)) (length hr)) (wv # rv # map msg_view (hw @ hr))"
    using assms(1) unfolding views_inv_def by (blast intro: views_mono le_refl le_SucI)
  with assms(1) st show "views_inv h hr v rv" by (simp add: views_inv_def view_ok_def)
qed

lemma views_reader_store:
  assumes "views_inv hw hr wv rv" "store True Read_pos x hr rv = (h, v)"
  shows "views_inv hw h wv v" "vw_stores v = vw_stores rv" "vw_loads v = vw_loads rv" "vw_writePos v = vw_writePos rv"
proof -
  have st: "v = see Read_pos (length hr) rv" "h = hr @ [\<lparr>msg_value = x, msg_view = v\<rparr>]"
    using assms(2) by (auto simp: store_def Let_def)
  then show "vw_stores v = vw_stores rv" "vw_loads v = vw_loads rv" "vw_writePos v = vw_writePos rv" by simp_all
  have "list_all (view_ok (vw_stores wv) (vw_loads rv) (length hw) (Suc (length hr))) (wv # rv # map msg_view (hw @ hr))"
    using assms(1) unfolding views_inv_def by (blast intro: views_mono le_refl le_SucI)
  with assms(1) st show "views_inv hw h wv v" by (simp add: views_inv_def view_ok_def)
qed

lemma views_sample:
  assumes "views_inv hw hr wv rv"
  shows "views_inv hw hr (wv\<lparr>vw_stores := Suc (vw_stores wv)\<rparr>) rv" "views_inv hw hr wv (rv\<lparr>vw_loads := Suc (vw_loads rv)\<rparr>)"
proof -
  have "list_all (view_ok (Suc (vw_stores wv)) (vw_loads rv) (length hw) (length hr)) (wv # rv # map msg_view (hw @ hr))"
    "list_all (view_ok (vw_stores wv) (Suc (vw_loads rv)) (length hw) (length hr)) (wv # rv # map msg_view (hw @ hr))"
    using assms unfolding views_inv_def by (blast intro: views_mono le_refl le_SucI)+
  with assms show "views_inv hw hr (wv\<lparr>vw_stores := Suc (vw_stores wv)\<rparr>) rv" "views_inv hw hr wv (rv\<lparr>vw_loads := Suc (vw_loads rv)\<rparr>)"
    by (simp_all add: views_inv_def view_ok_def)
qed

lemma slots_store:
  assumes "slots_inv k rb stored loaded xs R loads" "length xs < R + 2 ^ k" "R \<le> loads" "loads \<le> length xs"
  shows "slots_inv k (rb\<lparr>rb_buffer := (rb_buffer rb)[length xs mod 2 ^ k := y]\<rparr>)
      (stored[length xs mod 2 ^ k := Suc (length xs)]) loaded (xs @ [y]) R loads"
    and "loaded ! (length xs mod 2 ^ k) + 2 ^ k \<le> Suc (length xs) \<or> loaded ! (length xs mod 2 ^ k) = 0"
proof -
  let ?x = "length xs mod 2 ^ k"
  have shape: "ring_shape rb k" "length stored = 2 ^ k" "?x < 2 ^ k" using assms(1) by (simp_all add: slots_inv_def)
  have other: "?x \<noteq> j mod 2 ^ k" if "R \<le> j" "j < length xs" for j
    using mod_window_distinct [of j "length xs" k] that assms(2) by simp
  show "slots_inv k (rb\<lparr>rb_buffer := (rb_buffer rb)[?x := y]\<rparr>) (stored[?x := Suc (length xs)]) loaded (xs @ [y]) R loads"
  proof -
    have "(rb_buffer rb)[?x := y] ! (j mod 2 ^ k) = (xs @ [y]) ! j \<and> stored[?x := Suc (length xs)] ! (j mod 2 ^ k) = Suc j"
      if j: "R \<le> j" "j < length (xs @ [y])" for j
    proof (cases "j = length xs")
      case True
      then show ?thesis using shape by (simp add: ring_shape_def)
    next
      case False
      then have "j < length xs" using j(2) by simp
      with other [OF j(1) this] assms(1) j(1) show ?thesis by (simp add: slots_inv_def nth_append)
    qed
    with assms(1) show ?thesis by (simp add: slots_inv_def ring_shape_def)
  qed
  show "loaded ! ?x + 2 ^ k \<le> Suc (length xs) \<or> loaded ! ?x = 0"
  proof (rule ccontr)
    assume no: "\<not> ?thesis"
    from assms(1) have "\<forall>x < 2 ^ k. loaded ! x = 0 \<or> (\<exists>m < loads. m mod 2 ^ k = x \<and> loaded ! x = Suc m)"
      unfolding slots_inv_def by argo
    from this [rule_format, OF shape(3)] no
    obtain m where m: "m < loads" "m mod 2 ^ k = ?x" "loaded ! ?x = Suc m" by blast
    then have "m < length xs" "length xs < m + 2 ^ k" using assms(4) no by linarith+
    from mod_window_distinct [OF this] m(2) show False by argo
  qed
qed

lemma slots_load:
  assumes "slots_inv k rb stored loaded xs R loads" "R \<le> loads" "loads < length xs"
  shows "slots_inv k rb stored (loaded[loads mod 2 ^ k := Suc loads]) xs R (Suc loads)"
    and "rb_buffer rb ! (loads mod 2 ^ k) = xs ! loads" and "stored ! (loads mod 2 ^ k) = Suc loads"
  using assms by (auto simp: slots_inv_def nth_list_update less_Suc_eq)

lemma slots_slot: "slots_inv k rb stored loaded xs R loads \<Longrightarrow> slot rb (of_nat a + of_nat b) = (a + b) mod 2 ^ k"
  using slot_of_nat [of rb k "a + b"] by (simp add: slots_inv_def)

lemma slots_capacity: "slots_inv k rb stored loaded xs R loads \<Longrightarrow> k < 64 \<and> unat (rb_capacity rb) = 2 ^ k"
  by (simp add: slots_inv_def ring_shape_def unat_exp)

lemma slots_taken: "slots_inv k rb stored loaded xs R loads \<Longrightarrow> R \<le> R' \<Longrightarrow> slots_inv k rb stored loaded xs R' loads"
  by (simp add: slots_inv_def)

text \<open>Each step of the producer keeps the invariant.\<close>

lemma weak_history:
  assumes "weak_inv k s"
  shows "history vw_stores Write_pos (length (wm_published s)) (wm_writePos s)"
    "history vw_loads Read_pos (length (wm_taken s)) (wm_readPos s)"
    "views_inv (wm_writePos s) (wm_readPos s) (wm_wview s) (wm_rview s)"
  using assms by (simp_all add: weak_inv_def)

lemma known_le:
  assumes "weak_inv k s"
  shows "known_reads s \<le> length (wm_taken s)" "known_writes s \<le> length (wm_published s)"
    "length (wm_taken s) \<le> length (wm_published s)"
proof -
  note h = weak_history [OF assms]
  have seen: "vw_readPos (wm_wview s) < length (wm_readPos s)" "vw_writePos (wm_rview s) < length (wm_writePos s)"
    using h(3) by (simp_all add: views_inv_def view_ok_def)
  then have "load False Read_pos (vw_readPos (wm_wview s)) (wm_readPos s) (wm_wview s) =
      Some (msg_value (wm_readPos s ! vw_readPos (wm_wview s)), wm_wview s)" by (simp add: load_def)
  from load_Some(5) [OF this h(2)] show "known_reads s \<le> length (wm_taken s)" by (simp add: known_reads_def)
  from seen have "load False Write_pos (vw_writePos (wm_rview s)) (wm_writePos s) (wm_rview s) =
      Some (msg_value (wm_writePos s ! vw_writePos (wm_rview s)), wm_rview s)" by (simp add: load_def)
  from load_Some(5) [OF this h(1)] show "known_writes s \<le> length (wm_published s)" by (simp add: known_writes_def)
  have "wm_taken s = take (length (wm_taken s)) (wm_published s)" using assms by (simp add: weak_inv_def)
  then show "length (wm_taken s) \<le> length (wm_published s)" by (metis length_take min.cobounded1)
qed

lemma reading_le:
  assumes "weak_inv k s"
  shows "length (wm_taken s) + length (reading (wm_reader s)) \<le> length (wm_published s)"
proof (cases "wm_reader s")
  case (R_copy r n i out)
  then have "i \<le> unat n" "length (wm_taken s) + unat n \<le> known_writes s" "length out \<le> i"
    using assms by (auto simp: weak_inv_def)
  with known_le(2) [OF assms] show ?thesis by (simp add: R_copy)
qed (use known_le(3) [OF assms] in simp_all)

lemma own_load:
  assumes "Suc (seen p v) = length h" "history cnt p newest h" "load False p i h v = Some (x, v')"
  shows "v' = v \<and> x = of_nat newest"
proof -
  note l = load_Some [OF assms(3,2)]
  with assms(1) have i: "i = seen p v" "i = length h - 1" by simp_all
  then have "h ! i = last h" using assms(2) by (simp add: history_def last_conv_nth)
  then have "cnt (msg_view (h ! i)) = newest" using assms(2) by (simp add: history_def)
  then show ?thesis using l(3,6) i(1) by (cases p) auto
qed

lemma weak_write_load:
  assumes "weak_inv k s" "wm_writer s = W_idle" "unat cnt \<le> length xs" "load False Write_pos i (wm_writePos s) (wm_wview s) = Some (w, v)"
  shows "weak_inv k (s\<lparr>wm_writer := W_loaded w cnt xs, wm_wview := v\<rparr>)"
proof -
  have "Suc (seen Write_pos (wm_wview s)) = length (wm_writePos s)" using weak_history(3) [OF assms(1)] by (simp add: views_inv_def)
  from own_load [OF this weak_history(1) [OF assms(1)] assms(4)] assms show ?thesis
    by (simp add: weak_inv_def known_reads_def known_writes_def)
qed

lemma weak_write_acquire:
  assumes "weak_inv k s" "wm_writer s = W_loaded w cnt xs" "load True Read_pos i (wm_readPos s) (wm_wview s) = Some (r, v)"
  shows "weak_inv k (s\<lparr>wm_writer := W_copy w (min cnt (rb_capacity (wm_ring s) - (w - r))) xs 0, wm_wview := v\<rparr>)"
proof -
  let ?W = "length (wm_published s)" and ?r = "vw_loads (msg_view (wm_readPos s ! i))"
  let ?n = "min cnt (rb_capacity (wm_ring s) - (w - r))"
  note h = weak_history [OF assms(1)]
  note l = load_Some [OF assms(3) h(2)]
  from l have i: "vw_readPos (wm_wview s) \<le> i" "vw_readPos (msg_view (wm_readPos s ! i)) = i" by simp_all
  note v = views_writer_load [OF h(3) l(2) i]
  from l(6) have v_eq: "v = join_view (msg_view (wm_readPos s ! i)) (see Read_pos i (wm_wview s))" by simp
  have k: "k < 64" "unat (rb_capacity (wm_ring s)) = 2 ^ k" using assms(1) slots_capacity by (auto simp: weak_inv_def)
  have w: "w = of_nat ?W" "unat cnt \<le> length xs" using assms(1,2) by (simp_all add: weak_inv_def)
  have old: "known_reads s \<le> ?r" using l(4) by (simp add: known_reads_def)
  have R: "length (wm_taken s) \<le> ?W" by (rule known_le [OF assms(1)])
  have W: "?W \<le> ?r + 2 ^ k" "?r \<le> ?W" using assms(1) old l(5) R by (simp_all add: weak_inv_def)
  have diff: "unat (w - r) = ?W - ?r" unfolding w(1) l(3) using W k(1) by (intro unat_diff_of_nat) simp_all
  have "unat (rb_capacity (wm_ring s) - (w - r)) = 2 ^ k - (?W - ?r)"
    using W(1) by (subst unat_sub) (simp_all add: word_le_nat_alt k(2) diff)
  then have n: "unat ?n \<le> length xs" "?W + unat ?n \<le> ?r + 2 ^ k"
    using unat_min_le [of cnt "rb_capacity (wm_ring s) - (w - r)"] w(2) W by linarith+
  show ?thesis using assms(1,2) v [OF v_eq] n W(1) w(1)
    by (simp add: weak_inv_def known_reads_def known_writes_def)
qed

lemma weak_write_sample:
  assumes "weak_inv k s" "wm_writer s = W_copy w n xs j" "j < unat n"
  shows "weak_inv k ((store_sample (slot (wm_ring s) (w + of_nat j)) (xs ! j) s)\<lparr>wm_writer := W_copy w n xs (Suc j)\<rparr>)"
proof -
  let ?W = "length (wm_published s)" and ?R = "length (wm_taken s)" and ?ys = "wm_published s @ take j xs"
  from assms have w: "w = of_nat ?W" "unat n \<le> length xs" "?W + unat n \<le> known_reads s + 2 ^ k" "known_reads s \<le> vw_loads (wm_wview s)"
    and slots: "slots_inv k (wm_ring s) (wm_stored s) (wm_loaded s) ?ys ?R (?R + length (reading (wm_reader s)))"
    and stores: "vw_stores (wm_wview s) = ?W + j"
    and loads: "vw_loads (wm_rview s) = ?R + length (reading (wm_reader s))"
    by (simp_all add: weak_inv_def)
  have len: "length ?ys = ?W + j" "take (Suc j) xs = take j xs @ [xs ! j]" using w(2) assms(3) by (simp_all add: take_Suc_conv_app_nth)
  have slot: "slot (wm_ring s) (w + of_nat j) = length ?ys mod 2 ^ k" using slots_slot [OF slots, of ?W j] by (simp only: w(1) len(1))
  have view: "vw_loads (wm_wview s) \<le> vw_loads (wm_rview s)" using weak_history(3) [OF assms(1)] by (simp add: views_inv_def view_ok_def)
  have "known_reads s \<le> ?R" by (rule known_le [OF assms(1)])
  with w(3) assms(3) have room: "length ?ys < ?R + 2 ^ k" unfolding len by linarith
  have past: "?R + length (reading (wm_reader s)) \<le> length ?ys" using reading_le [OF assms(1)] unfolding len by linarith
  note st = slots_store(1) [OF slots room _ past, of "xs ! j", simplified] slots_store(2) [OF slots room _ past, simplified]
  have "wm_loaded s ! (length ?ys mod 2 ^ k) \<le> vw_loads (wm_wview s)" using st(2) w(3,4) assms(3) loads len(1) by auto
  then show ?thesis
    using assms(1,2) st(1) loads views_sample(1) [OF weak_history(3) [OF assms(1)]] len stores assms(3)
    unfolding slot by (simp add: weak_inv_def store_sample_def known_reads_def known_writes_def)
qed

lemma weak_write_publish:
  assumes "weak_inv k s" "wm_writer s = W_copy w n xs j" "\<not> j < unat n" "store True Write_pos (w + n) (wm_writePos s) (wm_wview s) = (h, v)"
  shows "weak_inv k (s\<lparr>wm_writePos := h, wm_wview := v, wm_writer := W_idle, wm_published := wm_published s @ take (unat n) xs\<rparr>)"
proof -
  let ?W = "length (wm_published s)"
  from assms have w: "w = of_nat ?W" "unat n \<le> length xs" "j = unat n" "?W + unat n \<le> known_reads s + 2 ^ k"
    "vw_stores (wm_wview s) = ?W + unat n"
    by (simp_all add: weak_inv_def)
  note hs = weak_history [OF assms(1)]
  note v = views_writer_store [OF hs(3) assms(4)]
  have "history vw_stores Write_pos (vw_stores (wm_wview s)) (fst (store True Write_pos (w + n) (wm_writePos s) (wm_wview s)))"
    using hs(1,3) w by (intro history_store) (auto simp: views_inv_def view_ok_def)
  then have "history vw_stores Write_pos (?W + unat n) h" using w(5) assms(4) by simp
  moreover have "known_writes (s\<lparr>wm_writePos := h\<rparr>) = known_writes s"
    using assms(4) hs(3) by (auto simp: known_writes_def store_def Let_def views_inv_def view_ok_def nth_append)
  moreover have "reader_inv (wm_published s @ take (unat n) xs) (length (wm_taken s)) (known_writes s) (wm_reader s)"
    if "reader_inv (wm_published s) (length (wm_taken s)) (known_writes s) (wm_reader s)" "known_writes s \<le> ?W"
    using that by (cases "wm_reader s") auto
  ultimately show ?thesis using assms(1,2) v w known_le [OF assms(1)]
    by (simp add: weak_inv_def known_reads_def known_writes_def)
qed

text \<open>Each step of the consumer keeps the invariant.\<close>

lemma weak_read_load:
  assumes "weak_inv k s" "wm_reader s = R_idle" "load False Read_pos i (wm_readPos s) (wm_rview s) = Some (r, v)"
  shows "weak_inv k (s\<lparr>wm_reader := R_loaded r cnt, wm_rview := v\<rparr>)"
proof -
  have "Suc (seen Read_pos (wm_rview s)) = length (wm_readPos s)" using weak_history(3) [OF assms(1)] by (simp add: views_inv_def)
  from own_load [OF this weak_history(2) [OF assms(1)] assms(3)] assms show ?thesis
    by (simp add: weak_inv_def known_reads_def known_writes_def)
qed

lemma weak_read_acquire:
  assumes "weak_inv k s" "wm_reader s = R_loaded r cnt" "load True Write_pos i (wm_writePos s) (wm_rview s) = Some (w, v)"
  shows "weak_inv k (s\<lparr>wm_reader := R_copy r (min cnt (w - r)) 0 [], wm_rview := v\<rparr>)"
proof -
  let ?R = "length (wm_taken s)" and ?w = "vw_stores (msg_view (wm_writePos s ! i))"
  note h = weak_history [OF assms(1)]
  note l = load_Some [OF assms(3) h(1)]
  from l have i: "vw_writePos (wm_rview s) \<le> i" "vw_writePos (msg_view (wm_writePos s ! i)) = i" by simp_all
  note v = views_reader_load [OF h(3) l(2) i]
  from l(6) have v_eq: "v = join_view (msg_view (wm_writePos s ! i)) (see Write_pos i (wm_rview s))" by simp
  have k: "k < 64" using assms(1) slots_capacity by (auto simp: weak_inv_def)
  have r: "r = of_nat ?R" using assms(1,2) by (simp add: weak_inv_def)
  have "?R \<le> known_writes s" "length (wm_published s) \<le> known_reads s + 2 ^ k" using assms(1) by (simp_all add: weak_inv_def)
  then have w: "?R \<le> ?w" "?w \<le> ?R + 2 ^ k" using l(4,5) known_le(1) [OF assms(1)] by (simp_all add: known_writes_def)
  have "unat (w - r) = ?w - ?R" unfolding r l(3) using w k by (intro unat_diff_of_nat)
  then have "?R + unat (min cnt (w - r)) \<le> ?w" using unat_min_le(2) [of cnt "w - r"] w(1) by linarith
  then show ?thesis using assms(1,2) v [OF v_eq] w(1) r
    by (simp add: weak_inv_def known_reads_def known_writes_def)
qed

lemma weak_read_sample:
  assumes "weak_inv k s" "wm_reader s = R_copy r n j out" "j < unat n" "x = slot (wm_ring s) (r + of_nat j)"
  shows "weak_inv k ((load_sample x s)\<lparr>wm_reader := R_copy r n (Suc j) (out @ [rb_buffer (wm_ring s) ! x])\<rparr>)"
proof -
  let ?R = "length (wm_taken s)" and ?ys = "wm_published s @ copied (wm_writer s)"
  from assms(1) have r: "r = of_nat ?R" "?R + unat n \<le> known_writes s" "out = take j (drop ?R (wm_published s))"
      "known_writes s \<le> vw_stores (wm_rview s)"
    and loads: "vw_loads (wm_rview s) = ?R + length out"
    and slots: "slots_inv k (wm_ring s) (wm_stored s) (wm_loaded s) ?ys ?R (?R + length out)"
    unfolding weak_inv_def assms(2) reader_inv.simps reading.simps by argo+
  have W: "?R + j < length (wm_published s)" using r(2) known_le(2) [OF assms(1)] assms(3) by linarith
  then have out: "length out = j" using r(3) by simp
  have x: "x = (?R + j) mod 2 ^ k" using slots_slot [OF slots, of ?R j] by (simp only: assms(4) r(1))
  have "?R + j < length ?ys" using W by simp
  then have ld: "slots_inv k (wm_ring s) (wm_stored s) ((wm_loaded s)[x := Suc (?R + j)]) ?ys ?R (Suc (?R + j))"
    "rb_buffer (wm_ring s) ! x = ?ys ! (?R + j)" "wm_stored s ! x = Suc (?R + j)"
    using slots_load [OF slots] by (simp_all add: out x)
  have "out @ [rb_buffer (wm_ring s) ! x] = take (Suc j) (drop ?R (wm_published s))"
    using W r(3) ld(2) by (simp add: take_Suc_conv_app_nth nth_append)
  moreover have "\<not> wm_raced s" "wm_stored s ! x \<le> vw_stores (wm_rview s)"
    using assms(1,3) ld(3) r(2,4) by (simp_all add: weak_inv_def)
  ultimately show ?thesis
    using assms(1-3) ld(1) views_sample(2) [OF weak_history(3) [OF assms(1)]] loads r(1,2) out W
      min.absorb2 [of "Suc j" "length (wm_published s) - ?R"]
    by (simp add: weak_inv_def load_sample_def known_reads_def known_writes_def)
qed

lemma weak_read_release:
  assumes "weak_inv k s" "wm_reader s = R_copy r n j out" "\<not> j < unat n" "store True Read_pos (r + n) (wm_readPos s) (wm_rview s) = (h, v)"
  shows "weak_inv k (s\<lparr>wm_readPos := h, wm_rview := v, wm_reader := R_idle, wm_taken := wm_taken s @ out\<rparr>)"
proof -
  let ?R = "length (wm_taken s)"
  from assms have r: "r = of_nat ?R" "j = unat n" "?R + unat n \<le> known_writes s" "out = take (unat n) (drop ?R (wm_published s))"
    "vw_loads (wm_rview s) = ?R + length out"
    by (simp_all add: weak_inv_def)
  have len: "length out = unat n" using r(3,4) known_le(2) [OF assms(1)] by simp
  note hs = weak_history [OF assms(1)]
  note v = views_reader_store [OF hs(3) assms(4)]
  have "history vw_loads Read_pos (vw_loads (wm_rview s)) (fst (store True Read_pos (r + n) (wm_readPos s) (wm_rview s)))"
    using hs(2,3) r(1,5) len by (intro history_store) (auto simp: views_inv_def view_ok_def)
  then have "history vw_loads Read_pos (?R + unat n) h" using r(5) len assms(4) by simp
  moreover have "known_reads (s\<lparr>wm_readPos := h\<rparr>) = known_reads s"
    using assms(4) hs(3) by (auto simp: known_reads_def store_def Let_def views_inv_def view_ok_def nth_append)
  moreover have "wm_taken s @ out = take (?R + unat n) (wm_published s)"
  proof -
    have taken: "wm_taken s = take ?R (wm_published s)" using assms(1) by (simp add: weak_inv_def)
    show ?thesis unfolding r(4) take_add by (subst taken) (rule refl)
  qed
  moreover have "slots_inv k (wm_ring s) (wm_stored s) (wm_loaded s) (wm_published s @ copied (wm_writer s)) (?R + unat n) (?R + unat n)"
  proof -
    have "slots_inv k (wm_ring s) (wm_stored s) (wm_loaded s) (wm_published s @ copied (wm_writer s)) ?R (?R + length out)"
      using assms(1) unfolding weak_inv_def assms(2) reading.simps by argo
    then show ?thesis unfolding len by (rule slots_taken) simp
  qed
  moreover have "min (length (wm_published s)) (?R + unat n) = ?R + unat n"
    using r(3) known_le(2) [OF assms(1)] by simp
  ultimately show ?thesis using assms(1,2) v r(3,5) len
    by (simp add: weak_inv_def known_reads_def known_writes_def)
qed

lemma weak_step_inv:
  assumes "weak_inv k s" "weak_step code_orders c s = Some s'"
  shows "weak_inv k s'"
proof (cases c)
  case (Writer count xs i)
  show ?thesis
  proof (cases "wm_writer s")
    case W_idle
    then show ?thesis using assms Writer weak_write_load by (auto simp: writer_step_def split: if_splits)
  next
    case (W_loaded w cnt ys)
    then show ?thesis using assms Writer weak_write_acquire by (auto simp: writer_step_def code_orders_def)
  next
    case (W_copy w n ys j)
    then show ?thesis using assms Writer weak_write_sample weak_write_publish
      by (auto simp: writer_step_def code_orders_def split: if_splits prod.splits)
  qed
next
  case (Reader count i)
  show ?thesis
  proof (cases "wm_reader s")
    case R_idle
    then show ?thesis using assms Reader weak_read_load by (auto simp: reader_step_def)
  next
    case (R_loaded r cnt)
    then show ?thesis using assms Reader weak_read_acquire by (auto simp: reader_step_def code_orders_def)
  next
    case (R_copy r n j out)
    then show ?thesis using assms Reader weak_read_sample weak_read_release
      by (auto simp: reader_step_def code_orders_def Let_def split: if_splits prod.splits)
  qed
qed

lemma weak_init_inv: "ring_shape rb k \<Longrightarrow> weak_inv k (weak_init rb)"
  by (simp add: weak_inv_def weak_init_def slots_inv_def history_def views_inv_def view_ok_def no_view_def
      known_reads_def known_writes_def ring_shape_def)

lemma weak_run_inv: "weak_run code_orders cs s = Some s' \<Longrightarrow> weak_inv k s \<Longrightarrow> weak_inv k s'"
  by (induction cs arbitrary: s) (auto split: bind_splits intro: weak_step_inv)

section \<open>The memory orders are needed\<close>

text \<open>
  One sample is written, read and overwritten in a buffer of one sample; every load returns the newest
  store.
\<close>

definition overwrite_run :: "weak_choice list" where
  "overwrite_run = [Writer 1 [7] 0, Writer 0 [] 0, Writer 0 [] 0, Writer 0 [] 0,
     Reader 1 0, Reader 0 1, Reader 0 0, Reader 0 0, Writer 1 [8] 1, Writer 0 [] 1, Writer 0 [] 0]"

lemma overwrite_races:
  "\<exists>s. weak_run ord overwrite_run (weak_init (RingBuffer_new 1)) = Some s \<and> (wm_raced s \<longleftrightarrow> ord \<noteq> code_orders)"
proof -
  have new: "RingBuffer_new 1 = \<lparr>rb_buffer = [0], rb_capacity = 1, rb_mask = 0, rb_writePos = 0, rb_readPos = 0\<rparr>"
    by code_simp
  obtain wa wr ra rr where "ord = \<lparr>write_acquires = wa, write_releases = wr, read_acquires = ra, read_releases = rr\<rparr>"
    by (cases ord)
  then show ?thesis
    by (cases wa; cases wr; cases ra; cases rr)
      (simp add: overwrite_run_def new weak_init_def writer_step_def reader_step_def load_def store_def join_view_def
        no_view_def store_sample_def load_sample_def slot_def code_orders_def Let_def)+
qed

lemma weak_new_inv:
  assumes "0 < unat n" "unat n \<le> 2 ^ 63" "weak_run code_orders cs (weak_init (RingBuffer_new n)) = Some s"
  obtains k where "weak_inv k s" "rb_cap (RingBuffer_new n) = 2 ^ k"
proof -
  from assms(1,2) obtain k where "ring_shape (RingBuffer_new n) k" "rb_cap (RingBuffer_new n) = 2 ^ k" by (rule RingBuffer_new_shape)
  with that weak_run_inv [OF assms(3)] show thesis by (blast intro: weak_init_inv)
qed

lemma taken_prefix:
  assumes "weak_inv k s"
  shows "prefix (wm_taken s @ reading (wm_reader s)) (wm_published s)"
proof -
  let ?R = "length (wm_taken s)"
  have taken: "wm_taken s = take ?R (wm_published s)" using assms by (simp add: weak_inv_def)
  obtain i where "reading (wm_reader s) = take i (drop ?R (wm_published s))"
  proof (cases "wm_reader s")
    case (R_copy r n j out)
    then show thesis using that [of j] assms by (simp add: weak_inv_def)
  qed (use that [of 0] in simp_all)
  then have "wm_taken s @ reading (wm_reader s) = take (?R + i) (wm_published s)"
    unfolding take_add by (subst taken) simp
  then show ?thesis by (simp add: take_is_prefix)
qed

text \<open>
  C8. With the memory orders of the code the buffer is correct on weakly ordered processors: whatever
  stale values of the other thread's position the loads return, and however the two threads
  interleave, no sample is ever stored or loaded in a data race, what the consumer has read is a prefix of
  what the producer has written, and never more than the capacity is unread.
\<close>

theorem ring_weak_memory:
  assumes "0 < unat n" and "unat n \<le> 2 ^ 63" and "weak_run code_orders cs (weak_init (RingBuffer_new n)) = Some s"
  shows "\<not> wm_raced s \<and> prefix (wm_taken s @ reading (wm_reader s)) (wm_published s) \<and>
    length (wm_published s) \<le> length (wm_taken s) + rb_cap (RingBuffer_new n)"
proof -
  from assms obtain k where k: "weak_inv k s" "rb_cap (RingBuffer_new n) = 2 ^ k" by (rule weak_new_inv)
  then have "\<not> wm_raced s" "length (wm_published s) \<le> known_reads s + 2 ^ k" by (simp_all add: weak_inv_def)
  with k(2) taken_prefix [OF k(1)] known_le(1) [OF k(1)] show ?thesis by simp
qed

theorem ring_weak_memory_witness:
  "\<exists>cs s. weak_run code_orders cs (weak_init (RingBuffer_new 1)) = Some s \<and> cs \<noteq> [] \<and>
     prefix (wm_taken s @ reading (wm_reader s)) (wm_published s)"
proof -
  obtain s where "weak_run code_orders overwrite_run (weak_init (RingBuffer_new 1)) = Some s" using overwrite_races by blast
  with ring_weak_memory [OF _ _ this] show ?thesis by (intro exI [of _ overwrite_run] exI [of _ s]) (simp add: overwrite_run_def)
qed

text \<open>
  C19. None of the orders can be relaxed: a buffer of one sample has a run with a data race exactly if one
  of the two acquire loads or of the two release stores is weaker than in the code.
\<close>

theorem memory_orders_needed:
  "(\<exists>cs s. weak_run ord cs (weak_init (RingBuffer_new 1)) = Some s \<and> wm_raced s) \<longleftrightarrow> ord \<noteq> code_orders"
proof
  assume "ord \<noteq> code_orders"
  then show "\<exists>cs s. weak_run ord cs (weak_init (RingBuffer_new 1)) = Some s \<and> wm_raced s" using overwrite_races by blast
next
  assume "\<exists>cs s. weak_run ord cs (weak_init (RingBuffer_new 1)) = Some s \<and> wm_raced s"
  then obtain cs s where s: "weak_run ord cs (weak_init (RingBuffer_new 1)) = Some s" "wm_raced s" by blast
  have "\<not> wm_raced s" if "ord = code_orders"
  proof -
    have "weak_run code_orders cs (weak_init (RingBuffer_new 1)) = Some s" using s(1) that by simp
    from weak_new_inv [OF _ _ this] show ?thesis by (auto simp: weak_inv_def)
  qed
  with s(2) show "ord \<noteq> code_orders" by blast
qed

end
