(* ===== verification/ReconnectPolicy.thy ===== *)
theory ReconnectPolicy
  imports Prelude
begin

text \<open>
  The reconnection policy of \<open>core/src/network/reconnect_policy.cpp\<close>: attempt counting and
  exponential backoff on 32-bit and 64-bit signed integers, and the contract of a policy that
  a retrying client (the engine's reconnection thread) relies on. \<open>None\<close> is a signed overflow.
\<close>

section \<open>Operations\<close>

record reconnect_config =
  max_attempts :: int
  initial_delay_ms :: int
  max_delay_ms :: int

record reconnect_policy =
  rp_config :: reconnect_config
  m_attempt :: int
  m_reconnecting :: bool

definition ReconnectPolicy_new :: "reconnect_config \<Rightarrow> reconnect_policy" where
  "ReconnectPolicy_new config = \<lparr>rp_config = config, m_attempt = 0, m_reconnecting = False\<rparr>"

definition rp_reset :: "reconnect_policy \<Rightarrow> reconnect_policy" where
  "rp_reset p = p\<lparr>m_attempt := 0, m_reconnecting := False\<rparr>"

definition rp_onDisconnected :: "reconnect_policy \<Rightarrow> reconnect_policy" where
  "rp_onDisconnected p =
     (if \<not> m_reconnecting p then p\<lparr>m_reconnecting := True, m_attempt := 0\<rparr> else p)"

definition rp_onConnected :: "reconnect_policy \<Rightarrow> reconnect_policy" where
  "rp_onConnected p = rp_reset p"

definition isExhausted :: "reconnect_policy \<Rightarrow> bool" where
  "isExhausted p \<longleftrightarrow> max_attempts (rp_config p) \<le> m_attempt p"

definition currentAttempt :: "reconnect_policy \<Rightarrow> int" where
  "currentAttempt p = m_attempt p"

definition isReconnecting :: "reconnect_policy \<Rightarrow> bool" where
  "isReconnecting p = m_reconnecting p"

definition rp_onAttemptFailed :: "reconnect_policy \<Rightarrow> (reconnect_policy \<times> bool) option" where
  "rp_onAttemptFailed p =
     (case checked_i32 (m_attempt p + 1) of
        None \<Rightarrow> None
      | Some a \<Rightarrow> (let p' = p\<lparr>m_attempt := a\<rparr> in Some (p', \<not> isExhausted p')))"

text \<open>The loop of \<open>getNextDelayMs\<close>, from its counter \<open>i\<close> and the delay so far.\<close>

function backoff_loop :: "int \<Rightarrow> int \<Rightarrow> int \<Rightarrow> int \<Rightarrow> int option" where
  "backoff_loop attempt max_delay i delay =
     (if i < attempt \<and> delay < max_delay then
        (case checked_i64 (delay * 2) of
           None \<Rightarrow> None
         | Some delay' \<Rightarrow> backoff_loop attempt max_delay (i + 1) delay')
      else Some delay)"
  by auto

termination by (relation "measure (\<lambda>(attempt, _, i, _). nat (attempt - i))") auto

declare backoff_loop.simps [simp del]

text \<open>
  \<open>static_cast<int32_t>\<close> of a 64-bit value that does not fit is implementation-defined in C++17; the
  compilers keep its low 32 bits.
\<close>

definition to_i32 :: "int \<Rightarrow> int" where
  "to_i32 x = (x + 2147483648) mod 4294967296 - 2147483648"

definition getNextDelayMs :: "reconnect_policy \<Rightarrow> int option" where
  "getNextDelayMs p =
     (if m_attempt p \<le> 0 then Some (initial_delay_ms (rp_config p))
      else (case backoff_loop (m_attempt p) (max_delay_ms (rp_config p)) 1 (initial_delay_ms (rp_config p)) of
              None \<Rightarrow> None
            | Some delay \<Rightarrow> Some (to_i32 (min delay (max_delay_ms (rp_config p))))))"

section \<open>The backoff\<close>

lemma to_i32_id: "in_i32 x \<Longrightarrow> to_i32 x = x"
  by (simp add: to_i32_def in_i32_def)

text \<open>The loop doubles once per iteration until the cap is reached; it cannot overflow.\<close>

lemma backoff_loop_value:
  "0 \<le> d \<Longrightarrow> d \<le> 4294967296 \<Longrightarrow> in_i32 mx \<Longrightarrow> 0 \<le> mx \<Longrightarrow>
     \<exists>r. backoff_loop a mx i d = Some r \<and> min r mx = min (d * 2 ^ nat (a - i)) mx"
proof (induction a mx i d rule: backoff_loop.induct)
  case (1 a mx i d)
  show ?case
  proof (cases "i < a \<and> d < mx")
    case True
    then have c: "checked_i64 (d * 2) = Some (d * 2)"
      using "1.prems" by (simp add: checked_i64_def in_i64_def in_i32_def)
    have "nat (a - i) = Suc (nat (a - (i + 1)))" using True by linarith
    then show ?thesis
      using "1.IH" [OF True c] "1.prems" True c
      by (subst backoff_loop.simps) (simp add: in_i32_def mult.assoc)
  next
    case False
    then have "backoff_loop a mx i d = Some d" by (subst backoff_loop.simps) (simp only: if_False)
    moreover have "min d mx = min (d * 2 ^ nat (a - i)) mx"
    proof (cases "i < a")
      case True
      with False have "mx \<le> d" by simp
      moreover have "d * 1 \<le> d * 2 ^ nat (a - i)" using "1.prems"(1) by (intro mult_left_mono) simp_all
      ultimately show ?thesis by simp
    qed simp
    ultimately show ?thesis by blast
  qed
qed

definition config_ok :: "reconnect_config \<Rightarrow> bool" where
  "config_ok c \<longleftrightarrow> 0 \<le> max_attempts c \<and> in_i32 (max_attempts c) \<and>
     0 \<le> initial_delay_ms c \<and> initial_delay_ms c \<le> max_delay_ms c \<and> in_i32 (max_delay_ms c)"

lemma getNextDelayMs_value:
  assumes "config_ok (rp_config p)"
  shows "getNextDelayMs p =
    Some (min (initial_delay_ms (rp_config p) * 2 ^ nat (m_attempt p - 1)) (max_delay_ms (rp_config p)))"
proof (cases "m_attempt p \<le> 0")
  case True
  with assms show ?thesis by (simp add: getNextDelayMs_def config_ok_def)
next
  case False
  let ?i = "initial_delay_ms (rp_config p)" and ?m = "max_delay_ms (rp_config p)"
  obtain r where r: "backoff_loop (m_attempt p) ?m 1 ?i = Some r"
    "min r ?m = min (?i * 2 ^ nat (m_attempt p - 1)) ?m"
    using backoff_loop_value [of ?i ?m "m_attempt p" 1] assms
    by (auto simp: config_ok_def in_i32_def)
  have "0 \<le> min (?i * 2 ^ nat (m_attempt p - 1)) ?m" using assms by (simp add: config_ok_def)
  moreover have "min (?i * 2 ^ nat (m_attempt p - 1)) ?m \<le> ?m" by (rule min.cobounded2)
  ultimately have "in_i32 (min (?i * 2 ^ nat (m_attempt p - 1)) ?m)"
    using assms unfolding config_ok_def in_i32_def by linarith
  with False r show ?thesis by (simp add: getNextDelayMs_def to_i32_id)
qed

section \<open>The contract of a retry policy\<close>

text \<open>
  What the reconnection thread relies on: while attempts are left, a failed attempt uses one up
  and tells whether another is left, and the delay is defined. \<open>retry_failures\<close> is the client
  that keeps failing: it returns the delays it has waited for.
\<close>

primrec retry_failures ::
  "('p \<Rightarrow> 'd option) \<Rightarrow> ('p \<Rightarrow> ('p \<times> bool) option) \<Rightarrow> nat \<Rightarrow> 'p \<Rightarrow> ('p \<times> 'd list \<times> bool) option" where
  "retry_failures delay fail 0 p = Some (p, [], True)"
| "retry_failures delay fail (Suc n) p =
     (case delay p of
        None \<Rightarrow> None
      | Some d \<Rightarrow>
          (case fail p of
             None \<Rightarrow> None
           | Some (p', again) \<Rightarrow>
               (if again then
                  (case retry_failures delay fail n p' of
                     None \<Rightarrow> None
                   | Some (p'', ds, again') \<Rightarrow> Some (p'', d # ds, again'))
                else Some (p', [d], False))))"

locale retry_policy =
  fixes delay :: "'p \<Rightarrow> 'd option"
    and fail :: "'p \<Rightarrow> ('p \<times> bool) option"
    and left :: "'p \<Rightarrow> nat"
    and inv :: "'p \<Rightarrow> bool"
  assumes delay_defined: "inv p \<Longrightarrow> 0 < left p \<Longrightarrow> delay p \<noteq> None"
    and fail_counts: "inv p \<Longrightarrow> 0 < left p \<Longrightarrow>
      \<exists>p'. fail p = Some (p', 0 < left p') \<and> inv p' \<and> Suc (left p') = left p"
begin

lemma failures_exhaust:
  "inv p \<Longrightarrow> 0 < left p \<Longrightarrow> left p \<le> n \<Longrightarrow>
     \<exists>p' ds. retry_failures delay fail n p = Some (p', ds, False) \<and> length ds = left p \<and>
       left p' = 0 \<and> inv p'"
proof (induction n arbitrary: p)
  case 0
  then show ?case by simp
next
  case (Suc n)
  obtain d where d: "delay p = Some d" using delay_defined [OF Suc.prems(1,2)] by blast
  obtain p' where p': "fail p = Some (p', 0 < left p')" "inv p'" "Suc (left p') = left p"
    using fail_counts [OF Suc.prems(1,2)] by blast
  have left: "left p = Suc (left p')" using p'(3) by simp
  show ?case
  proof (cases "0 < left p'")
    case True
    with Suc.prems(3) left Suc.IH [OF p'(2)] obtain p'' ds where
      "retry_failures delay fail n p' = Some (p'', ds, False)" "length ds = left p'" "left p'' = 0" "inv p''"
      by auto
    with True d p'(1) left show ?thesis by simp
  next
    case False
    with d p' left show ?thesis by simp
  qed
qed

end

definition attempts_left :: "reconnect_policy \<Rightarrow> nat" where
  "attempts_left p = nat (max_attempts (rp_config p) - m_attempt p)"

definition policy_ok :: "reconnect_policy \<Rightarrow> bool" where
  "policy_ok p \<longleftrightarrow> config_ok (rp_config p) \<and> 0 \<le> m_attempt p \<and>
     (m_attempt p \<le> max_attempts (rp_config p))"

lemma isExhausted_left: "isExhausted p \<longleftrightarrow> attempts_left p = 0"
  by (auto simp: isExhausted_def attempts_left_def)

lemma onAttemptFailed_counts:
  assumes "policy_ok p" "0 < attempts_left p"
  shows "rp_onAttemptFailed p = Some (p\<lparr>m_attempt := m_attempt p + 1\<rparr>, 0 < attempts_left (p\<lparr>m_attempt := m_attempt p + 1\<rparr>))"
    and "policy_ok (p\<lparr>m_attempt := m_attempt p + 1\<rparr>)"
    and "Suc (attempts_left (p\<lparr>m_attempt := m_attempt p + 1\<rparr>)) = attempts_left p"
  using assms
  by (auto simp: rp_onAttemptFailed_def policy_ok_def config_ok_def attempts_left_def checked_i32_def
      in_i32_def isExhausted_def Let_def)

interpretation backoff: retry_policy getNextDelayMs rp_onAttemptFailed attempts_left policy_ok
proof unfold_locales
  show "getNextDelayMs p \<noteq> None" if "policy_ok p" for p
    using that by (simp add: policy_ok_def getNextDelayMs_value)
  show "\<exists>p'. rp_onAttemptFailed p = Some (p', 0 < attempts_left p') \<and> policy_ok p' \<and>
      Suc (attempts_left p') = attempts_left p" if "policy_ok p" "0 < attempts_left p" for p
    using onAttemptFailed_counts [OF that] by blast
qed

lemma policy_ok_new [inv_intros]: "config_ok c \<Longrightarrow> policy_ok (ReconnectPolicy_new c)"
  by (simp add: policy_ok_def ReconnectPolicy_new_def config_ok_def)

lemma policy_ok_reset [inv_intros]: "policy_ok p \<Longrightarrow> policy_ok (rp_reset p)"
  by (simp add: policy_ok_def rp_reset_def config_ok_def)

lemma policy_ok_onConnected [inv_intros]: "policy_ok p \<Longrightarrow> policy_ok (rp_onConnected p)"
  by (simp add: rp_onConnected_def policy_ok_reset)

lemma policy_ok_onDisconnected [inv_intros]: "policy_ok p \<Longrightarrow> policy_ok (rp_onDisconnected p)"
  by (simp add: policy_ok_def rp_onDisconnected_def config_ok_def)

section \<open>Properties\<close>

text \<open>
  C16. After \<open>k\<close> failed attempts the delay is the initial delay doubled \<open>k - 1\<close> times, or the
  cap when that is smaller; the 64-bit computation never overflows and the conversion to 32 bits
  never changes the value.
\<close>

theorem backoff_delay:
  assumes "config_ok (rp_config p)"
  shows "getNextDelayMs p =
    Some (min (initial_delay_ms (rp_config p) * 2 ^ nat (m_attempt p - 1)) (max_delay_ms (rp_config p)))"
  using assms by (rule getNextDelayMs_value)

definition default_config :: reconnect_config where
  "default_config = \<lparr>max_attempts = 10, initial_delay_ms = 1000, max_delay_ms = 60000\<rparr>"

theorem backoff_delay_witness:
  "getNextDelayMs \<lparr>rp_config = default_config, m_attempt = 4, m_reconnecting = True\<rparr> = Some 8000"
  using backoff_delay [of "\<lparr>rp_config = default_config, m_attempt = 4, m_reconnecting = True\<rparr>"]
  by (simp add: default_config_def config_ok_def in_i32_def)

text \<open>
  From a lost connection, a client whose attempts all fail is told to stop after exactly
  \<open>max_attempts\<close> of them, at least once each delay being defined; then the policy is exhausted.
\<close>

theorem attempts_exhausted:
  assumes "config_ok c" and "0 < max_attempts c" and "nat (max_attempts c) \<le> n"
  shows "\<exists>p ds. retry_failures getNextDelayMs rp_onAttemptFailed n
                  (rp_onDisconnected (ReconnectPolicy_new c)) = Some (p, ds, False) \<and>
           int (length ds) = max_attempts c \<and> isExhausted p"
proof -
  let ?p = "rp_onDisconnected (ReconnectPolicy_new c)"
  have left: "attempts_left ?p = nat (max_attempts c)"
    by (simp add: attempts_left_def rp_onDisconnected_def ReconnectPolicy_new_def)
  show ?thesis
    using backoff.failures_exhaust [of ?p n] assms policy_ok_onDisconnected [OF policy_ok_new [OF assms(1)]]
    by (auto simp: left isExhausted_left)
qed

theorem attempts_exhausted_witness:
  "\<exists>p ds. retry_failures getNextDelayMs rp_onAttemptFailed 12
            (rp_onDisconnected (ReconnectPolicy_new default_config)) = Some (p, ds, False) \<and>
          int (length ds) = 10 \<and> isExhausted p"
proof -
  have ok: "config_ok default_config" "0 < max_attempts default_config"
    "nat (max_attempts default_config) \<le> 12" and m: "max_attempts default_config = 10"
    by (simp_all add: default_config_def config_ok_def in_i32_def)
  show ?thesis using attempts_exhausted [OF ok] unfolding m .
qed

text \<open>
  With the default configuration the delays waited before the ten attempts are 1, 1, 2, 4,
  8, 16, 32, 60, 60 and 60 seconds: the first delay is used twice, so from the second attempt
  on the sequence lags the documented \<open>min (2 ^ (N - 1)) 60\<close> by one step.
\<close>

theorem default_delays:
  "map_option (\<lambda>(_, ds, again). (ds, again)) (retry_failures getNextDelayMs rp_onAttemptFailed 20
     (rp_onDisconnected (ReconnectPolicy_new default_config))) =
   Some ([1000, 1000, 2000, 4000, 8000, 16000, 32000, 60000, 60000, 60000], False)"
  by code_simp

end
