(* ===== verification/Text.thy ===== *)
theory Text
  imports Prelude "HOL-Library.Code_Target_Nat"
begin

text \<open>
  The string conversions of the C and C++ standard libraries that the code uses: decimal
  formatting (\<open>std::to_string\<close>, \<open>snprintf\<close> with \<open>%d\<close> and \<open>%0Nd\<close> and a bounded buffer) and
  \<open>std::stoi\<close> / \<open>std::stoll\<close> with their exceptions as \<open>None\<close>. The main facts are the round trips.
\<close>

section \<open>Characters\<close>

definition digit_char :: "nat \<Rightarrow> char" where
  "digit_char d = ''0123456789'' ! d"

definition is_digit :: "char \<Rightarrow> bool" where
  "is_digit c \<longleftrightarrow> 48 \<le> (of_char c :: nat) \<and> (of_char c :: nat) \<le> 57"

definition digit_val :: "char \<Rightarrow> nat" where
  "digit_val c = of_char c - 48"

text \<open>\<open>isspace\<close> in the C locale: space, \<open>\\t\<close>, \<open>\\n\<close>, \<open>\\v\<close>, \<open>\\f\<close>, \<open>\\r\<close>.\<close>

definition is_space :: "char \<Rightarrow> bool" where
  "is_space c \<longleftrightarrow> (of_char c :: nat) = 32 \<or> (9 \<le> (of_char c :: nat) \<and> (of_char c :: nat) \<le> 13)"

lemma less_10_cases: "d < 10 \<Longrightarrow> d \<in> {0, 1, 2, 3, 4, 5, 6, 7, 8, 9 :: nat}"
  by auto

lemma digit_char_digit [simp]: "d < 10 \<Longrightarrow> is_digit (digit_char d)"
  by (drule less_10_cases) (auto simp: digit_char_def is_digit_def)

lemma digit_char_val [simp]: "d < 10 \<Longrightarrow> digit_val (digit_char d) = d"
  by (drule less_10_cases) (auto simp: digit_char_def digit_val_def)

lemma digit_not_space: "is_digit c \<Longrightarrow> \<not> is_space c"
  by (auto simp: is_digit_def is_space_def)

lemma digit_not_sign: "is_digit c \<Longrightarrow> c \<noteq> CHR ''-'' \<and> c \<noteq> CHR ''+''"
  by (auto simp: is_digit_def)

text \<open>\<open>std::string::find\<close> of a character; \<open>npos\<close> is \<open>None\<close>.\<close>

definition str_find :: "char \<Rightarrow> string \<Rightarrow> nat option" where
  "str_find c s = (if c \<in> set s then Some (length (takeWhile (\<lambda>x. x \<noteq> c) s)) else None)"

lemma length_takeWhile_less_mem: "x \<in> set s \<Longrightarrow> length (takeWhile (\<lambda>y. y \<noteq> x) s) < length s"
  by (induction s) auto

lemma str_find_less: "str_find c s = Some n \<Longrightarrow> n < length s"
  by (auto simp: str_find_def length_takeWhile_less_mem split: if_splits)

lemma str_find_None: "str_find c s = None \<longleftrightarrow> c \<notin> set s"
  by (simp add: str_find_def)

lemma str_find_prefix: "c \<notin> set a \<Longrightarrow> str_find c (a @ c # b) = Some (length a)"
  by (simp add: str_find_def takeWhile_append2 [of a "\<lambda>x. x \<noteq> c"]) (metis (mono_tags, lifting) append_Nil2 takeWhile.simps(2) takeWhile_append2)

lemma str_find_split: "str_find c s = Some n \<Longrightarrow> s = take n s @ c # drop (Suc n) s \<and> c \<notin> set (take n s)"
proof (induction s arbitrary: n)
  case (Cons x s)
  then show ?case by (cases n) (auto simp: str_find_def split: if_splits)
qed (simp add: str_find_def)

section \<open>Formatting\<close>

function digits :: "nat \<Rightarrow> string" where
  "digits n = (if n < 10 then [digit_char n] else digits (n div 10) @ [digit_char (n mod 10)])"
  by auto

termination by (relation "measure id") auto

declare digits.simps [simp del]

definition to_string :: "int \<Rightarrow> string" where
  "to_string x = (if x < 0 then CHR ''-'' # digits (nat (- x)) else digits (nat x))"

text \<open>\<open>%0Nd\<close>: zeros up to the width, the sign being part of it and first.\<close>

definition fmt_0d :: "nat \<Rightarrow> int \<Rightarrow> string" where
  "fmt_0d w x =
     (if x < 0
      then CHR ''-'' # replicate (w - 1 - length (digits (nat (- x)))) (CHR ''0'') @ digits (nat (- x))
      else replicate (w - length (digits (nat x))) (CHR ''0'') @ digits (nat x))"

text \<open>\<open>snprintf\<close> writes at most \<open>size - 1\<close> characters; the rest is lost.\<close>

definition snprintf :: "nat \<Rightarrow> string \<Rightarrow> string" where
  "snprintf n s = take (n - 1) s"

lemma snprintf_fits [simp]: "length s < n \<Longrightarrow> snprintf n s = s"
  by (simp add: snprintf_def)

lemma digits_nonempty [simp]: "digits n \<noteq> []"
  by (subst digits.simps) simp

lemma digits_all [simp]: "c \<in> set (digits n) \<Longrightarrow> is_digit c"
proof (induction n rule: digits.induct)
  case (1 n)
  then show ?case by (subst (asm) (2) digits.simps) (auto split: if_splits)
qed

text \<open>\<open>digits n\<close> has as many characters as the decimal representation needs.\<close>

lemma length_digits: "0 < k \<Longrightarrow> length (digits n) \<le> k \<longleftrightarrow> n < 10 ^ k"
proof (induction n arbitrary: k rule: digits.induct)
  case (1 n)
  show ?case
  proof (cases "n < 10")
    case True
    have "(10::nat) ^ 1 \<le> 10 ^ k" using "1.prems" by (intro power_increasing) simp_all
    with True "1.prems" show ?thesis by (subst digits.simps) simp
  next
    case False
    then have len: "length (digits n) = Suc (length (digits (n div 10)))"
      by (subst digits.simps) simp
    show ?thesis
    proof (cases "k = 1")
      case True
      with False len show ?thesis by simp
    next
      case k: False
      with "1.prems" obtain j where j: "k = Suc j" "0 < j" by (cases k) auto
      from "1.IH" [OF False j(2)] show ?thesis by (simp add: len j(1) div_less_iff_less_mult mult.commute)
    qed
  qed
qed

lemma length_fmt_0d_nonneg: "0 \<le> x \<Longrightarrow> length (fmt_0d w x) = max w (length (digits (nat x)))"
  by (simp add: fmt_0d_def)

lemma length_fmt_0d_exact: "0 \<le> x \<Longrightarrow> x < 10 ^ w \<Longrightarrow> 0 < w \<Longrightarrow> length (fmt_0d w x) = w"
proof -
  assume x: "0 \<le> x" "x < 10 ^ w" "0 < w"
  then have "nat x < 10 ^ w" by (simp add: nat_less_iff)
  then have "length (digits (nat x)) \<le> w" using x(3) by (simp add: length_digits)
  then show ?thesis using x(1) by (simp add: length_fmt_0d_nonneg)
qed

section \<open>Parsing\<close>

definition digits_value :: "string \<Rightarrow> nat" where
  "digits_value s = foldl (\<lambda>a c. a * 10 + digit_val c) 0 s"

text \<open>
  \<open>strtol\<close> in base 10: white space, a sign, the longest run of digits. What follows is ignored;
  no digit at all is the exception \<open>invalid_argument\<close>, a value out of range \<open>out_of_range\<close>.
\<close>

definition parse_nat :: "string \<Rightarrow> nat option" where
  "parse_nat s = (case takeWhile is_digit s of [] \<Rightarrow> None | ds \<Rightarrow> Some (digits_value ds))"

definition parse_int :: "string \<Rightarrow> int option" where
  "parse_int s =
     (case dropWhile is_space s of
        [] \<Rightarrow> None
      | c # cs \<Rightarrow> (if c = CHR ''-'' then map_option (\<lambda>n. - int n) (parse_nat cs)
                   else if c = CHR ''+'' then map_option int (parse_nat cs)
                   else map_option int (parse_nat (c # cs))))"

definition stoll :: "string \<Rightarrow> int option" where
  "stoll s = Option.bind (parse_int s) checked_i64"

definition stoi :: "string \<Rightarrow> int option" where
  "stoi s = Option.bind (parse_int s) checked_i32"

lemma digits_value_snoc [simp]: "digits_value (s @ [c]) = digits_value s * 10 + digit_val c"
  by (simp add: digits_value_def)

lemma digits_value_zeros [simp]: "digits_value (replicate n (CHR ''0'') @ s) = digits_value s"
  by (induction n) (simp_all add: digits_value_def digit_val_def)

lemma digits_value_digits [simp]: "digits_value (digits n) = n"
proof (induction n rule: digits.induct)
  case (1 n)
  show ?case
  proof (cases "n < 10")
    case True
    then show ?thesis by (subst digits.simps) (simp add: digits_value_def)
  next
    case False
    with "1.IH" show ?thesis by (subst digits.simps) simp
  qed
qed

lemma takeWhile_digits:
  "(\<forall>c \<in> set ds. is_digit c) \<Longrightarrow> (rest = [] \<or> \<not> is_digit (hd rest)) \<Longrightarrow> takeWhile is_digit (ds @ rest) = ds"
  by (cases rest) (auto simp: takeWhile_append)

lemma parse_nat_digits:
  "ds \<noteq> [] \<Longrightarrow> (\<forall>c \<in> set ds. is_digit c) \<Longrightarrow> (rest = [] \<or> \<not> is_digit (hd rest)) \<Longrightarrow>
     parse_nat (ds @ rest) = Some (digits_value ds)"
  using takeWhile_digits [of ds rest] by (cases ds) (simp_all add: parse_nat_def)

lemma zero_digit [simp]: "is_digit (CHR ''0'')"
  by (simp add: is_digit_def)

lemma parse_int_nonneg:
  assumes "ds \<noteq> []" "\<forall>c \<in> set ds. is_digit c" "rest = [] \<or> \<not> is_digit (hd rest)"
  shows "parse_int (ds @ rest) = Some (int (digits_value ds))"
proof -
  obtain c cs where ds: "ds = c # cs" using assms(1) by (cases ds) auto
  then have c: "is_digit c" using assms(2) by simp
  have "dropWhile is_space (ds @ rest) = c # cs @ rest" using digit_not_space [OF c] by (simp add: ds)
  then show ?thesis using digit_not_sign [OF c] parse_nat_digits [OF assms] by (simp add: parse_int_def ds)
qed

lemma parse_int_fmt_0d:
  assumes "rest = [] \<or> \<not> is_digit (hd rest)"
  shows "parse_int (fmt_0d w x @ rest) = Some x"
proof (cases "x < 0")
  case True
  let ?ds = "replicate (w - 1 - length (digits (nat (- x)))) (CHR ''0'') @ digits (nat (- x))"
  have ds: "?ds \<noteq> []" "\<forall>c \<in> set ?ds. is_digit c" by auto
  have "dropWhile is_space (fmt_0d w x @ rest) = CHR ''-'' # (?ds @ rest)"
    using True by (simp add: fmt_0d_def is_space_def)
  then have "parse_int (fmt_0d w x @ rest) = map_option (\<lambda>n. - int n) (parse_nat (?ds @ rest))"
    by (simp add: parse_int_def)
  with True show ?thesis by (simp only: parse_nat_digits [OF ds assms]) simp
next
  case False
  let ?ds = "replicate (w - length (digits (nat x))) (CHR ''0'') @ digits (nat x)"
  have "?ds \<noteq> []" "\<forall>c \<in> set ?ds. is_digit c" by auto
  from parse_int_nonneg [OF this assms] False show ?thesis by (simp add: fmt_0d_def)
qed

lemma stoll_fmt_0d:
  "in_i64 x \<Longrightarrow> rest = [] \<or> \<not> is_digit (hd rest) \<Longrightarrow> stoll (fmt_0d w x @ rest) = Some x"
  by (simp add: stoll_def parse_int_fmt_0d checked_i64_def)

lemma stoi_fmt_0d:
  "in_i32 x \<Longrightarrow> rest = [] \<or> \<not> is_digit (hd rest) \<Longrightarrow> stoi (fmt_0d w x @ rest) = Some x"
  by (simp add: stoi_def parse_int_fmt_0d checked_i32_def)

lemma to_string_fmt: "to_string x = fmt_0d 0 x"
  by (simp add: to_string_def fmt_0d_def)

lemmas stoll_to_string = stoll_fmt_0d [where w = 0, folded to_string_fmt]
lemmas stoi_to_string = stoi_fmt_0d [where w = 0, folded to_string_fmt]

end
