(* ===== verification/RadioUtils.thy ===== *)
theory RadioUtils
  imports Text
begin

text \<open>
  The pure helpers of \<open>core/src/utils/radio_utils.cpp\<close>: the amateur bands, the display format of
  frequencies and its parser, tuning rates, span tiers, the S-meter scale and the clamping of
  the spectrum center. 32-bit and 64-bit arithmetic that the code does not guard is checked:
  \<open>None\<close> is a signed overflow.
\<close>

section \<open>Bands\<close>

record band_info =
  band_id :: int
  band_name :: string
  lower_hz :: int
  upper_hz :: int

definition band :: "int \<Rightarrow> string \<Rightarrow> int \<Rightarrow> int \<Rightarrow> band_info" where
  "band i n l u = \<lparr>band_id = i, band_name = n, lower_hz = l, upper_hz = u\<rparr>"

definition s_bands :: "band_info list" where
  "s_bands =
     [band 0 ''160m'' 1800000 2000000,
      band 1 ''80m'' 3500000 4000000,
      band 2 ''60m'' 5330500 5403500,
      band 3 ''40m'' 7000000 7300000,
      band 4 ''30m'' 10100000 10150000,
      band 5 ''20m'' 14000000 14350000,
      band 6 ''17m'' 18068000 18168000,
      band 7 ''15m'' 21000000 21450000,
      band 8 ''12m'' 24890000 24990000,
      band 9 ''10m'' 28000000 29700000,
      band 10 ''6m'' 50000000 54000000]"

definition getAllBands :: "band_info list" where
  "getAllBands = s_bands"

definition getBandById :: "int \<Rightarrow> band_info option" where
  "getBandById i = find (\<lambda>b. band_id b = i) s_bands"

definition freqToBand :: "int \<Rightarrow> int" where
  "freqToBand freq_hz =
     (case find (\<lambda>b. freq_hz \<ge> lower_hz b \<and> freq_hz \<le> upper_hz b) s_bands of
        Some b \<Rightarrow> band_id b | None \<Rightarrow> -1)"

definition isFreqInBand :: "int \<Rightarrow> int \<Rightarrow> bool" where
  "isFreqInBand freq_hz i =
     (case getBandById i of
        None \<Rightarrow> False | Some b \<Rightarrow> freq_hz \<ge> lower_hz b \<and> freq_hz \<le> upper_hz b)"

section \<open>Frequency format\<close>

definition find_first_not_of :: "char \<Rightarrow> string \<Rightarrow> nat option" where
  "find_first_not_of c s =
     (if \<forall>x \<in> set s. x = c then None else Some (length (takeWhile (\<lambda>x. x = c) s)))"

text \<open>The loop that pads to seven digits adds one zero at a time.\<close>

function pad7 :: "string \<Rightarrow> string" where
  "pad7 ds = (if length ds < 7 then pad7 (CHR ''0'' # ds) else ds)"
  by auto

termination by (relation "measure (\<lambda>ds. 7 - length ds)") auto

declare pad7.simps [simp del]

definition group_digits :: "string \<Rightarrow> string" where
  "group_digits ds =
     concat (map (\<lambda>i. let remaining = length ds - i - 1
                       in ds ! i # (if remaining > 0 \<and> remaining mod 3 = 0 then ''.'' else []))
       [0..<length ds])"

definition trim_leading_zeros :: "string \<Rightarrow> string" where
  "trim_leading_zeros s =
     (case str_find (CHR ''.'') s of
        None \<Rightarrow> s
      | Some firstDot \<Rightarrow>
          (case find_first_not_of (CHR ''0'') s of
             None \<Rightarrow> drop (firstDot - 1) s
           | Some firstNonZero \<Rightarrow>
               (if firstNonZero < firstDot then drop firstNonZero s else drop (firstDot - 1) s)))"

definition formatFrequency :: "int \<Rightarrow> string" where
  "formatFrequency freq_hz =
     (let f = (if freq_hz < 0 then 0 else freq_hz)
      in trim_leading_zeros (group_digits (pad7 (to_string f))))"

fun parse_clean :: "string \<Rightarrow> string \<Rightarrow> string option" where
  "parse_clean clean [] = Some clean"
| "parse_clean clean (c # cs) =
     (if is_digit c then parse_clean (clean @ [c]) cs
      else if c \<noteq> CHR ''.'' then None
      else parse_clean clean cs)"

definition parseFrequency :: "string \<Rightarrow> int" where
  "parseFrequency str =
     (case parse_clean [] str of
        None \<Rightarrow> -1
      | Some clean \<Rightarrow>
          (if clean = [] then -1 else (case stoll clean of None \<Rightarrow> -1 | Some v \<Rightarrow> v)))"

section \<open>Tuning rates\<close>

definition s_tuningRates :: "int list" where
  "s_tuningRates = [1, 10, 20, 50, 100, 200, 500, 1000, 2000, 5000, 10000]"

definition getTuningRates :: "int list" where
  "getTuningRates = s_tuningRates"

text \<open>\<open>std::find\<close>: the position of the first match, or the length for \<open>end()\<close>.\<close>

definition find_pos :: "'a list \<Rightarrow> 'a \<Rightarrow> nat" where
  "find_pos xs x = length (takeWhile (\<lambda>y. y \<noteq> x) xs)"

definition nextTuningRate :: "int \<Rightarrow> int" where
  "nextTuningRate current_rate =
     (let it = find_pos s_tuningRates current_rate
      in if it = length s_tuningRates then s_tuningRates ! 0
         else if it + 1 = length s_tuningRates then s_tuningRates ! 0
         else s_tuningRates ! (it + 1))"

definition prevTuningRate :: "int \<Rightarrow> int" where
  "prevTuningRate current_rate =
     (let it = find_pos s_tuningRates current_rate
      in if it = length s_tuningRates then last s_tuningRates
         else if it = 0 then last s_tuningRates
         else s_tuningRates ! (it - 1))"

section \<open>Span tiers\<close>

definition s_spanTiers :: "int list" where
  "s_spanTiers = [2000, 3000, 4000, 5000, 7000, 10000, 15000, 20000, 30000,
     50000, 75000, 100000, 150000, 200000, 300000, 500000]"

definition getSpanTiers :: "int list" where
  "getSpanTiers = s_spanTiers"

text \<open>\<open>std::abs\<close> on \<open>int32_t\<close>: the difference and the negation are checked.\<close>

definition abs_diff :: "int \<Rightarrow> int \<Rightarrow> int option" where
  "abs_diff a b = Option.bind (checked_i32 (a - b)) (\<lambda>d. checked_i32 \<bar>d\<bar>)"

primrec snap_loop :: "int \<Rightarrow> int \<Rightarrow> int \<Rightarrow> int list \<Rightarrow> int option" where
  "snap_loop span_hz closest minDiff [] = Some closest"
| "snap_loop span_hz closest minDiff (tier # tiers) =
     (case abs_diff span_hz tier of
        None \<Rightarrow> None
      | Some diff \<Rightarrow> (if diff < minDiff then snap_loop span_hz tier diff tiers
                      else snap_loop span_hz closest minDiff tiers))"

definition snapToSpanTier :: "int \<Rightarrow> int option" where
  "snapToSpanTier span_hz =
     (let closest = s_spanTiers ! 0
      in case abs_diff span_hz closest of
           None \<Rightarrow> None
         | Some minDiff \<Rightarrow> snap_loop span_hz closest minDiff s_spanTiers)"

primrec next_loop :: "int \<Rightarrow> nat list \<Rightarrow> int" where
  "next_loop current [] = last s_spanTiers"
| "next_loop current (i # is) =
     (if s_spanTiers ! i \<ge> current then s_spanTiers ! (i + 1) else next_loop current is)"

definition nextSpanTier :: "int \<Rightarrow> int" where
  "nextSpanTier current = next_loop current [0..<length s_spanTiers - 1]"

primrec prev_loop :: "int \<Rightarrow> nat list \<Rightarrow> int" where
  "prev_loop current [] = s_spanTiers ! 0"
| "prev_loop current (i # is) =
     (if s_spanTiers ! i \<le> current then s_spanTiers ! (i - 1) else prev_loop current is)"

definition prevSpanTier :: "int \<Rightarrow> int" where
  "prevSpanTier current = prev_loop current (rev [1..<length s_spanTiers])"

section \<open>S-meter\<close>

definition smeterToUnits :: "int \<Rightarrow> int \<times> int" where
  "smeterToUnits raw0 =
     (let raw = (if raw0 < 0 then 0 else raw0);
          raw = (if raw > 120 then 120 else raw)
      in if raw \<le> 54
         then (let s_unit = tdiv raw 6 in (if s_unit > 9 then 9 else s_unit, 0))
         else (let db_over = tdiv (raw - 54) 10 * 10 in (9, if db_over > 60 then 60 else db_over)))"

definition smeterToString :: "int \<Rightarrow> string" where
  "smeterToString raw =
     (case smeterToUnits raw of (s_unit, db_over) \<Rightarrow>
        if db_over > 0 then ''S9+'' @ to_string db_over else ''S'' @ to_string s_unit)"

section \<open>Center of the spectrum\<close>

definition clampCenter :: "int \<Rightarrow> int \<Rightarrow> int \<Rightarrow> int \<Rightarrow> int option" where
  "clampCenter center_hz span_hz band_lower band_upper =
     (let half_span = tdiv span_hz 2
      in Option.bind (checked_i64 (band_lower + half_span)) (\<lambda>min_center.
         Option.bind (checked_i64 (band_upper - half_span)) (\<lambda>max_center.
         if min_center > max_center
         then map_option (\<lambda>s. tdiv s 2) (checked_i64 (band_lower + band_upper))
         else if center_hz < min_center then Some min_center
         else if center_hz > max_center then Some max_center
         else Some center_hz)))"

section \<open>Bands: lemmas\<close>

lemma find_Some_eq: "find P xs = Some x \<Longrightarrow> x \<in> set xs \<and> P x"
  by (auto simp: find_Some_iff)

lemma bands_ids: "\<forall>b \<in> set s_bands. 0 \<le> band_id b \<and> (\<forall>c \<in> set s_bands. band_id b = band_id c \<longrightarrow> b = c)"
  by code_simp

lemma bands_ranges:
  "\<forall>b \<in> set s_bands. \<forall>c \<in> set s_bands. b = c \<or> upper_hz b < lower_hz c \<or> upper_hz c < lower_hz b"
  by code_simp

lemma band_ids_distinct: "b \<in> set s_bands \<Longrightarrow> c \<in> set s_bands \<Longrightarrow> band_id b = band_id c \<Longrightarrow> b = c"
  using bands_ids by blast

lemma bands_disjoint:
  "b \<in> set s_bands \<Longrightarrow> c \<in> set s_bands \<Longrightarrow> lower_hz b \<le> f \<Longrightarrow> f \<le> upper_hz b \<Longrightarrow>
     lower_hz c \<le> f \<Longrightarrow> f \<le> upper_hz c \<Longrightarrow> b = c"
  using bands_ranges by fastforce

lemma getBandById_member: "b \<in> set s_bands \<Longrightarrow> getBandById (band_id b) = Some b"
proof -
  assume b: "b \<in> set s_bands"
  then obtain c where c: "find (\<lambda>x. band_id x = band_id b) s_bands = Some c"
    by (cases "find (\<lambda>x. band_id x = band_id b) s_bands") (auto simp: find_None_iff)
  from find_Some_eq [OF c] have "c = b" by (intro band_ids_distinct) (use b in simp_all)
  with c show ?thesis by (simp add: getBandById_def)
qed

lemma freqToBand_member:
  "b \<in> set s_bands \<Longrightarrow> lower_hz b \<le> f \<Longrightarrow> f \<le> upper_hz b \<Longrightarrow> freqToBand f = band_id b"
proof -
  assume b: "b \<in> set s_bands" "lower_hz b \<le> f" "f \<le> upper_hz b"
  let ?P = "\<lambda>x. f \<ge> lower_hz x \<and> f \<le> upper_hz x"
  from b obtain c where c: "find ?P s_bands = Some c"
    by (cases "find ?P s_bands") (auto simp: find_None_iff)
  with find_Some_eq [OF c] bands_disjoint [OF b(1) _ b(2,3), of c] show ?thesis
    by (auto simp: freqToBand_def)
qed

lemma freqToBand_none: "(\<And>b. b \<in> set s_bands \<Longrightarrow> \<not> (lower_hz b \<le> f \<and> f \<le> upper_hz b)) \<Longrightarrow> freqToBand f = -1"
  by (auto simp: freqToBand_def find_None_iff split: option.splits dest!: find_Some_eq)

lemma isFreqInBand_iff:
  "isFreqInBand f i \<longleftrightarrow> (\<exists>b \<in> set s_bands. band_id b = i \<and> lower_hz b \<le> f \<and> f \<le> upper_hz b)"
proof (cases "getBandById i")
  case None
  then have "\<forall>b \<in> set s_bands. band_id b \<noteq> i" by (auto simp: getBandById_def find_None_iff)
  with None show ?thesis by (auto simp: isFreqInBand_def)
next
  case (Some b)
  then have b: "b \<in> set s_bands" "band_id b = i" by (auto simp: getBandById_def dest: find_Some_eq)
  have "c = b" if "c \<in> set s_bands" "band_id c = i" for c
    using band_ids_distinct [OF that(1) b(1)] that b by simp
  then have "(\<exists>c \<in> set s_bands. band_id c = i \<and> lower_hz c \<le> f \<and> f \<le> upper_hz c) \<longleftrightarrow>
      lower_hz b \<le> f \<and> f \<le> upper_hz b" using b by blast
  then show ?thesis by (simp add: isFreqInBand_def Some)
qed

lemma freqToBand_iff: "freqToBand f = i \<longleftrightarrow> isFreqInBand f i \<or> (i = -1 \<and> (\<forall>j. \<not> isFreqInBand f j))"
proof (cases "\<exists>b \<in> set s_bands. lower_hz b \<le> f \<and> f \<le> upper_hz b")
  case True
  then obtain b where b: "b \<in> set s_bands" "lower_hz b \<le> f" "f \<le> upper_hz b" by blast
  have "isFreqInBand f j \<longleftrightarrow> j = band_id b" for j
    unfolding isFreqInBand_iff using bands_disjoint [OF b(1) _ b(2,3)] b by blast
  with freqToBand_member [OF b] show ?thesis by auto
next
  case False
  then have "freqToBand f = -1" by (intro freqToBand_none) auto
  moreover have "\<not> isFreqInBand f j" for j using False by (auto simp: isFreqInBand_iff)
  ultimately show ?thesis by auto
qed

section \<open>The frequency format: lemmas\<close>

lemma parse_clean_eq:
  "parse_clean a s = (if \<forall>c \<in> set s. is_digit c \<or> c = CHR ''.'' then Some (a @ filter is_digit s) else None)"
  by (induction a s rule: parse_clean.induct) auto

lemma pad7_zeros: "\<exists>n. pad7 ds = replicate n (CHR ''0'') @ ds"
proof (induction ds rule: pad7.induct)
  case (1 ds)
  show ?case
  proof (cases "length ds < 7")
    case True
    from "1.IH" [OF True] obtain n where "pad7 (CHR ''0'' # ds) = replicate n (CHR ''0'') @ CHR ''0'' # ds" by auto
    with True have "pad7 ds = replicate (Suc n) (CHR ''0'') @ ds"
      by (subst pad7.simps) (simp add: replicate_app_Cons_same)
    then show ?thesis by blast
  next
    case False
    then have "pad7 ds = replicate 0 (CHR ''0'') @ ds" by (subst pad7.simps) simp
    then show ?thesis by blast
  qed
qed

lemma dot_not_digit [simp]: "\<not> is_digit (CHR ''.'')"
  by (simp add: is_digit_def)

lemma group_digits_filter:
  assumes "\<forall>c \<in> set ds. is_digit c"
  shows "filter is_digit (group_digits ds) = ds"
proof -
  have d: "is_digit (ds ! i)" if "i < length ds" for i using assms that by auto
  have "filter is_digit (group_digits ds) = concat (map (\<lambda>i. [ds ! i]) [0..<length ds])"
    unfolding group_digits_def filter_concat map_map
    by (rule arg_cong [where f = concat], rule map_cong) (auto simp: Let_def d)
  also have "\<dots> = ds" by (simp add: map_nth)
  finally show ?thesis .
qed

lemma group_digits_chars:
  "\<forall>c \<in> set ds. is_digit c \<Longrightarrow> c \<in> set (group_digits ds) \<Longrightarrow> is_digit c \<or> c = CHR ''.''"
  by (auto simp: group_digits_def Let_def split: if_splits)

lemma group_digits_last: "ds \<noteq> [] \<Longrightarrow> group_digits ds \<noteq> [] \<and> last (group_digits ds) = last ds"
  by (cases ds rule: rev_cases)
    (simp_all add: group_digits_def nth_append Let_def last_append)

text \<open>What is trimmed is a run of leading zeros, and never the last character.\<close>

lemma takeWhile_prefix_all: "k \<le> length (takeWhile P s) \<Longrightarrow> \<forall>c \<in> set (take k s). P c"
proof -
  assume "k \<le> length (takeWhile P s)"
  then have "take k s = take k (takeWhile P s)" by (metis takeWhile_eq_take min.absorb1 take_take)
  then show ?thesis by (metis in_set_takeD set_takeWhileD)
qed

lemma trim_leading_zeros_drop:
  assumes "s \<noteq> []"
  obtains k where "k < length s" "\<forall>c \<in> set (take k s). c = CHR ''0''" "trim_leading_zeros s = drop k s"
proof (cases "str_find (CHR ''.'') s")
  case None
  with assms show thesis using that [of 0] by (simp add: trim_leading_zeros_def)
next
  case (Some d)
  then have dot: "CHR ''.'' \<in> set s" and d: "d = length (takeWhile (\<lambda>x. x \<noteq> CHR ''.'') s)"
    by (auto simp: str_find_def split: if_splits)
  then have dl: "d < length s" by (simp add: length_takeWhile_less_mem)
  have ne: "find_first_not_of (CHR ''0'') s = Some (length (takeWhile (\<lambda>x. x = CHR ''0'') s))"
    using dot by (force simp: find_first_not_of_def)
  define z where "z = length (takeWhile (\<lambda>x. x = CHR ''0'') s)"
  have zeros: "\<forall>c \<in> set (take k s). c = CHR ''0''" if "k \<le> z" for k
    using takeWhile_prefix_all [of k "\<lambda>x. x = CHR ''0''" s] that by (simp add: z_def)
  show thesis
  proof (cases "z < d")
    case True
    then have "trim_leading_zeros s = drop z s" by (simp add: trim_leading_zeros_def Some ne flip: z_def)
    with True dl zeros [of z] show thesis by (intro that [of z]) simp_all
  next
    case False
    then have "trim_leading_zeros s = drop (d - 1) s" by (simp add: trim_leading_zeros_def Some ne flip: z_def)
    with False dl zeros [of "d - 1"] show thesis by (intro that [of "d - 1"]) simp_all
  qed
qed

lemma digits_value_drop_zeros:
  "\<forall>c \<in> set (take k s). c = CHR ''0'' \<Longrightarrow> digits_value (filter is_digit (drop k s)) = digits_value (filter is_digit s)"
proof -
  assume z: "\<forall>c \<in> set (take k s). c = CHR ''0''"
  then have t: "replicate (length (take k s)) (CHR ''0'') = take k s" by (rule replicate_length_same)
  have "filter is_digit s = filter is_digit (take k s) @ filter is_digit (drop k s)"
    by (metis append_take_drop_id filter_append)
  also have "filter is_digit (take k s) = replicate (length (take k s)) (CHR ''0'')"
    using arg_cong [OF t, of "filter is_digit"] by simp
  finally show ?thesis by simp
qed

lemma stoll_digits:
  assumes "ds \<noteq> []" "\<forall>c \<in> set ds. is_digit c" "in_i64 (int (digits_value ds))"
  shows "stoll ds = Some (int (digits_value ds))"
  using parse_int_nonneg [of ds "[]"] assms by (simp add: stoll_def checked_i64_def)

lemma parse_format:
  assumes "0 \<le> f" "in_i64 f"
  shows "parseFrequency (formatFrequency f) = f"
proof -
  obtain n where n: "pad7 (digits (nat f)) = replicate n (CHR ''0'') @ digits (nat f)"
    using pad7_zeros by blast
  define ds where "ds = pad7 (digits (nat f))"
  have ds: "\<forall>c \<in> set ds. is_digit c" "ds \<noteq> []" "digits_value ds = nat f" by (auto simp: ds_def n)
  obtain k where k: "k < length (group_digits ds)" "\<forall>c \<in> set (take k (group_digits ds)). c = CHR ''0''"
    "trim_leading_zeros (group_digits ds) = drop k (group_digits ds)"
    using trim_leading_zeros_drop group_digits_last [OF ds(2)] by blast
  let ?r = "drop k (group_digits ds)"
  have fmt: "formatFrequency f = ?r" using assms(1) k(3) by (simp add: formatFrequency_def to_string_def ds_def)
  have val: "digits_value (filter is_digit ?r) = nat f"
    using digits_value_drop_zeros [OF k(2)] group_digits_filter [OF ds(1)] ds(3) by simp
  have "last ?r \<in> set ?r" using k(1) by (intro last_in_set) simp
  moreover have "last ?r = last ds" using k(1) group_digits_last [OF ds(2)] by (simp only: last_drop)
  then have "is_digit (last ?r)" using ds(1) last_in_set [OF ds(2)] by metis
  ultimately have clean: "filter is_digit ?r \<noteq> []" unfolding filter_empty_conv by blast
  have "\<forall>c \<in> set (filter is_digit ?r). is_digit c" by simp
  moreover have "int (digits_value (filter is_digit ?r)) = f" unfolding val using assms(1) by simp
  ultimately have "stoll (filter is_digit ?r) = Some f"
    using stoll_digits [OF clean] assms(2) by (simp only:)
  moreover have "\<forall>c \<in> set ?r. is_digit c \<or> c = CHR ''.''"
    using group_digits_chars [OF ds(1)] by (auto dest: in_set_dropD)
  then have "parse_clean [] ?r = Some (filter is_digit ?r)" by (simp add: parse_clean_eq)
  ultimately show ?thesis using clean by (simp add: parseFrequency_def fmt)
qed

section \<open>Span tiers: lemmas\<close>

lemma abs_diff_Some: "in_i32 (a - b) \<Longrightarrow> a - b \<noteq> -2147483648 \<Longrightarrow> abs_diff a b = Some \<bar>a - b\<bar>"
  by (cases "0 \<le> a - b") (simp_all add: abs_diff_def checked_i32_def in_i32_def)

text \<open>The loop returns the nearest of the tiers seen, the earliest one on a tie.\<close>

lemma snap_loop_nearest:
  "\<forall>t \<in> set tiers. abs_diff x t = Some \<bar>x - t\<bar> \<Longrightarrow>
     \<exists>r. snap_loop x c \<bar>x - c\<bar> tiers = Some r \<and> r \<in> insert c (set tiers) \<and>
         (\<forall>t \<in> insert c (set tiers). \<bar>x - r\<bar> \<le> \<bar>x - t\<bar>)"
proof (induction tiers arbitrary: c)
  case Nil
  then show ?case by simp
next
  case (Cons t ts)
  show ?case
  proof (cases "\<bar>x - t\<bar> < \<bar>x - c\<bar>")
    case True
    with Cons.IH [of t] Cons.prems obtain r where "snap_loop x t \<bar>x - t\<bar> ts = Some r"
      "r \<in> insert t (set ts)" "\<forall>u \<in> insert t (set ts). \<bar>x - r\<bar> \<le> \<bar>x - u\<bar>" by auto
    with True Cons.prems show ?thesis by (intro exI [of _ r]) auto
  next
    case False
    with Cons.IH [of c] Cons.prems obtain r where "snap_loop x c \<bar>x - c\<bar> ts = Some r"
      "r \<in> insert c (set ts)" "\<forall>u \<in> insert c (set ts). \<bar>x - r\<bar> \<le> \<bar>x - u\<bar>" by auto
    with False Cons.prems show ?thesis by (intro exI [of _ r]) auto
  qed
qed

lemma snap_nearest:
  assumes "in_i32 x" "-2146983648 < x"
  shows "\<exists>r. snapToSpanTier x = Some r \<and> r \<in> set s_spanTiers \<and> (\<forall>t \<in> set s_spanTiers. \<bar>x - r\<bar> \<le> \<bar>x - t\<bar>)"
proof -
  have tiers: "\<forall>t \<in> set s_spanTiers. 2000 \<le> t \<and> t \<le> 500000" by code_simp
  have d: "\<forall>t \<in> set s_spanTiers. abs_diff x t = Some \<bar>x - t\<bar>"
  proof
    fix t assume "t \<in> set s_spanTiers"
    with tiers assms show "abs_diff x t = Some \<bar>x - t\<bar>"
      by (intro abs_diff_Some) (auto simp: in_i32_def)
  qed
  have "s_spanTiers ! 0 \<in> set s_spanTiers" by (simp add: s_spanTiers_def)
  with d snap_loop_nearest [OF d, of "s_spanTiers ! 0"] show ?thesis
    by (auto simp: snapToSpanTier_def insert_absorb)
qed

text \<open>The two zoom steps as tables.\<close>

lemma span_indices: "[0..<length s_spanTiers - 1] = [0, 1, 2, 3, 4, 5, 6, 7, 8, 9, 10, 11, 12, 13, 14]"
    "rev [1..<length s_spanTiers] = [15, 14, 13, 12, 11, 10, 9, 8, 7, 6, 5, 4, 3, 2, 1]"
  by code_simp+

lemma nextSpanTier_table: "nextSpanTier x =
    (if x \<le> 2000 then 3000 else if x \<le> 3000 then 4000 else if x \<le> 4000 then 5000 else
     if x \<le> 5000 then 7000 else if x \<le> 7000 then 10000 else
     if x \<le> 10000 then 15000 else if x \<le> 15000 then 20000 else
     if x \<le> 20000 then 30000 else if x \<le> 30000 then 50000 else
     if x \<le> 50000 then 75000 else if x \<le> 75000 then 100000 else
     if x \<le> 100000 then 150000 else if x \<le> 150000 then 200000 else
     if x \<le> 200000 then 300000 else if x \<le> 300000 then 500000 else 500000)"
  unfolding nextSpanTier_def span_indices by (simp add: s_spanTiers_def)

lemma prevSpanTier_table: "prevSpanTier x =
    (if 500000 \<le> x then 300000 else if 300000 \<le> x then 200000 else
     if 200000 \<le> x then 150000 else if 150000 \<le> x then 100000 else
     if 100000 \<le> x then 75000 else if 75000 \<le> x then 50000 else
     if 50000 \<le> x then 30000 else if 30000 \<le> x then 20000 else
     if 20000 \<le> x then 15000 else if 15000 \<le> x then 10000 else
     if 10000 \<le> x then 7000 else if 7000 \<le> x then 5000 else if 5000 \<le> x then 4000 else
     if 4000 \<le> x then 3000 else if 3000 \<le> x then 2000 else 2000)"
  unfolding prevSpanTier_def span_indices by (simp add: s_spanTiers_def)

section \<open>Tuning rates and S-meter: lemmas\<close>

lemma tuning_rate_table:
  "nextTuningRate 1 = 10" "prevTuningRate 10 = 1"
  "nextTuningRate 10 = 20" "prevTuningRate 20 = 10"
  "nextTuningRate 20 = 50" "prevTuningRate 50 = 20"
  "nextTuningRate 50 = 100" "prevTuningRate 100 = 50"
  "nextTuningRate 100 = 200" "prevTuningRate 200 = 100"
  "nextTuningRate 200 = 500" "prevTuningRate 500 = 200"
  "nextTuningRate 500 = 1000" "prevTuningRate 1000 = 500"
  "nextTuningRate 1000 = 2000" "prevTuningRate 2000 = 1000"
  "nextTuningRate 2000 = 5000" "prevTuningRate 5000 = 2000"
  "nextTuningRate 5000 = 10000" "prevTuningRate 10000 = 5000"
  "nextTuningRate 10000 = 1" "prevTuningRate 1 = 10000"
  by (simp_all add: nextTuningRate_def prevTuningRate_def find_pos_def s_tuningRates_def)

lemma smeter_table: "smeterToUnits a =
    (if a \<le> 0 then (0, 0) else if a \<le> 54 then (a div 6, 0)
     else if a \<le> 120 then (9, (a - 54) div 10 * 10) else (9, 60))"
proof -
  have "a div 6 \<le> 9" if "a \<le> 54" using zdiv_mono1 [OF that, of 6] by simp
  moreover have "(a - 54) div 10 * 10 \<le> 60" if "a \<le> 120" using zdiv_mono1 [of "a - 54" 66 10] that by simp
  ultimately show ?thesis by (auto simp: smeterToUnits_def Let_def)
qed

text \<open>
  The band of a frequency is the one whose limits contain it, and -1 exactly when no band
  does; no frequency is in two bands.
\<close>

theorem band_of_frequency:
  "freqToBand f = i \<longleftrightarrow> isFreqInBand f i \<or> (i = -1 \<and> (\<forall>j. \<not> isFreqInBand f j))"
  by (rule freqToBand_iff)

text \<open>
  C20. Every 64-bit frequency from 0 on is displayed in a form that parses back to it.
\<close>

theorem frequency_round_trip:
  assumes "0 \<le> f" and "f \<le> 9223372036854775807"
  shows "parseFrequency (formatFrequency f) = f"
  using assms by (intro parse_format) (simp_all add: in_i64_def)

theorem frequency_round_trip_witness:
  "formatFrequency 14225000 = ''14.225.000'' \<and> parseFrequency (formatFrequency 14225000) = 14225000"
proof -
  have "formatFrequency 14225000 = ''14.225.000''" by code_simp
  with frequency_round_trip [of 14225000] show ?thesis by simp
qed

text \<open>
  The S-meter scale is monotone in the raw value, S-units run from 0 to 9, and decibels over
  S9 are a multiple of ten up to 60 that is positive only at S9.
\<close>

theorem smeter_monotone:
  assumes "a \<le> b"
  shows "fst (smeterToUnits a) \<le> fst (smeterToUnits b) \<and> snd (smeterToUnits a) \<le> snd (smeterToUnits b) \<and>
         fst (smeterToUnits a) \<in> {0..9} \<and> snd (smeterToUnits a) \<in> {0, 10, 20, 30, 40, 50, 60} \<and>
         (snd (smeterToUnits a) = 0 \<or> fst (smeterToUnits a) = 9)"
proof -
  have mono: "0 \<le> x \<Longrightarrow> x \<le> y \<Longrightarrow> 0 \<le> x div c \<and> x div c \<le> y div c" if "0 < c" for x y c :: int
    using that by (simp add: zdiv_mono1 pos_imp_zdiv_nonneg_iff)
  have le: "x div 6 \<le> 9" if "x \<le> 54" for x :: int using zdiv_mono1 [OF that, of 6] by simp
  have over: "(x - 54) div 10 \<in> {0, 1, 2, 3, 4, 5, 6}" if "54 < x" "x \<le> 120" for x :: int
    using mono [of 10 "x - 54" 66] that by auto
  have "fst (smeterToUnits a) \<le> fst (smeterToUnits b)"
    using assms mono [of 6 a b] mono [of 6 0 b] le [of a] by (simp add: smeter_table)
  moreover have "snd (smeterToUnits a) \<le> snd (smeterToUnits b)"
    using assms mono [of 10 "a - 54" "b - 54"] mono [of 10 0 "b - 54"] over [of a] by (auto simp: smeter_table)
  moreover have "fst (smeterToUnits a) \<in> {0..9}"
    using mono [of 6 0 a] le [of a] by (simp add: smeter_table)
  moreover have "snd (smeterToUnits a) \<in> {0, 10, 20, 30, 40, 50, 60}"
    using over [of a] by (auto simp: smeter_table)
  moreover have "snd (smeterToUnits a) = 0 \<or> fst (smeterToUnits a) = 9" by (simp add: smeter_table)
  ultimately show ?thesis by blast
qed

theorem smeter_monotone_witness:
  "fst (smeterToUnits 30) = 5 \<and> smeterToUnits 95 = (9, 40) \<and> fst (smeterToUnits 30) \<le> fst (smeterToUnits 95)"
proof -
  have "smeterToUnits 30 = (5, 0)" "smeterToUnits 95 = (9, 40)" by (simp_all add: smeter_table)
  with smeter_monotone [of 30 95] show ?thesis by simp
qed

text \<open>
  The tuning rates form one cycle of eleven: from a supported rate, next and previous stay in
  the list and undo each other, and eleven steps come back to the start.
\<close>

theorem tuning_rate_cycle:
  assumes "r \<in> set getTuningRates"
  shows "nextTuningRate r \<in> set getTuningRates \<and> prevTuningRate (nextTuningRate r) = r \<and>
         nextTuningRate (prevTuningRate r) = r \<and> (nextTuningRate ^^ 11) r = r"
  using assms unfolding getTuningRates_def s_tuningRates_def
  by (auto simp: tuning_rate_table numeral_eq_Suc)

theorem tuning_rate_cycle_witness:
  "nextTuningRate 10000 = 1 \<and> prevTuningRate (nextTuningRate 10000) = 10000"
proof -
  have "10000 \<in> set getTuningRates" by (simp add: getTuningRates_def s_tuningRates_def)
  with tuning_rate_cycle [of 10000] show ?thesis by (simp add: tuning_rate_table)
qed

text \<open>
  Snapping returns a supported span at the least distance, without overflow, for every
  request above \<open>-2 ^ 31 + 500000\<close>.
\<close>

theorem snap_is_nearest:
  assumes "-2146983648 < x" and "x \<le> 2147483647"
  shows "\<exists>r. snapToSpanTier x = Some r \<and> r \<in> set getSpanTiers \<and>
             (\<forall>t. t \<in> set getSpanTiers \<longrightarrow> \<bar>x - r\<bar> \<le> \<bar>x - t\<bar>)"
  using snap_nearest [of x] assms by (auto simp: in_i32_def getSpanTiers_def)

theorem snap_is_nearest_witness:
  "\<exists>r. snapToSpanTier 6001 = Some r \<and> r \<in> set getSpanTiers \<and> \<bar>6001 - r\<bar> \<le> \<bar>6001 - 7000\<bar>"
proof -
  have "7000 \<in> set getSpanTiers" by code_simp
  with snap_is_nearest [of 6001] show ?thesis by auto
qed

text \<open>
  Zooming: on the supported spans next and previous are the neighbours in the list and stop
  at its ends, so they undo each other in between; from any span inside the range the next is
  wider and the previous narrower.
\<close>

theorem span_steps:
  assumes "2000 \<le> x" and "x \<le> 500000"
  shows "nextSpanTier x \<in> set getSpanTiers \<and> prevSpanTier x \<in> set getSpanTiers \<and>
         (x < nextSpanTier x \<or> x = 500000) \<and> (prevSpanTier x < x \<or> x = 2000) \<and>
         (x = 2000 \<or> x \<notin> set getSpanTiers \<or> nextSpanTier (prevSpanTier x) = x)"
proof -
  note tiers = getSpanTiers_def s_spanTiers_def
  have "nextSpanTier x \<in> set getSpanTiers" unfolding nextSpanTier_table by (simp add: tiers)
  moreover have "prevSpanTier x \<in> set getSpanTiers" unfolding prevSpanTier_table by (simp add: tiers)
  moreover have "x < nextSpanTier x" if "x < 500000" using that unfolding nextSpanTier_table by simp
  moreover have "prevSpanTier x < x" if "2000 < x" using that unfolding prevSpanTier_table by simp
  moreover have "nextSpanTier (prevSpanTier x) = x" if "x \<in> set getSpanTiers" "x \<noteq> 2000"
    using that unfolding tiers by (elim set_ConsD [elim_format] disjE)
      (auto simp: nextSpanTier_table prevSpanTier_table)
  ultimately show ?thesis using assms by force
qed

theorem span_steps_witness:
  "nextSpanTier 5000 = 7000 \<and> prevSpanTier 7000 = 5000 \<and> (5000 < nextSpanTier 5000 \<or> (5000::int) = 500000)"
  using span_steps [of 5000] by (simp add: nextSpanTier_table prevSpanTier_table)

text \<open>
  Scrolling: when the span fits the band the clamped center keeps the whole displayed range
  inside the band and leaves a center that already does so alone; otherwise it is the middle of
  the band. Nothing overflows for band edges below \<open>2 ^ 62\<close> in size.
\<close>

theorem clamp_center_in_band:
  assumes "0 \<le> span" and "in_i32 span" and "0 \<le> lo" and "lo \<le> hi" and "hi < 2 ^ 62"
  shows "\<exists>c. clampCenter x span lo hi = Some c \<and>
           (if 2 * (span div 2) \<le> hi - lo
            then lo \<le> c - span div 2 \<and> c + span div 2 \<le> hi \<and>
                 (c = x \<or> x - span div 2 < lo \<or> hi < x + span div 2)
            else c = (lo + hi) div 2)"
proof -
  have h: "0 \<le> span div 2" "span div 2 \<le> 1073741823" using assms(1,2) by (simp_all add: in_i32_def)
  then have "checked_i64 (lo + span div 2) = Some (lo + span div 2)"
    "checked_i64 (hi - span div 2) = Some (hi - span div 2)" "checked_i64 (lo + hi) = Some (lo + hi)"
    using assms by (simp_all add: checked_i64_def in_i64_def)
  then show ?thesis using assms(1,3,4) h by (auto simp: clampCenter_def Let_def)
qed

theorem clamp_center_in_band_witness:
  "clampCenter 14340000 100000 14000000 14350000 = Some 14300000 \<and>
   (\<exists>c. clampCenter 14340000 100000 14000000 14350000 = Some c \<and> c + 50000 \<le> (14350000::int))"
proof -
  have "clampCenter 14340000 100000 14000000 14350000 = Some 14300000" by code_simp
  with clamp_center_in_band [of 100000 14000000 14350000 14340000] show ?thesis by (simp add: in_i32_def)
qed

end
