(* ===== verification/Float64.thy ===== *)
theory Float64
  imports Prelude Complex_Main "HOL-Library.Log_Nat"
begin

text \<open>
  IEEE 754 double precision as the code uses it: finite values are rationals, every operation
  rounds the exact result to 53 significant bits, to nearest with ties to even, with gradual
  underflow below \<open>2 ^ -1022\<close>. An infinite result (\<open>2 ^ 1024\<close> or more) is \<open>None\<close>, as is a conversion to an integer type that
  cannot hold the value (undefined behaviour in C++). The main facts: small integers are exact and
  the relative error of a normal result is at most \<open>2 ^ -53\<close>.
\<close>

section \<open>Rounding\<close>

definition ilog2 :: "rat \<Rightarrow> int" where
  "ilog2 x =
     (case quotient_of x of (n, d) \<Rightarrow>
        let e = bitlen n - bitlen d in if 2 powi e \<le> x then e else e - 1)"

text \<open>Round half to even.\<close>

definition rne :: "rat \<Rightarrow> int" where
  "rne y =
     (let f = \<lfloor>y\<rfloor>; r = y - of_int f
      in if r < 1 / 2 then f else if r > 1 / 2 then f + 1 else if even f then f else f + 1)"

definition ulp_exp :: "rat \<Rightarrow> int" where
  "ulp_exp x = max (ilog2 \<bar>x\<bar> - 52) (-1074)"

definition rnd :: "rat \<Rightarrow> rat option" where
  "rnd x =
     (if x = 0 then Some 0
      else let q = ulp_exp x; r = of_int (rne (x / 2 powi q)) * 2 powi q
           in if r \<noteq> 0 \<and> ilog2 \<bar>r\<bar> \<ge> 1024 then None else Some r)"

section \<open>Operations\<close>

definition f_add :: "rat \<Rightarrow> rat \<Rightarrow> rat option" where
  "f_add a b = rnd (a + b)"

definition f_mul :: "rat \<Rightarrow> rat \<Rightarrow> rat option" where
  "f_mul a b = rnd (a * b)"

definition f_div :: "rat \<Rightarrow> rat \<Rightarrow> rat option" where
  "f_div a b = (if b = 0 then None else rnd (a / b))"

definition f_of_int :: "int \<Rightarrow> rat option" where
  "f_of_int k = rnd (of_int k)"

text \<open>\<open>static_cast\<close> to an integer type truncates towards zero.\<close>

definition trunc :: "rat \<Rightarrow> int" where
  "trunc x = (if 0 \<le> x then \<lfloor>x\<rfloor> else \<lceil>x\<rceil>)"

definition f_to_i64 :: "rat \<Rightarrow> int option" where
  "f_to_i64 x = checked_i64 (trunc x)"

definition f_to_i32 :: "rat \<Rightarrow> int option" where
  "f_to_i32 x = checked_i32 (trunc x)"

section \<open>The exponent\<close>

lemma powi_pos [simp]: "0 < (2 powi e :: rat)"
  by simp

lemma powi_less: "a < b \<Longrightarrow> (2 powi a :: rat) < 2 powi b"
  by (rule power_int_strict_increasing) simp_all

lemma powi_le: "a \<le> b \<Longrightarrow> (2 powi a :: rat) \<le> 2 powi b"
  by (rule power_int_increasing) simp_all

lemma powi_1: "(2 powi (e + 1) :: rat) = 2 * 2 powi e"
  by (simp add: power_int_add)

lemma powi_m1: "2 * (2 powi (e - 1) :: rat) = 2 powi e"
  by (simp add: power_int_diff)

lemma bitlen_bounds_rat:
  assumes "0 < n"
  shows "2 powi (bitlen n - 1) \<le> (of_int n :: rat)" "(of_int n :: rat) < 2 powi (bitlen n)"
proof -
  have l: "0 < bitlen n" using assms bitlen_nonneg [of n] bitlen_eq_zero_iff [of n] by linarith
  have b: "2 ^ nat (bitlen n - 1) \<le> n" "n < 2 ^ nat (bitlen n)" using bitlen_bounds [OF assms] by auto
  have "(of_int (2 ^ nat (bitlen n - 1)) :: rat) \<le> of_int n" using b(1) by (simp only: of_int_le_iff)
  then show "2 powi (bitlen n - 1) \<le> (of_int n :: rat)" using l by (simp add: power_int_def)
  have "(of_int n :: rat) < of_int (2 ^ nat (bitlen n))" using b(2) by (simp only: of_int_less_iff)
  then show "(of_int n :: rat) < 2 powi (bitlen n)" using l by (simp add: power_int_def)
qed

lemma ilog2_bounds:
  assumes "0 < x"
  shows "2 powi (ilog2 x) \<le> x \<and> x < 2 powi (ilog2 x + 1)"
proof -
  obtain n d where nd: "quotient_of x = (n, d)" by (cases "quotient_of x")
  have d: "0 < d" using quotient_of_denom_pos [OF nd] .
  have x: "x = of_int n / of_int d" using quotient_of_div [OF nd] .
  then have n: "0 < n" using assms d by (simp add: zero_less_divide_iff)
  define e where "e = bitlen n - bitlen d"
  have "x < 2 powi (bitlen n) / 2 powi (bitlen d - 1)"
    unfolding x using bitlen_bounds_rat [OF n] bitlen_bounds_rat [OF d] n by (intro frac_less) simp_all
  then have up: "x < 2 powi (e + 1)" by (simp add: e_def power_int_diff power_int_add)
  have "2 powi (bitlen n - 1) / 2 powi (bitlen d) < x"
    unfolding x using bitlen_bounds_rat [OF n] bitlen_bounds_rat [OF d] n d
    by (intro frac_less2) simp_all
  then have lo: "2 powi (e - 1) < x" by (simp add: e_def power_int_diff)
  show ?thesis
  proof (cases "2 powi e \<le> x")
    case True
    then have "ilog2 x = e" by (simp add: ilog2_def nd e_def)
    with True up show ?thesis by simp
  next
    case False
    then have "ilog2 x = e - 1" by (simp add: ilog2_def nd e_def)
    with False lo show ?thesis by simp
  qed
qed

lemma ilog2_le: "0 < x \<Longrightarrow> x < 2 powi (e + 1) \<Longrightarrow> ilog2 x \<le> e"
proof (rule ccontr)
  assume *: "0 < x" "x < 2 powi (e + 1)" "\<not> ilog2 x \<le> e"
  then have "(2 powi (e + 1) :: rat) \<le> 2 powi (ilog2 x)" by (intro powi_le) simp
  with * ilog2_bounds [of x] show False by simp
qed

section \<open>Error bounds and exactness\<close>

lemma rne_error: "\<bar>of_int (rne y) - y\<bar> \<le> 1 / 2"
proof -
  have "of_int \<lfloor>y\<rfloor> \<le> y" "y < of_int \<lfloor>y\<rfloor> + 1" by linarith+
  then show ?thesis by (auto simp: rne_def Let_def)
qed

lemma rne_of_int [simp]: "rne (of_int k) = k"
  by (simp add: rne_def)

lemma rnd_0 [simp]: "rnd 0 = Some 0"
  by (simp add: rnd_def)

text \<open>A normal result has relative error at most \<open>2 ^ -53\<close>.\<close>

lemma rnd_error:
  assumes x: "2 powi (-1022) \<le> \<bar>x\<bar>" "\<bar>x\<bar> \<le> 2 ^ 1000"
  obtains r where "rnd x = Some r" "\<bar>r - x\<bar> \<le> \<bar>x\<bar> / 2 ^ 53"
proof -
  have pos: "0 < \<bar>x\<bar>" using x(1) powi_pos [of "-1022"] by linarith
  define q where "q = ulp_exp x"
  define r where "r = of_int (rne (x / 2 powi q)) * (2 powi q :: rat)"
  have "\<not> ilog2 \<bar>x\<bar> + 1 \<le> -1022"
  proof
    assume "ilog2 \<bar>x\<bar> + 1 \<le> -1022"
    then have "(2 powi (ilog2 \<bar>x\<bar> + 1) :: rat) \<le> 2 powi (-1022)" by (rule powi_le)
    with ilog2_bounds [OF pos] x(1) show False by linarith
  qed
  then have q: "q = ilog2 \<bar>x\<bar> - 52" by (simp add: q_def ulp_exp_def)
  have "(2 powi q :: rat) = 2 powi (ilog2 \<bar>x\<bar>) / 2 ^ 52"
    by (simp add: q power_int_diff)
  then have ulp: "(2 powi q :: rat) \<le> \<bar>x\<bar> / 2 ^ 52"
    using ilog2_bounds [OF pos] by (simp add: divide_right_mono)
  have "r - x = (of_int (rne (x / 2 powi q)) - x / 2 powi q) * 2 powi q"
    by (simp add: r_def algebra_simps)
  then have "\<bar>r - x\<bar> = \<bar>of_int (rne (x / 2 powi q)) - x / 2 powi q\<bar> * 2 powi q"
    by (simp add: abs_mult)
  also have "\<dots> \<le> 1 / 2 * 2 powi q" using rne_error by (intro mult_right_mono) auto
  finally have err: "\<bar>r - x\<bar> \<le> \<bar>x\<bar> / 2 ^ 53" using ulp by simp
  moreover have "rnd x = Some r"
  proof -
    have "\<bar>x\<bar> / 2 ^ 53 \<le> \<bar>x\<bar>" by (simp add: divide_le_eq)
    with err have "\<bar>r\<bar> \<le> 2 * \<bar>x\<bar>" by linarith
    also have "\<dots> < 2 powi (1023 + 1)" using x(2) by simp
    finally have "r = 0 \<or> ilog2 \<bar>r\<bar> \<le> 1023" using ilog2_le [of "\<bar>r\<bar>" 1023] by fastforce
    then show ?thesis using pos by (auto simp: rnd_def r_def q_def Let_def)
  qed
  ultimately show thesis using that by blast
qed

text \<open>Integers of up to 53 bits are exact.\<close>

lemma rnd_int:
  assumes "\<bar>k\<bar> < 2 ^ 53"
  shows "rnd (of_int k) = Some (of_int k)"
proof (cases "k = 0")
  case False
  have "(of_int \<bar>k\<bar> :: rat) < of_int (2 ^ 53)" using assms by (simp only: of_int_less_iff)
  then have small: "\<bar>of_int k :: rat\<bar> < 2 powi (52 + 1)" by simp
  with False have i: "ilog2 \<bar>of_int k\<bar> \<le> 52" by (intro ilog2_le) simp_all
  then obtain j where j: "ulp_exp (of_int k) = - int j"
    by (intro that [of "nat (- ulp_exp (of_int k))"]) (use i in \<open>simp add: ulp_exp_def\<close>)
  have "(of_int k :: rat) / 2 powi (- int j) = of_int (k * 2 ^ j)" by (simp add: power_int_minus field_simps)
  then have "rne (of_int k / 2 powi (- int j)) = k * 2 ^ j" by (simp only: rne_of_int)
  then have "of_int (rne (of_int k / 2 powi (- int j))) * 2 powi (- int j) = (of_int k :: rat)"
    by (simp add: power_int_minus)
  moreover have "ilog2 \<bar>of_int k\<bar> < 1024" using i by simp
  ultimately show ?thesis using False by (auto simp: rnd_def j Let_def)
qed simp

lemma f_of_int_exact: "\<bar>k\<bar> < 2 ^ 53 \<Longrightarrow> f_of_int k = Some (of_int k)"
  by (simp add: f_of_int_def rnd_int)

lemma trunc_of_int [simp]: "trunc (of_int k) = k"
  by (simp add: trunc_def)

lemma trunc_eq: "of_int k \<le> x \<Longrightarrow> x < of_int k + 1 \<Longrightarrow> 0 \<le> k \<Longrightarrow> trunc x = k"
proof -
  assume *: "of_int k \<le> x" "x < of_int k + 1" "0 \<le> k"
  then have "0 \<le> x" by (meson of_int_0_le_iff order_trans)
  with * show ?thesis by (simp add: trunc_def floor_unique)
qed

end
