(* ===== verification/FreqPixel.thy ===== *)
theory FreqPixel
  imports RadioUtils Float64
begin

text \<open>
  The helpers of \<open>core/src/utils/radio_utils.cpp\<close> that compute in double precision: the parser of
  a kHz entry and the two maps between frequencies and pixels of the spectrum. \<open>None\<close> is
  undefined behaviour: a signed overflow or a conversion to an integer that is out of range.
\<close>

section \<open>Operations\<close>

fun clean_khz :: "string \<Rightarrow> bool \<Rightarrow> string \<Rightarrow> string option" where
  "clean_khz clean hasDot [] = Some clean"
| "clean_khz clean hasDot (c # cs) =
     (if is_digit c then clean_khz (clean @ [c]) hasDot cs
      else if c = CHR ''.'' \<and> \<not> hasDot then clean_khz (clean @ [c]) True cs
      else None)"

text \<open>
  \<open>std::stod\<close> on what \<open>clean_khz\<close> lets through, digits with at most one period: the nearest
  double. No digit, an overflow and an underflow throw.
\<close>

definition decimal_to_double :: "nat \<Rightarrow> nat \<Rightarrow> rat option" where
  "decimal_to_double n k =
     (let x = of_nat n / 10 ^ k in if x \<noteq> 0 \<and> x < 2 powi (-1022) then None else rnd x)"

definition stod :: "string \<Rightarrow> rat option" where
  "stod s =
     (let i = takeWhile is_digit s;
          f = (case dropWhile is_digit s of
                 [] \<Rightarrow> []
               | c # r \<Rightarrow> (if c = CHR ''.'' then takeWhile is_digit r else []))
      in if i @ f = [] then None else decimal_to_double (digits_value (i @ f)) (length f))"

definition khz_to_hz :: "rat \<Rightarrow> int option" where
  "khz_to_hz khz = Option.bind (f_mul khz 1000) (\<lambda>p. Option.bind (f_add p (1 / 2)) f_to_i64)"

definition parseFrequencyKhz :: "string \<Rightarrow> int option" where
  "parseFrequencyKhz str =
     (case clean_khz [] False str of
        None \<Rightarrow> Some (-1)
      | Some clean \<Rightarrow>
          (if clean = [] then Some (-1)
           else (case stod clean of None \<Rightarrow> Some (-1) | Some khz \<Rightarrow> khz_to_hz khz)))"

definition pixelToFreq :: "int \<Rightarrow> int \<Rightarrow> int \<Rightarrow> int \<Rightarrow> int option" where
  "pixelToFreq x_pixel width center_hz span_hz =
     (if width \<le> 0 then Some center_hz
      else Option.bind (f_of_int x_pixel) (\<lambda>x.
           Option.bind (f_of_int width) (\<lambda>w.
           Option.bind (f_div x w) (\<lambda>ratio.
           Option.bind (f_of_int span_hz) (\<lambda>s.
           Option.bind (f_mul ratio s) (\<lambda>p.
           Option.bind (f_to_i64 p) (\<lambda>offset.
           Option.bind (checked_i64 (center_hz - tdiv span_hz 2)) (\<lambda>base.
           checked_i64 (base + offset)))))))))"

definition freqToPixel :: "int \<Rightarrow> int \<Rightarrow> int \<Rightarrow> int \<Rightarrow> int option" where
  "freqToPixel freq_hz width center_hz span_hz =
     (if span_hz \<le> 0 then Some (tdiv width 2)
      else Option.bind (checked_i64 (center_hz - tdiv span_hz 2)) (\<lambda>base.
           Option.bind (checked_i64 (freq_hz - base)) (\<lambda>d.
           Option.bind (f_of_int d) (\<lambda>offset.
           Option.bind (f_of_int span_hz) (\<lambda>s.
           Option.bind (f_div offset s) (\<lambda>ratio.
           Option.bind (f_of_int width) (\<lambda>w.
           Option.bind (f_mul ratio w) f_to_i32)))))))"

section \<open>The kHz entry\<close>

lemma rnd_error_nat:
  assumes "0 \<le> x" "x = 0 \<or> 1 / 2 ^ 100 \<le> x" "x \<le> 2 ^ 100"
  obtains r where "rnd x = Some r" "\<bar>r - x\<bar> \<le> x / 2 ^ 53"
proof (cases "x = 0")
  case False
  have "(2 powi (-1022) :: rat) \<le> 2 powi (-100)" by (rule powi_le) simp
  also have "\<dots> = 1 / 2 ^ 100" by (simp add: power_int_minus)
  finally have a: "2 powi (-1022) \<le> \<bar>x\<bar>" using assms(1,2) False by simp
  have "(2 ^ 100 :: rat) \<le> 2 ^ 1000" by (rule power_increasing) simp_all
  then have "\<bar>x\<bar> \<le> 2 ^ 1000" using assms(1,3) by linarith
  from rnd_error [OF a this] show thesis using that assms(1) by auto
qed (use that in simp)

lemma khz_exact:
  assumes n: "n < 2 ^ 50" and x: "x = of_nat n / 1000"
  obtains k where "rnd x = Some k" "khz_to_hz k = Some (int n)"
proof (cases "n = 0")
  case True
  have "khz_to_hz 0 = Some 0"
    by (simp add: khz_to_hz_def f_mul_def f_add_def) code_simp
  with True x that show thesis by simp
next
  case False
  let ?n = "of_nat n :: rat"
  have "n \<le> 1125899906842624" using n by simp
  then have "?n \<le> of_nat 1125899906842624" by (simp only: of_nat_le_iff)
  then have n1: "1 \<le> ?n" "?n \<le> 1125899906842624" using False by simp_all
  obtain k where k: "rnd x = Some k" "\<bar>k - x\<bar> \<le> x / 2 ^ 53"
    by (rule rnd_error_nat [of x]) (use n1 x in auto)
  have "\<bar>k - x\<bar> \<le> x / 9007199254740992" using k(2) by simp
  then have kx: "\<bar>k * 1000 - ?n\<bar> \<le> ?n / 9007199254740992" unfolding x by linarith
  then have k1000: "1 / 2 \<le> k * 1000" "k * 1000 \<le> 1125899906842625" using n1 by linarith+
  obtain p where p: "rnd (k * 1000) = Some p" "\<bar>p - k * 1000\<bar> \<le> k * 1000 / 2 ^ 53"
    by (rule rnd_error_nat [of "k * 1000"]) (use k1000 in auto)
  have "\<bar>p - k * 1000\<bar> \<le> k * 1000 / 9007199254740992" using p(2) by simp
  then have pn: "\<bar>p - ?n\<bar> \<le> 5 / 16" using kx n1 k1000 by linarith
  have q1: "0 \<le> p + 1 / 2" "1 / 2 \<le> p + 1 / 2" "p + 1 / 2 \<le> 1125899906842628" using n1 pn by linarith+
  obtain q where q: "rnd (p + 1 / 2) = Some q" "\<bar>q - (p + 1 / 2)\<bar> \<le> (p + 1 / 2) / 2 ^ 53"
    by (rule rnd_error_nat [of "p + 1 / 2"]) (use q1 in auto)
  have "\<bar>q - (p + 1 / 2)\<bar> \<le> (p + 1 / 2) / 9007199254740992" using q(2) by simp
  moreover have "(p + 1 / 2) / 9007199254740992 \<le> 1 / 7" using q1(3) by simp
  ultimately have "\<bar>q - (p + 1 / 2)\<bar> \<le> 1 / 7" by (rule order_trans)
  with pn have "?n \<le> q \<and> q < ?n + 1" unfolding abs_le_iff by linarith
  then have "of_int (int n) \<le> q" "q < of_int (int n) + 1" by simp_all
  then have "trunc q = int n" by (intro trunc_eq) simp_all
  moreover have "in_i64 (int n)" using n by (simp add: in_i64_def)
  ultimately have "khz_to_hz k = Some (int n)"
    by (simp add: khz_to_hz_def f_mul_def f_add_def f_to_i64_def p q checked_i64_def)
  with k(1) that show thesis by blast
qed

lemma clean_khz_digits:
  "\<forall>c \<in> set ds. is_digit c \<Longrightarrow> clean_khz a h (ds @ s) = clean_khz (a @ ds) h s"
  by (induction ds arbitrary: a) simp_all

lemma clean_khz_decimal:
  "\<forall>c \<in> set (ds @ fs). is_digit c \<Longrightarrow> clean_khz [] False (ds @ CHR ''.'' # fs) = Some (ds @ CHR ''.'' # fs)"
  using clean_khz_digits [of ds "[]" False "CHR ''.'' # fs"] clean_khz_digits [of fs "ds @ ''.''" True "[]"]
  by simp

lemma takeWhile_all: "\<forall>x \<in> set xs. P x \<Longrightarrow> takeWhile P xs = xs"
  by simp

lemma dropWhile_all: "\<forall>x \<in> set xs. P x \<Longrightarrow> dropWhile P xs = []"
  by simp

lemma stod_decimal:
  assumes "\<forall>c \<in> set (ds @ fs). is_digit c" "ds @ fs \<noteq> []"
  shows "stod (ds @ CHR ''.'' # fs) = decimal_to_double (digits_value (ds @ fs)) (length fs)"
proof -
  have "takeWhile is_digit (ds @ CHR ''.'' # fs) = ds"
    by (rule takeWhile_digits) (use assms in auto)
  moreover have "dropWhile is_digit (ds @ CHR ''.'' # fs) = CHR ''.'' # fs"
    using assms(1) by (simp add: dropWhile_append2)
  ultimately show ?thesis using assms by (auto simp: stod_def Let_def takeWhile_all)
qed

lemma stod_integer:
  assumes "\<forall>c \<in> set ds. is_digit c" "ds \<noteq> []"
  shows "stod ds = decimal_to_double (digits_value ds) 0"
  using assms by (simp add: stod_def Let_def takeWhile_all dropWhile_all)

lemma decimal_khz:
  assumes "v * 1000 = n * 10 ^ k" "n < 2 ^ 50"
  obtains r where "decimal_to_double v k = Some r" "khz_to_hz r = Some (int n)"
proof -
  define x where "x = (of_nat v / 10 ^ k :: rat)"
  have "(of_nat (v * 1000) :: rat) = of_nat (n * 10 ^ k)" using assms(1) by (simp only:)
  then have x: "x = of_nat n / 1000" by (simp add: x_def field_simps)
  have "\<not> (x \<noteq> 0 \<and> x < 2 powi (-1022))"
  proof (cases "n = 0")
    case False
    have "(2 powi (-1022) :: rat) \<le> 2 powi (-10)" by (rule powi_le) simp
    moreover have "(2 powi (-10) :: rat) = 1 / 1024" by (simp add: power_int_minus)
    moreover have "1 / 1000 \<le> x" using False unfolding x by (simp add: divide_right_mono)
    ultimately show ?thesis by linarith
  qed (simp add: x)
  then have "decimal_to_double v k = rnd x" 
    unfolding decimal_to_double_def Let_def x_def [symmetric] by (rule if_not_P)
  moreover obtain r where "rnd x = Some r" "khz_to_hz r = Some (int n)"
    using khz_exact [OF assms(2) x] .
  ultimately show thesis using that by simp
qed

section \<open>Pixels: lemmas\<close>

lemma i32_exact: "in_i32 k \<Longrightarrow> f_of_int k = Some (of_int k)"
  by (intro f_of_int_exact) (auto simp: in_i32_def)

lemma pixel_core:
  assumes x: "0 \<le> x" "x \<le> w" and w: "0 < w" "in_i32 w" and s: "0 \<le> s" "in_i32 s"
  obtains r p where "f_div (of_int x) (of_int w) = Some r" "f_mul r (of_int s) = Some p"
    "0 \<le> p" "p \<le> of_int s" "\<bar>p - of_int (x * s) / of_int w\<bar> \<le> 1 / 2 ^ 20"
proof -
  let ?X = "of_int x :: rat" and ?W = "of_int w :: rat" and ?S = "of_int s :: rat"
  define y where "y = ?X / ?W"
  have "w \<le> 2147483647" "s \<le> 2147483647" using w s by (simp_all add: in_i32_def)
  then have "of_int w \<le> (of_int 2147483647 :: rat)" "of_int s \<le> (of_int 2147483647 :: rat)"
    by (simp_all only: of_int_le_iff)
  then have W: "1 \<le> ?W" "?W \<le> 2147483647" and S: "0 \<le> ?S" "?S \<le> 2147483647"
    using w(1) s(1) by simp_all
  have "?X \<le> ?W" "0 \<le> ?X" using x by simp_all
  then have y: "0 \<le> y" "y \<le> 1" using W by (simp_all add: y_def)
  have y0: "x = 0 \<or> 1 / 2147483647 \<le> y"
  proof (cases "x = 0")
    case False
    then have "1 \<le> ?X" using x by simp
    then have "1 / 2147483647 \<le> ?X / ?W" using W by (intro frac_le) simp_all
    then show ?thesis by (simp add: y_def)
  qed simp
  then have "y = 0 \<or> 1 / 2 ^ 100 \<le> y" "y \<le> 2 ^ 100" using y by (auto simp: y_def)
  then obtain r where r: "rnd y = Some r" "\<bar>r - y\<bar> \<le> y / 2 ^ 53"
    using rnd_error_nat [OF y(1)] by blast
  have ry: "\<bar>r - y\<bar> \<le> y / 9007199254740992" using r(2) by simp
  have r1: "r = 1 \<or> r \<le> 1 - 1 / 4294967296"
  proof (cases "x = w")
    case True
    then have "y = 1" using W by (simp add: y_def)
    with r(1) rnd_int [of 1] show ?thesis by simp
  next
    case False
    with x have "?X + 1 \<le> ?W" by (metis of_int_1 of_int_add of_int_le_iff zless_imp_add1_zle order_le_less)
    then have "y \<le> (?W - 1) / ?W" unfolding y_def using W by (intro divide_right_mono) simp_all
    also have "\<dots> = 1 - 1 / ?W" using W by (simp add: diff_divide_distrib)
    also have "\<dots> \<le> 1 - 1 / 2147483647" using W by (simp add: frac_le)
    finally show ?thesis using ry y by linarith
  qed
  then have rle: "r \<le> 1" by linarith
  have r0: "0 \<le> r" using ry y by linarith
  have rS: "0 \<le> r * ?S" "r * ?S \<le> ?S" using r0 rle S(1) by (simp_all add: mult_left_le_one_le)
  have "r * ?S = 0 \<or> 1 / 2 ^ 100 \<le> r * ?S"
  proof (cases "x = 0 \<or> s = 0")
    case True
    then show ?thesis using ry y(1) by (auto simp: y_def)
  next
    case False
    then have "1 / 2147483647 \<le> y" "1 \<le> ?S" using y0 s(1) by auto
    then have "1 / 4294967296 * 1 \<le> r * ?S" using ry by (intro mult_mono) linarith+
    then show ?thesis by simp
  qed
  moreover have "r * ?S \<le> 2 ^ 100" using rS S(2) by simp
  ultimately obtain p where p: "rnd (r * ?S) = Some p" "\<bar>p - r * ?S\<bar> \<le> r * ?S / 2 ^ 53"
    using rnd_error_nat [OF rS(1)] by blast
  have pr: "\<bar>p - r * ?S\<bar> \<le> r * ?S / 9007199254740992" using p(2) by simp
  have "p \<le> ?S"
  proof (cases "r = 1")
    case True
    with p(1) rnd_int [of s] s show ?thesis by (simp add: in_i32_def)
  next
    case False
    with r1 have "r * ?S \<le> (1 - 1 / 4294967296) * ?S" using S(1) by (intro mult_right_mono) auto
    also have "\<dots> = ?S - ?S / 4294967296" by (simp add: left_diff_distrib)
    finally have "r * ?S \<le> ?S - ?S / 4294967296" .
    moreover have "p - r * ?S \<le> ?S / 9007199254740992" using pr rS by linarith
    ultimately show ?thesis using S(1) by linarith
  qed
  moreover have "0 \<le> p" using pr rS by linarith
  moreover have "\<bar>p - of_int (x * s) / ?W\<bar> \<le> 1 / 2 ^ 20"
  proof -
    have "\<bar>r * ?S - y * ?S\<bar> = \<bar>r - y\<bar> * ?S" using S(1) by (simp add: abs_mult flip: left_diff_distrib)
    also have "\<dots> \<le> 1 / 9007199254740992 * 2147483647" using ry y S by (intro mult_mono) linarith+
    finally have "\<bar>p - y * ?S\<bar> \<le> 1 / 1048576" using pr rS S(2) by linarith
    then show ?thesis by (simp add: y_def)
  qed
  ultimately show thesis using that [of r p] W r(1) p(1) by (simp add: f_div_def f_mul_def y_def)
qed

section \<open>Properties\<close>

text \<open>
  A kHz entry of digits, with or without a period, whose value is a whole number of Hz below
  \<open>2 ^ 50\<close> is converted to exactly that number: the three roundings never reach the next integer.
\<close>

theorem khz_entry_exact:
  assumes "\<forall>c \<in> set (ds @ fs). is_digit c" and "ds @ fs \<noteq> []"
    and "digits_value (ds @ fs) * 1000 = n * 10 ^ length fs" and "n < 2 ^ 50"
  shows "parseFrequencyKhz (ds @ CHR ''.'' # fs) = Some (int n) \<and>
         (fs = [] \<longrightarrow> parseFrequencyKhz ds = Some (int n))"
proof -
  obtain r where r: "decimal_to_double (digits_value (ds @ fs)) (length fs) = Some r" "khz_to_hz r = Some (int n)"
    by (rule decimal_khz [OF assms(3,4)])
  have "parseFrequencyKhz (ds @ CHR ''.'' # fs) = Some (int n)"
    unfolding parseFrequencyKhz_def clean_khz_decimal [OF assms(1)] by (simp add: stod_decimal [OF assms(1,2)] r)
  moreover have "parseFrequencyKhz ds = Some (int n)" if "fs = []"
    using that assms(1,2) r clean_khz_digits [of ds "[]" False "[]"]
    by (simp add: parseFrequencyKhz_def stod_integer)
  ultimately show ?thesis by blast
qed

theorem khz_entry_exact_witness:
  "parseFrequencyKhz ''14225.5'' = Some 14225500"
proof -
  have "\<forall>c \<in> set (''14225'' @ ''5''). is_digit c" "''14225'' @ ''5'' \<noteq> []"
    "digits_value (''14225'' @ ''5'') * 1000 = 14225500 * 10 ^ length ''5''" "(14225500::nat) < 2 ^ 50"
    by (simp_all add: is_digit_def digits_value_def digit_val_def)
  from khz_entry_exact [OF this] show ?thesis by simp
qed

text \<open>
  Touching pixel \<open>x\<close> of a display \<open>width\<close> pixels wide tunes inside the displayed range and at most
  1 Hz (plus \<open>2 ^ -20\<close>) away from the exact position \<open>center - span_hz / 2 + x * span_hz / width\<close>.
\<close>

theorem pixel_to_freq_accurate:
  assumes "0 \<le> x" and "x \<le> width" and "0 < width" and "in_i32 width" and "0 \<le> span_hz" and "in_i32 span_hz"
    and "\<bar>center\<bar> \<le> 2 ^ 62"
  shows "\<exists>f. pixelToFreq x width center span_hz = Some f \<and>
    center - span_hz div 2 \<le> f \<and> f \<le> center - span_hz div 2 + span_hz \<and>
    \<bar>of_int f - (of_int (center - span_hz div 2) + of_int (x * span_hz) / of_int width)\<bar> < (1 + 1 / 2 ^ 20 :: rat)"
proof -
  obtain r p where rp: "f_div (of_int x) (of_int width) = Some r" "f_mul r (of_int span_hz) = Some p"
    "0 \<le> p" "p \<le> of_int span_hz" "\<bar>p - of_int (x * span_hz) / of_int width\<bar> \<le> 1 / 2 ^ 20"
    by (rule pixel_core [OF assms(1-6)])
  define t where "t = \<lfloor>p\<rfloor>"
  have t: "0 \<le> t" "t \<le> span_hz" "of_int t \<le> p" "p < of_int t + 1"
    using rp(3,4) by (simp_all add: t_def floor_le_iff) linarith+
  have b: "span_hz \<le> 2147483647" "x \<le> 2147483647" using assms by (simp_all add: in_i32_def)
  have "f_to_i64 p = Some t"
    using rp(3) t(1,2) b by (simp add: f_to_i64_def trunc_def checked_i64_def in_i64_def flip: t_def)
  moreover have "checked_i64 (center - span_hz div 2) = Some (center - span_hz div 2)"
    "checked_i64 (center - span_hz div 2 + t) = Some (center - span_hz div 2 + t)"
    using assms(5,7) t(1,2) b by (auto simp: checked_i64_def in_i64_def)
  moreover have "in_i32 x" using assms(1) b by (simp add: in_i32_def)
  ultimately have "pixelToFreq x width center span_hz = Some (center - span_hz div 2 + t)"
    using assms(3-6) by (simp add: pixelToFreq_def i32_exact rp)
  moreover have "\<bar>p - of_int (x * span_hz) / of_int width\<bar> \<le> 1 / 1048576" using rp(5) by simp
  then have "\<bar>of_int t - of_int (x * span_hz) / of_int width\<bar> < (1 + 1 / 1048576 :: rat)" using t(3,4) by linarith
  then have "\<bar>of_int (center - span_hz div 2 + t) - (of_int (center - span_hz div 2) + of_int (x * span_hz) / of_int width)\<bar>
      < (1 + 1 / 2 ^ 20 :: rat)"
    by simp
  ultimately show ?thesis using t(1,2) by (intro exI [of _ "center - span_hz div 2 + t"]) simp
qed

theorem pixel_to_freq_accurate_witness:
  "\<exists>f. pixelToFreq 270 1080 14175000 100000 = Some f \<and> 14125000 \<le> f \<and> f \<le> 14225000"
  using pixel_to_freq_accurate [of 270 1080 100000 14175000] by (auto simp: in_i32_def)

end
