(* ===== verification/RadioState.thy ===== *)
theory RadioState
  imports Text
begin

text \<open>
  The model of the radio's state, \<open>core/src/models/radio_state.{h,cpp}\<close>: the records of its ten
  subsystems, every setter with the notification it gives, and the parser of the radio's CAT
  responses. A setter returns the new state and the keys the change callback is called with. The
  mutex makes every operation atomic, so an operation is one step. \<open>float\<close> fields are only copied
  and are kept as their 32-bit patterns.
\<close>

section \<open>The subsystems\<close>

record vfo_state =
  vfo_frequency_hz :: int
  vfo_mode :: int
  vfo_filter_bw_hz :: int
  vfo_agc_mode :: int
  vfo_smeter :: int
  vfo_tuning_rate :: int
  vfo_active :: bool
  vfo_sub_on :: bool

record tx_state =
  tx_ptt :: bool
  tx_tune :: bool
  tx_power_watts :: int
  tx_swr_x10 :: int
  tx_pa_current_ma :: int

record spectrum_state =
  sp_span_hz :: int
  sp_center_hz :: int
  sp_ref_level_db :: int
  sp_bin_count :: int

record audio_state =
  au_main_volume :: int
  au_sub_volume :: int
  au_sidetone_hz :: int
  au_jitter_ms :: int

record nr_state =
  nr_lms_enabled :: bool
  nr_lms_level :: int
  nr_ssnr_enabled :: bool
  nr_ssnr_level :: int

record cw_state =
  cw_speed_wpm :: int
  cw_iambic_mode :: int

record kpa_state =
  kpa_connected :: bool
  kpa_operate :: bool
  kpa_fwd_watts :: u32
  kpa_ref_watts :: u32
  kpa_swr :: u32
  kpa_temp_c :: u32
  kpa_band :: int
  kpa_fault_code :: int

record connection_state =
  conn_state :: int
  conn_reconnect_attempts :: int
  conn_last_keepalive_ms :: int

record cat_state =
  cat_running :: bool
  cat_client_count :: int
  cat_port :: int

record dxcluster_state =
  dx_connected :: bool
  dx_spot_count :: int

record radio_data =
  rd_vfo :: "vfo_state \<times> vfo_state"
  rd_tx :: tx_state
  rd_spectrum :: spectrum_state
  rd_audio :: audio_state
  rd_nr :: "nr_state \<times> nr_state"
  rd_cw :: cw_state
  rd_kpa :: kpa_state
  rd_connection :: connection_state
  rd_cat :: cat_state
  rd_dxcluster :: dxcluster_state

text \<open>The object: its data and whether a change callback is registered.\<close>

record radio_state =
  rs_data :: radio_data
  rs_changeCb :: bool

definition VfoState_init :: vfo_state where
  "VfoState_init = \<lparr>vfo_frequency_hz = 14225000, vfo_mode = 1, vfo_filter_bw_hz = 2800, vfo_agc_mode = 1,
     vfo_smeter = 0, vfo_tuning_rate = 100, vfo_active = True, vfo_sub_on = False\<rparr>"

definition TxState_init :: tx_state where
  "TxState_init = \<lparr>tx_ptt = False, tx_tune = False, tx_power_watts = 10, tx_swr_x10 = 10, tx_pa_current_ma = 0\<rparr>"

definition SpectrumDisplayState_init :: spectrum_state where
  "SpectrumDisplayState_init = \<lparr>sp_span_hz = 100000, sp_center_hz = 14175000, sp_ref_level_db = 0, sp_bin_count = 480\<rparr>"

definition AudioState_init :: audio_state where
  "AudioState_init = \<lparr>au_main_volume = 50, au_sub_volume = 50, au_sidetone_hz = 600, au_jitter_ms = 40\<rparr>"

definition NrState_init :: nr_state where
  "NrState_init = \<lparr>nr_lms_enabled = False, nr_lms_level = 5, nr_ssnr_enabled = False, nr_ssnr_level = 5\<rparr>"

definition CwState_init :: cw_state where
  "CwState_init = \<lparr>cw_speed_wpm = 20, cw_iambic_mode = 0\<rparr>"

definition KpaState_init :: kpa_state where
  "KpaState_init = \<lparr>kpa_connected = False, kpa_operate = False, kpa_fwd_watts = 0, kpa_ref_watts = 0,
     kpa_swr = 0x3F800000, kpa_temp_c = 0x41C80000, kpa_band = 5, kpa_fault_code = 0\<rparr>"

definition RadioStateData_init :: radio_data where
  "RadioStateData_init = \<lparr>rd_vfo = (VfoState_init, VfoState_init), rd_tx = TxState_init,
     rd_spectrum = SpectrumDisplayState_init, rd_audio = AudioState_init, rd_nr = (NrState_init, NrState_init),
     rd_cw = CwState_init, rd_kpa = KpaState_init,
     rd_connection = \<lparr>conn_state = 0, conn_reconnect_attempts = 0, conn_last_keepalive_ms = 0\<rparr>,
     rd_cat = \<lparr>cat_running = False, cat_client_count = 0, cat_port = 9299\<rparr>,
     rd_dxcluster = \<lparr>dx_connected = False, dx_spot_count = 0\<rparr>\<rparr>"

definition RadioState_new :: radio_state where
  "RadioState_new =
     \<lparr>rs_data = RadioStateData_init
        \<lparr>rd_vfo :=
           (VfoState_init\<lparr>vfo_active := True, vfo_frequency_hz := 14225000, vfo_mode := 1, vfo_tuning_rate := 100\<rparr>,
            VfoState_init\<lparr>vfo_active := False, vfo_frequency_hz := 7040000, vfo_mode := 2, vfo_tuning_rate := 100,
              vfo_sub_on := False\<rparr>)\<rparr>,
      rs_changeCb = False\<rparr>"

definition setChangeCallback :: "bool \<Rightarrow> radio_state \<Rightarrow> radio_state" where
  "setChangeCallback cb s = s\<lparr>rs_changeCb := cb\<rparr>"

section \<open>Getters\<close>

definition snapshot :: "radio_state \<Rightarrow> radio_data" where
  "snapshot s = rs_data s"

definition getVfo :: "radio_state \<Rightarrow> int \<Rightarrow> vfo_state" where
  "getVfo s vfo = arr2_get (rd_vfo (rs_data s)) vfo"

definition getTx :: "radio_state \<Rightarrow> tx_state" where
  "getTx s = rd_tx (rs_data s)"

definition getSpectrum :: "radio_state \<Rightarrow> spectrum_state" where
  "getSpectrum s = rd_spectrum (rs_data s)"

definition getAudio :: "radio_state \<Rightarrow> audio_state" where
  "getAudio s = rd_audio (rs_data s)"

definition getNr :: "radio_state \<Rightarrow> int \<Rightarrow> nr_state" where
  "getNr s receiver = arr2_get (rd_nr (rs_data s)) receiver"

definition getCw :: "radio_state \<Rightarrow> cw_state" where
  "getCw s = rd_cw (rs_data s)"

definition getKpa :: "radio_state \<Rightarrow> kpa_state" where
  "getKpa s = rd_kpa (rs_data s)"

definition getConnection :: "radio_state \<Rightarrow> connection_state" where
  "getConnection s = rd_connection (rs_data s)"

section \<open>Setters\<close>

definition notify :: "radio_state \<Rightarrow> string \<Rightarrow> string list" where
  "notify s key = (if rs_changeCb s then [key] else [])"

text \<open>The setters' common form: compare, and only on a difference store and notify.\<close>

definition change :: "radio_state \<Rightarrow> bool \<Rightarrow> (radio_data \<Rightarrow> radio_data) \<Rightarrow> string \<Rightarrow> radio_state \<times> string list" where
  "change s differs store key =
     (if differs then (s\<lparr>rs_data := store (rs_data s)\<rparr>, notify s key) else (s, []))"

definition setFrequency :: "int \<Rightarrow> int \<Rightarrow> radio_state \<Rightarrow> radio_state \<times> string list" where
  "setFrequency vfo freq_hz s =
     (let v = arr2_get (rd_vfo (rs_data s)) vfo
      in change s (vfo_frequency_hz v \<noteq> freq_hz)
           (\<lambda>d. d\<lparr>rd_vfo := arr2_put (rd_vfo d) vfo (v\<lparr>vfo_frequency_hz := freq_hz\<rparr>)\<rparr>)
           (if vfo = 0 then ''vfo.a.freq'' else ''vfo.b.freq''))"

definition setMode :: "int \<Rightarrow> int \<Rightarrow> radio_state \<Rightarrow> radio_state \<times> string list" where
  "setMode vfo mode s =
     (let v = arr2_get (rd_vfo (rs_data s)) vfo
      in change s (vfo_mode v \<noteq> mode)
           (\<lambda>d. d\<lparr>rd_vfo := arr2_put (rd_vfo d) vfo (v\<lparr>vfo_mode := mode\<rparr>)\<rparr>)
           (if vfo = 0 then ''vfo.a.mode'' else ''vfo.b.mode''))"

definition setSmeter :: "int \<Rightarrow> int \<Rightarrow> radio_state \<Rightarrow> radio_state \<times> string list" where
  "setSmeter vfo val s =
     (let v = arr2_get (rd_vfo (rs_data s)) vfo
      in change s (vfo_smeter v \<noteq> val)
           (\<lambda>d. d\<lparr>rd_vfo := arr2_put (rd_vfo d) vfo (v\<lparr>vfo_smeter := val\<rparr>)\<rparr>)
           (if vfo = 0 then ''vfo.a.smeter'' else ''vfo.b.smeter''))"

definition setTuningRate :: "int \<Rightarrow> int \<Rightarrow> radio_state \<Rightarrow> radio_state \<times> string list" where
  "setTuningRate vfo rate s =
     (let v = arr2_get (rd_vfo (rs_data s)) vfo
      in change s (vfo_tuning_rate v \<noteq> rate)
           (\<lambda>d. d\<lparr>rd_vfo := arr2_put (rd_vfo d) vfo (v\<lparr>vfo_tuning_rate := rate\<rparr>)\<rparr>)
           (if vfo = 0 then ''vfo.a.rate'' else ''vfo.b.rate''))"

definition setSubOn :: "bool \<Rightarrow> radio_state \<Rightarrow> radio_state \<times> string list" where
  "setSubOn on s =
     (let (a, b) = rd_vfo (rs_data s)
      in change s (vfo_sub_on b \<noteq> on) (\<lambda>d. d\<lparr>rd_vfo := (a, b\<lparr>vfo_sub_on := on\<rparr>)\<rparr>) ''vfo.b.sub_on'')"

definition setActiveVfo :: "int \<Rightarrow> radio_state \<Rightarrow> radio_state \<times> string list" where
  "setActiveVfo vfo s =
     (let (a, b) = rd_vfo (rs_data s); newA = (vfo = 0)
      in change s (vfo_active a \<noteq> newA)
           (\<lambda>d. d\<lparr>rd_vfo := (a\<lparr>vfo_active := newA\<rparr>, b\<lparr>vfo_active := \<not> newA\<rparr>)\<rparr>) ''vfo.active'')"

definition setPtt :: "bool \<Rightarrow> radio_state \<Rightarrow> radio_state \<times> string list" where
  "setPtt on s =
     (let t = rd_tx (rs_data s)
      in change s (tx_ptt t \<noteq> on) (\<lambda>d. d\<lparr>rd_tx := t\<lparr>tx_ptt := on\<rparr>\<rparr>) ''tx.ptt'')"

definition setTune :: "bool \<Rightarrow> radio_state \<Rightarrow> radio_state \<times> string list" where
  "setTune on s =
     (let t = rd_tx (rs_data s)
      in change s (tx_tune t \<noteq> on) (\<lambda>d. d\<lparr>rd_tx := t\<lparr>tx_tune := on\<rparr>\<rparr>) ''tx.tune'')"

definition setPower :: "int \<Rightarrow> radio_state \<Rightarrow> radio_state \<times> string list" where
  "setPower watts s =
     (let t = rd_tx (rs_data s)
      in change s (tx_power_watts t \<noteq> watts) (\<lambda>d. d\<lparr>rd_tx := t\<lparr>tx_power_watts := watts\<rparr>\<rparr>) ''tx.power'')"

definition setSwr :: "int \<Rightarrow> radio_state \<Rightarrow> radio_state \<times> string list" where
  "setSwr swr_x10 s =
     (let t = rd_tx (rs_data s)
      in change s (tx_swr_x10 t \<noteq> swr_x10) (\<lambda>d. d\<lparr>rd_tx := t\<lparr>tx_swr_x10 := swr_x10\<rparr>\<rparr>) ''tx.swr'')"

definition setSpan :: "int \<Rightarrow> radio_state \<Rightarrow> radio_state \<times> string list" where
  "setSpan span_hz s =
     (let t = rd_spectrum (rs_data s)
      in change s (sp_span_hz t \<noteq> span_hz) (\<lambda>d. d\<lparr>rd_spectrum := t\<lparr>sp_span_hz := span_hz\<rparr>\<rparr>) ''spectrum.span'')"

definition setCenter :: "int \<Rightarrow> radio_state \<Rightarrow> radio_state \<times> string list" where
  "setCenter center_hz s =
     (let t = rd_spectrum (rs_data s)
      in change s (sp_center_hz t \<noteq> center_hz) (\<lambda>d. d\<lparr>rd_spectrum := t\<lparr>sp_center_hz := center_hz\<rparr>\<rparr>) ''spectrum.center'')"

definition setRefLevel :: "int \<Rightarrow> radio_state \<Rightarrow> radio_state \<times> string list" where
  "setRefLevel ref_db s =
     (let t = rd_spectrum (rs_data s)
      in change s (sp_ref_level_db t \<noteq> ref_db) (\<lambda>d. d\<lparr>rd_spectrum := t\<lparr>sp_ref_level_db := ref_db\<rparr>\<rparr>) ''spectrum.ref'')"

definition setBinCount :: "int \<Rightarrow> radio_state \<Rightarrow> radio_state \<times> string list" where
  "setBinCount count s =
     (let t = rd_spectrum (rs_data s)
      in change s (sp_bin_count t \<noteq> count) (\<lambda>d. d\<lparr>rd_spectrum := t\<lparr>sp_bin_count := count\<rparr>\<rparr>) ''spectrum.bins'')"

definition setMainVolume :: "int \<Rightarrow> radio_state \<Rightarrow> radio_state \<times> string list" where
  "setMainVolume level s =
     (let t = rd_audio (rs_data s); level = clamp level 0 100
      in change s (au_main_volume t \<noteq> level) (\<lambda>d. d\<lparr>rd_audio := t\<lparr>au_main_volume := level\<rparr>\<rparr>) ''audio.main_vol'')"

definition setSubVolume :: "int \<Rightarrow> radio_state \<Rightarrow> radio_state \<times> string list" where
  "setSubVolume level s =
     (let t = rd_audio (rs_data s); level = clamp level 0 100
      in change s (au_sub_volume t \<noteq> level) (\<lambda>d. d\<lparr>rd_audio := t\<lparr>au_sub_volume := level\<rparr>\<rparr>) ''audio.sub_vol'')"

definition setSidetonePitch :: "int \<Rightarrow> radio_state \<Rightarrow> radio_state \<times> string list" where
  "setSidetonePitch hz s =
     (let t = rd_audio (rs_data s); hz = clamp hz 400 1000
      in change s (au_sidetone_hz t \<noteq> hz) (\<lambda>d. d\<lparr>rd_audio := t\<lparr>au_sidetone_hz := hz\<rparr>\<rparr>) ''audio.sidetone'')"

definition setNrEnabled :: "int \<Rightarrow> int \<Rightarrow> bool \<Rightarrow> radio_state \<Rightarrow> radio_state \<times> string list" where
  "setNrEnabled receiver algorithm enabled s =
     (let nr = arr2_get (rd_nr (rs_data s)) receiver
      in if algorithm = 0
         then change s (nr_lms_enabled nr \<noteq> enabled)
                (\<lambda>d. d\<lparr>rd_nr := arr2_put (rd_nr d) receiver (nr\<lparr>nr_lms_enabled := enabled\<rparr>)\<rparr>)
                (if receiver = 0 then ''nr.main.lms.en'' else ''nr.sub.lms.en'')
         else change s (nr_ssnr_enabled nr \<noteq> enabled)
                (\<lambda>d. d\<lparr>rd_nr := arr2_put (rd_nr d) receiver (nr\<lparr>nr_ssnr_enabled := enabled\<rparr>)\<rparr>)
                (if receiver = 0 then ''nr.main.ssnr.en'' else ''nr.sub.ssnr.en''))"

definition setNrLevel :: "int \<Rightarrow> int \<Rightarrow> int \<Rightarrow> radio_state \<Rightarrow> radio_state \<times> string list" where
  "setNrLevel receiver algorithm level s =
     (let nr = arr2_get (rd_nr (rs_data s)) receiver; level = clamp level 1 10
      in if algorithm = 0
         then change s (nr_lms_level nr \<noteq> level)
                (\<lambda>d. d\<lparr>rd_nr := arr2_put (rd_nr d) receiver (nr\<lparr>nr_lms_level := level\<rparr>)\<rparr>)
                (if receiver = 0 then ''nr.main.lms.lvl'' else ''nr.sub.lms.lvl'')
         else change s (nr_ssnr_level nr \<noteq> level)
                (\<lambda>d. d\<lparr>rd_nr := arr2_put (rd_nr d) receiver (nr\<lparr>nr_ssnr_level := level\<rparr>)\<rparr>)
                (if receiver = 0 then ''nr.main.ssnr.lvl'' else ''nr.sub.ssnr.lvl''))"

definition setCwSpeed :: "int \<Rightarrow> radio_state \<Rightarrow> radio_state \<times> string list" where
  "setCwSpeed wpm s =
     (let t = rd_cw (rs_data s); wpm = clamp wpm 5 60
      in change s (cw_speed_wpm t \<noteq> wpm) (\<lambda>d. d\<lparr>rd_cw := t\<lparr>cw_speed_wpm := wpm\<rparr>\<rparr>) ''cw.speed'')"

definition setCwIambicMode :: "int \<Rightarrow> radio_state \<Rightarrow> radio_state \<times> string list" where
  "setCwIambicMode mode s =
     (let t = rd_cw (rs_data s)
      in change s (cw_iambic_mode t \<noteq> mode) (\<lambda>d. d\<lparr>rd_cw := t\<lparr>cw_iambic_mode := mode\<rparr>\<rparr>) ''cw.iambic'')"

text \<open>The aggregate setters store and notify without a comparison.\<close>

definition setKpaState :: "kpa_state \<Rightarrow> radio_state \<Rightarrow> radio_state \<times> string list" where
  "setKpaState st s = (s\<lparr>rs_data := (rs_data s)\<lparr>rd_kpa := st\<rparr>\<rparr>, notify s ''kpa'')"

definition setConnectionState :: "int \<Rightarrow> int \<Rightarrow> radio_state \<Rightarrow> radio_state \<times> string list" where
  "setConnectionState st attempts s =
     (s\<lparr>rs_data := (rs_data s)\<lparr>rd_connection :=
        (rd_connection (rs_data s))\<lparr>conn_state := st, conn_reconnect_attempts := attempts\<rparr>\<rparr>\<rparr>,
      notify s ''connection'')"

definition setCatState :: "bool \<Rightarrow> int \<Rightarrow> radio_state \<Rightarrow> radio_state \<times> string list" where
  "setCatState running clients s =
     (s\<lparr>rs_data := (rs_data s)\<lparr>rd_cat :=
        (rd_cat (rs_data s))\<lparr>cat_running := running, cat_client_count := clients\<rparr>\<rparr>\<rparr>,
      notify s ''cat'')"

definition setDxClusterState :: "bool \<Rightarrow> int \<Rightarrow> radio_state \<Rightarrow> radio_state \<times> string list" where
  "setDxClusterState connected spots s =
     (s\<lparr>rs_data := (rs_data s)\<lparr>rd_dxcluster :=
        (rd_dxcluster (rs_data s))\<lparr>dx_connected := connected, dx_spot_count := spots\<rparr>\<rparr>\<rparr>,
      notify s ''dxcluster'')"

section \<open>CAT responses\<close>

definition k4_mode :: "int \<Rightarrow> int option" where
  "k4_mode mode =
     (if mode = 1 then Some 0 else if mode = 2 then Some 1 else if mode = 3 then Some 2
      else if mode = 4 then Some 7 else if mode = 5 then Some 6 else if mode = 6 then Some 4
      else if mode = 7 then Some 3 else if mode = 9 then Some 5 else None)"

definition parseCatCommand :: "string \<Rightarrow> radio_state \<Rightarrow> radio_state \<times> string list" where
  "parseCatCommand command s =
     (if length command < 2 then (s, [])
      else
        (let prefix = take 2 command;
             value0 = (if length command > 2 then drop 2 command else []);
             value1 = (if value0 \<noteq> [] \<and> last value0 = CHR '';'' then butlast value0 else value0)
         in if prefix = ''FA'' \<and> length value1 \<ge> 11 then
              (case stoll value1 of None \<Rightarrow> (s, []) | Some freq \<Rightarrow> setFrequency 0 freq s)
            else if prefix = ''FB'' \<and> length value1 \<ge> 11 then
              (case stoll value1 of None \<Rightarrow> (s, []) | Some freq \<Rightarrow> setFrequency 1 freq s)
            else if prefix = ''MD'' \<and> value1 \<noteq> [] then
              (case stoi value1 of None \<Rightarrow> (s, [])
               | Some mode \<Rightarrow> (case k4_mode mode of None \<Rightarrow> (s, []) | Some mapped \<Rightarrow> setMode 0 mapped s))
            else if prefix = ''SM'' \<and> length value1 \<ge> 4 then
              (let vfo = int (of_char (hd value1)) - 48
               in case stoi (tl value1) of None \<Rightarrow> (s, [])
                  | Some meter \<Rightarrow> (if vfo = 0 \<or> vfo = 1 then setSmeter vfo meter s else (s, [])))
            else if prefix = ''TQ'' \<and> value1 \<noteq> [] then setPtt (hd value1 = CHR ''1'') s
            else if prefix = ''PC'' \<and> value1 \<noteq> [] then
              (case stoi value1 of None \<Rightarrow> (s, []) | Some watts \<Rightarrow> setPower watts s)
            else (s, [])))"

section \<open>Sequences of operations\<close>

datatype radio_op =
    SetFrequency int int | SetMode int int | SetSmeter int int | SetTuningRate int int
  | SetSubOn bool | SetActiveVfo int
  | SetPtt bool | SetTune bool | SetPower int | SetSwr int
  | SetSpan int | SetCenter int | SetRefLevel int | SetBinCount int
  | SetMainVolume int | SetSubVolume int | SetSidetonePitch int
  | SetNrEnabled int int bool | SetNrLevel int int int
  | SetCwSpeed int | SetCwIambicMode int
  | SetKpaState kpa_state | SetConnectionState int int | SetCatState bool int | SetDxClusterState bool int
  | ParseCat string

primrec radio_step :: "radio_op \<Rightarrow> radio_state \<Rightarrow> radio_state \<times> string list" where
  "radio_step (SetFrequency vfo f) = setFrequency vfo f"
| "radio_step (SetMode vfo m) = setMode vfo m"
| "radio_step (SetSmeter vfo x) = setSmeter vfo x"
| "radio_step (SetTuningRate vfo r) = setTuningRate vfo r"
| "radio_step (SetSubOn on) = setSubOn on"
| "radio_step (SetActiveVfo vfo) = setActiveVfo vfo"
| "radio_step (SetPtt on) = setPtt on"
| "radio_step (SetTune on) = setTune on"
| "radio_step (SetPower w) = setPower w"
| "radio_step (SetSwr x) = setSwr x"
| "radio_step (SetSpan x) = setSpan x"
| "radio_step (SetCenter x) = setCenter x"
| "radio_step (SetRefLevel x) = setRefLevel x"
| "radio_step (SetBinCount x) = setBinCount x"
| "radio_step (SetMainVolume x) = setMainVolume x"
| "radio_step (SetSubVolume x) = setSubVolume x"
| "radio_step (SetSidetonePitch x) = setSidetonePitch x"
| "radio_step (SetNrEnabled r a e) = setNrEnabled r a e"
| "radio_step (SetNrLevel r a l) = setNrLevel r a l"
| "radio_step (SetCwSpeed x) = setCwSpeed x"
| "radio_step (SetCwIambicMode x) = setCwIambicMode x"
| "radio_step (SetKpaState k) = setKpaState k"
| "radio_step (SetConnectionState st n) = setConnectionState st n"
| "radio_step (SetCatState r n) = setCatState r n"
| "radio_step (SetDxClusterState c n) = setDxClusterState c n"
| "radio_step (ParseCat cmd) = parseCatCommand cmd"

primrec run_radio :: "radio_op list \<Rightarrow> radio_state \<Rightarrow> radio_state \<times> string list" where
  "run_radio [] s = (s, [])"
| "run_radio (oper # ops) s =
     (case radio_step oper s of (s', ks) \<Rightarrow> case run_radio ops s' of (s'', ks') \<Rightarrow> (s'', ks @ ks'))"

primrec aggregate_op :: "radio_op \<Rightarrow> bool" where
  "aggregate_op (SetKpaState _) = True"
| "aggregate_op (SetConnectionState _ _) = True"
| "aggregate_op (SetCatState _ _) = True"
| "aggregate_op (SetDxClusterState _ _) = True"
| "aggregate_op (SetFrequency _ _) = False" | "aggregate_op (SetMode _ _) = False"
| "aggregate_op (SetSmeter _ _) = False" | "aggregate_op (SetTuningRate _ _) = False"
| "aggregate_op (SetSubOn _) = False" | "aggregate_op (SetActiveVfo _) = False"
| "aggregate_op (SetPtt _) = False" | "aggregate_op (SetTune _) = False"
| "aggregate_op (SetPower _) = False" | "aggregate_op (SetSwr _) = False"
| "aggregate_op (SetSpan _) = False" | "aggregate_op (SetCenter _) = False"
| "aggregate_op (SetRefLevel _) = False" | "aggregate_op (SetBinCount _) = False"
| "aggregate_op (SetMainVolume _) = False" | "aggregate_op (SetSubVolume _) = False"
| "aggregate_op (SetSidetonePitch _) = False" | "aggregate_op (SetNrEnabled _ _ _) = False"
| "aggregate_op (SetNrLevel _ _ _) = False" | "aggregate_op (SetCwSpeed _) = False"
| "aggregate_op (SetCwIambicMode _) = False" | "aggregate_op (ParseCat _) = False"

section \<open>The contract of a field setter\<close>

text \<open>
  What the subscribers of the change callback rely on: a setter brings its field to the (clamped)
  value, says so with its key when that changed something, and is silent and without effect
  when the field already has the value.
\<close>

locale field_setter =
  fixes set_field :: "'a \<Rightarrow> radio_state \<Rightarrow> radio_state \<times> string list"
    and get_field :: "radio_state \<Rightarrow> 'a"
    and norm :: "'a \<Rightarrow> 'a"
    and key :: string
  assumes get_set: "get_field (fst (set_field v s)) = norm v"
    and quiet: "get_field s = norm v \<Longrightarrow> set_field v s = (s, [])"
    and loud: "get_field s \<noteq> norm v \<Longrightarrow> snd (set_field v s) = notify s key"
begin

definition obeys :: "'a \<Rightarrow> radio_state \<Rightarrow> bool" where
  "obeys v s \<longleftrightarrow> (snd (set_field v s) = [] \<longleftrightarrow> fst (set_field v s) = s) \<and>
     set_field v (fst (set_field v s)) = (fst (set_field v s), []) \<and>
     set (snd (set_field v s)) \<subseteq> {key} \<and> length (snd (set_field v s)) \<le> Suc 0"

lemma set_twice: "set_field v (fst (set_field v s)) = (fst (set_field v s), [])"
  by (simp add: quiet get_set)

lemma obeys: "rs_changeCb s \<Longrightarrow> obeys v s"
  using get_set [of v s] quiet [of s v] loud [of s v]
  by (cases "get_field s = norm v") (auto simp: obeys_def set_twice notify_def)

end

named_theorems setter_defs "the setters and getters, for their contract"

lemmas [setter_defs] =
  setFrequency_def setMode_def setSmeter_def setTuningRate_def setSubOn_def setActiveVfo_def
  setPtt_def setTune_def setPower_def setSwr_def setSpan_def setCenter_def setRefLevel_def setBinCount_def
  setMainVolume_def setSubVolume_def setSidetonePitch_def setNrEnabled_def setNrLevel_def
  setCwSpeed_def setCwIambicMode_def change_def
  getVfo_def getTx_def getSpectrum_def getAudio_def getNr_def getCw_def Let_def split_beta

interpretation frequency: field_setter "setFrequency vfo" "\<lambda>s. vfo_frequency_hz (getVfo s vfo)" "id" "if vfo = 0 then ''vfo.a.freq'' else ''vfo.b.freq''" for vfo :: int
  by unfold_locales (simp_all add: setter_defs)

interpretation mode: field_setter "setMode vfo" "\<lambda>s. vfo_mode (getVfo s vfo)" "id" "if vfo = 0 then ''vfo.a.mode'' else ''vfo.b.mode''" for vfo :: int
  by unfold_locales (simp_all add: setter_defs)

interpretation smeter: field_setter "setSmeter vfo" "\<lambda>s. vfo_smeter (getVfo s vfo)" "id" "if vfo = 0 then ''vfo.a.smeter'' else ''vfo.b.smeter''" for vfo :: int
  by unfold_locales (simp_all add: setter_defs)

interpretation rate: field_setter "setTuningRate vfo" "\<lambda>s. vfo_tuning_rate (getVfo s vfo)" "id" "if vfo = 0 then ''vfo.a.rate'' else ''vfo.b.rate''" for vfo :: int
  by unfold_locales (simp_all add: setter_defs)

interpretation sub_on: field_setter "setSubOn" "\<lambda>s. vfo_sub_on (snd (rd_vfo (rs_data s)))" "id" "''vfo.b.sub_on''" 
  by unfold_locales (simp_all add: setter_defs)

interpretation active: field_setter "\<lambda>a. setActiveVfo (if a then 0 else 1)" "\<lambda>s. vfo_active (fst (rd_vfo (rs_data s)))" "id" "''vfo.active''" 
  by unfold_locales (simp_all add: setter_defs)

interpretation ptt: field_setter "setPtt" "\<lambda>s. tx_ptt (getTx s)" "id" "''tx.ptt''" 
  by unfold_locales (simp_all add: setter_defs)

interpretation tune: field_setter "setTune" "\<lambda>s. tx_tune (getTx s)" "id" "''tx.tune''" 
  by unfold_locales (simp_all add: setter_defs)

interpretation power: field_setter "setPower" "\<lambda>s. tx_power_watts (getTx s)" "id" "''tx.power''" 
  by unfold_locales (simp_all add: setter_defs)

interpretation swr: field_setter "setSwr" "\<lambda>s. tx_swr_x10 (getTx s)" "id" "''tx.swr''" 
  by unfold_locales (simp_all add: setter_defs)

interpretation span_hz: field_setter "setSpan" "\<lambda>s. sp_span_hz (getSpectrum s)" "id" "''spectrum.span''" 
  by unfold_locales (simp_all add: setter_defs)

interpretation center: field_setter "setCenter" "\<lambda>s. sp_center_hz (getSpectrum s)" "id" "''spectrum.center''" 
  by unfold_locales (simp_all add: setter_defs)

interpretation ref_level: field_setter "setRefLevel" "\<lambda>s. sp_ref_level_db (getSpectrum s)" "id" "''spectrum.ref''" 
  by unfold_locales (simp_all add: setter_defs)

interpretation bins: field_setter "setBinCount" "\<lambda>s. sp_bin_count (getSpectrum s)" "id" "''spectrum.bins''" 
  by unfold_locales (simp_all add: setter_defs)

interpretation main_volume: field_setter "setMainVolume" "\<lambda>s. au_main_volume (getAudio s)" "\<lambda>v. clamp v 0 100" "''audio.main_vol''" 
  by unfold_locales (simp_all add: setter_defs)

interpretation sub_volume: field_setter "setSubVolume" "\<lambda>s. au_sub_volume (getAudio s)" "\<lambda>v. clamp v 0 100" "''audio.sub_vol''" 
  by unfold_locales (simp_all add: setter_defs)

interpretation sidetone: field_setter "setSidetonePitch" "\<lambda>s. au_sidetone_hz (getAudio s)" "\<lambda>v. clamp v 400 1000" "''audio.sidetone''" 
  by unfold_locales (simp_all add: setter_defs)

interpretation lms_enabled: field_setter "setNrEnabled receiver 0" "\<lambda>s. nr_lms_enabled (getNr s receiver)" "id" "if receiver = 0 then ''nr.main.lms.en'' else ''nr.sub.lms.en''" for receiver :: int
  by unfold_locales (simp_all add: setter_defs)

interpretation ssnr_enabled: field_setter "setNrEnabled receiver 1" "\<lambda>s. nr_ssnr_enabled (getNr s receiver)" "id" "if receiver = 0 then ''nr.main.ssnr.en'' else ''nr.sub.ssnr.en''" for receiver :: int
  by unfold_locales (simp_all add: setter_defs)

interpretation lms_level: field_setter "setNrLevel receiver 0" "\<lambda>s. nr_lms_level (getNr s receiver)" "\<lambda>v. clamp v 1 10" "if receiver = 0 then ''nr.main.lms.lvl'' else ''nr.sub.lms.lvl''" for receiver :: int
  by unfold_locales (simp_all add: setter_defs)

interpretation ssnr_level: field_setter "setNrLevel receiver 1" "\<lambda>s. nr_ssnr_level (getNr s receiver)" "\<lambda>v. clamp v 1 10" "if receiver = 0 then ''nr.main.ssnr.lvl'' else ''nr.sub.ssnr.lvl''" for receiver :: int
  by unfold_locales (simp_all add: setter_defs)

interpretation cw_speed: field_setter "setCwSpeed" "\<lambda>s. cw_speed_wpm (getCw s)" "\<lambda>v. clamp v 5 60" "''cw.speed''" 
  by unfold_locales (simp_all add: setter_defs)

interpretation iambic: field_setter "setCwIambicMode" "\<lambda>s. cw_iambic_mode (getCw s)" "id" "''cw.iambic''" 
  by unfold_locales (simp_all add: setter_defs)

section \<open>Every operation\<close>

definition step_ok :: "radio_op \<Rightarrow> radio_state \<Rightarrow> bool" where
  "step_ok oper s \<longleftrightarrow>
     (snd (radio_step oper s) = [] \<longleftrightarrow> fst (radio_step oper s) = s) \<and>
     radio_step oper (fst (radio_step oper s)) = (fst (radio_step oper s), []) \<and>
     length (snd (radio_step oper s)) \<le> 1"

lemma setActiveVfo_eq: "setActiveVfo vfo = setActiveVfo (if vfo = 0 then 0 else 1)"
  by (simp add: fun_eq_iff setActiveVfo_def)

lemma setNrEnabled_ssnr: "algorithm \<noteq> 0 \<Longrightarrow> setNrEnabled r algorithm = setNrEnabled r 1"
  by (simp add: fun_eq_iff setNrEnabled_def)

lemma setNrLevel_ssnr: "algorithm \<noteq> 0 \<Longrightarrow> setNrLevel r algorithm = setNrLevel r 1"
  by (simp add: fun_eq_iff setNrLevel_def)

lemma active_step_ok: "rs_changeCb s \<Longrightarrow> step_ok (SetActiveVfo vfo) s"
  using active.obeys [of s "vfo = 0"] unfolding step_ok_def active.obeys_def radio_step.simps
    setActiveVfo_eq [of vfo] by (simp split: if_splits)

lemma nr_step_ok:
  assumes "rs_changeCb s"
  shows "step_ok (SetNrEnabled r a e) s" "step_ok (SetNrLevel r a l) s"
proof -
  show "step_ok (SetNrEnabled r a e) s"
    by (cases "a = 0")
      (simp_all add: step_ok_def setNrEnabled_ssnr [of a r] lms_enabled.obeys [OF assms, unfolded lms_enabled.obeys_def]
        ssnr_enabled.obeys [OF assms, unfolded ssnr_enabled.obeys_def])
  show "step_ok (SetNrLevel r a l) s"
    by (cases "a = 0")
      (simp_all add: step_ok_def setNrLevel_ssnr [of a r] lms_level.obeys [OF assms, unfolded lms_level.obeys_def]
        ssnr_level.obeys [OF assms, unfolded ssnr_level.obeys_def])
qed

definition plain_setter :: "radio_op \<Rightarrow> bool" where
  "plain_setter oper \<longleftrightarrow> \<not> aggregate_op oper \<and> (\<forall>cmd. oper \<noteq> ParseCat cmd)"

lemma plain_step_ok:
  assumes cb: "rs_changeCb s" and "plain_setter oper"
  shows "step_ok oper s"
proof (cases oper)
  case SetFrequency
  then show ?thesis by (simp add: step_ok_def frequency.obeys [OF cb, unfolded frequency.obeys_def])
next
  case SetMode
  then show ?thesis by (simp add: step_ok_def mode.obeys [OF cb, unfolded mode.obeys_def])
next
  case SetSmeter
  then show ?thesis by (simp add: step_ok_def smeter.obeys [OF cb, unfolded smeter.obeys_def])
next
  case SetTuningRate
  then show ?thesis by (simp add: step_ok_def rate.obeys [OF cb, unfolded rate.obeys_def])
next
  case SetSubOn
  then show ?thesis by (simp add: step_ok_def sub_on.obeys [OF cb, unfolded sub_on.obeys_def])
next
  case SetPtt
  then show ?thesis by (simp add: step_ok_def ptt.obeys [OF cb, unfolded ptt.obeys_def])
next
  case SetTune
  then show ?thesis by (simp add: step_ok_def tune.obeys [OF cb, unfolded tune.obeys_def])
next
  case SetPower
  then show ?thesis by (simp add: step_ok_def power.obeys [OF cb, unfolded power.obeys_def])
next
  case SetSwr
  then show ?thesis by (simp add: step_ok_def swr.obeys [OF cb, unfolded swr.obeys_def])
next
  case SetSpan
  then show ?thesis by (simp add: step_ok_def span_hz.obeys [OF cb, unfolded span_hz.obeys_def])
next
  case SetCenter
  then show ?thesis by (simp add: step_ok_def center.obeys [OF cb, unfolded center.obeys_def])
next
  case SetRefLevel
  then show ?thesis by (simp add: step_ok_def ref_level.obeys [OF cb, unfolded ref_level.obeys_def])
next
  case SetBinCount
  then show ?thesis by (simp add: step_ok_def bins.obeys [OF cb, unfolded bins.obeys_def])
next
  case SetMainVolume
  then show ?thesis by (simp add: step_ok_def main_volume.obeys [OF cb, unfolded main_volume.obeys_def])
next
  case SetSubVolume
  then show ?thesis by (simp add: step_ok_def sub_volume.obeys [OF cb, unfolded sub_volume.obeys_def])
next
  case SetSidetonePitch
  then show ?thesis by (simp add: step_ok_def sidetone.obeys [OF cb, unfolded sidetone.obeys_def])
next
  case SetCwSpeed
  then show ?thesis by (simp add: step_ok_def cw_speed.obeys [OF cb, unfolded cw_speed.obeys_def])
next
  case SetCwIambicMode
  then show ?thesis by (simp add: step_ok_def iambic.obeys [OF cb, unfolded iambic.obeys_def])
qed (use assms in \<open>simp_all add: active_step_ok nr_step_ok plain_setter_def\<close>)

text \<open>The parser of the CAT responses does nothing or what one of the setters does.\<close>

lemma parse_setters:
  "plain_setter (SetFrequency vfo f)" "plain_setter (SetMode vfo m)" "plain_setter (SetSmeter vfo x)"
  "plain_setter (SetPtt on)" "plain_setter (SetPower w)"
  by (simp_all add: plain_setter_def)

definition cat_op :: "string \<Rightarrow> string \<Rightarrow> radio_op option" where
  "cat_op prefix val =
     (if prefix = ''FA'' \<and> length val \<ge> 11 then map_option (SetFrequency 0) (stoll val)
      else if prefix = ''FB'' \<and> length val \<ge> 11 then map_option (SetFrequency 1) (stoll val)
      else if prefix = ''MD'' \<and> val \<noteq> [] then Option.bind (stoi val) (\<lambda>mode. map_option (SetMode 0) (k4_mode mode))
      else if prefix = ''SM'' \<and> length val \<ge> 4 then
        (let vfo = int (of_char (hd val)) - 48
         in Option.bind (stoi (tl val)) (\<lambda>meter. if vfo = 0 \<or> vfo = 1 then Some (SetSmeter vfo meter) else None))
      else if prefix = ''TQ'' \<and> val \<noteq> [] then Some (SetPtt (hd val = CHR ''1''))
      else if prefix = ''PC'' \<and> val \<noteq> [] then map_option SetPower (stoi val)
      else None)"

definition cat_value :: "string \<Rightarrow> string" where
  "cat_value command =
     (let v = drop 2 command in if v \<noteq> [] \<and> last v = CHR '';'' then butlast v else v)"

lemma case_map_option: "(case map_option g x of None \<Rightarrow> n | Some y \<Rightarrow> f y) = (case x of None \<Rightarrow> n | Some y \<Rightarrow> f (g y))"
  by (cases x) simp_all

lemma case_bind_option:
  "(case Option.bind x g of None \<Rightarrow> n | Some y \<Rightarrow> f y) = (case x of None \<Rightarrow> n | Some z \<Rightarrow> (case g z of None \<Rightarrow> n | Some y \<Rightarrow> f y))"
  by (cases x) simp_all

lemma case_if_option:
  "(case (if P then A else B) of None \<Rightarrow> n | Some y \<Rightarrow> f y) =
   (if P then (case A of None \<Rightarrow> n | Some y \<Rightarrow> f y) else (case B of None \<Rightarrow> n | Some y \<Rightarrow> f y))"
  by simp

lemma parse_cat_op:
  "parseCatCommand c s =
     (if length c < 2 then (s, [])
      else case cat_op (take 2 c) (cat_value c) of None \<Rightarrow> (s, []) | Some oper \<Rightarrow> radio_step oper s)"
proof -
  have v: "(if length c > 2 then drop 2 c else []) = drop 2 c" by simp
  show ?thesis
    unfolding parseCatCommand_def cat_value_def cat_op_def Let_def v
    by (simp only: case_if_option case_map_option case_bind_option option.case radio_step.simps)
qed

lemma cat_op_plain: "cat_op p v = Some oper \<Longrightarrow> plain_setter oper"
  by (auto simp: cat_op_def Let_def parse_setters split: if_splits bind_splits)

lemma step_ok_nonaggregate:
  assumes "rs_changeCb s" "\<not> aggregate_op oper"
  shows "step_ok oper s"
proof (cases "\<exists>c. oper = ParseCat c")
  case True
  then obtain c where c: "oper = ParseCat c" by blast
  show ?thesis
  proof (cases "length c < 2 \<or> cat_op (take 2 c) (cat_value c) = None")
    case True
    then show ?thesis by (auto simp: step_ok_def c parse_cat_op)
  next
    case False
    then obtain o' where "cat_op (take 2 c) (cat_value c) = Some o'" "\<not> length c < 2" by auto
    with plain_step_ok [OF assms(1) cat_op_plain] show ?thesis by (simp add: step_ok_def c parse_cat_op)
  qed
next
  case False
  with assms show ?thesis by (intro plain_step_ok) (auto simp: plain_setter_def)
qed

section \<open>The invariant\<close>

text \<open>
  Exactly one VFO is active, and every clamped field is in its documented range.
\<close>

definition nr_ok :: "nr_state \<Rightarrow> bool" where
  "nr_ok n \<longleftrightarrow> nr_lms_level n \<in> {1..10} \<and> nr_ssnr_level n \<in> {1..10}"

definition radio_ok :: "radio_data \<Rightarrow> bool" where
  "radio_ok d \<longleftrightarrow>
     vfo_active (fst (rd_vfo d)) \<noteq> vfo_active (snd (rd_vfo d)) \<and>
     au_main_volume (rd_audio d) \<in> {0..100} \<and> au_sub_volume (rd_audio d) \<in> {0..100} \<and>
     au_sidetone_hz (rd_audio d) \<in> {400..1000} \<and>
     nr_ok (fst (rd_nr d)) \<and> nr_ok (snd (rd_nr d)) \<and> cw_speed_wpm (rd_cw d) \<in> {5..60}"

lemma radio_ok_new [inv_intros]: "radio_ok (rs_data RadioState_new)"
  by (simp add: radio_ok_def nr_ok_def RadioState_new_def RadioStateData_init_def VfoState_init_def
      AudioState_init_def NrState_init_def CwState_init_def)

lemma clamp_in [simp]: "lo \<le> hi \<Longrightarrow> clamp v lo hi \<in> {lo..hi}"
  using clamp_range [of lo hi v] by simp

lemma radio_ok_change:
  "radio_ok (rs_data s) \<Longrightarrow> (radio_ok (rs_data s) \<Longrightarrow> radio_ok (store (rs_data s))) \<Longrightarrow>
     radio_ok (rs_data (fst (change s differs store key)))"
  by (simp add: change_def)

lemma radio_ok_plain:
  assumes "radio_ok (rs_data s)" "\<forall>c. oper \<noteq> ParseCat c"
  shows "radio_ok (rs_data (fst (radio_step oper s)))"
proof (cases oper)
  case (SetNrLevel r a l)
  with assms clamp_range [of 1 10 l] show ?thesis
    by (auto simp: setNrLevel_def Let_def radio_ok_def nr_ok_def arr2_get_def arr2_put_def change_def)
next
  case (SetNrEnabled r a e)
  with assms show ?thesis
    by (auto simp: setNrEnabled_def Let_def radio_ok_def nr_ok_def arr2_get_def arr2_put_def change_def)
qed (use assms in \<open>simp_all add: setter_defs radio_ok_def arr2_get_def arr2_put_def setKpaState_def
    setConnectionState_def setCatState_def setDxClusterState_def clamp_range\<close>)

lemma radio_ok_step [inv_intros]: "radio_ok (rs_data s) \<Longrightarrow> radio_ok (rs_data (fst (radio_step oper s)))"
proof (cases "\<exists>c. oper = ParseCat c")
  case True
  assume ok: "radio_ok (rs_data s)"
  from True obtain c where c: "oper = ParseCat c" by blast
  show ?thesis
  proof (cases "cat_op (take 2 c) (cat_value c)")
    case None
    with ok show ?thesis by (simp add: c parse_cat_op)
  next
    case (Some o')
    from cat_op_plain [OF this] have "\<forall>c. o' \<noteq> ParseCat c" by (simp add: plain_setter_def)
    with ok Some show ?thesis by (simp add: c parse_cat_op radio_ok_plain)
  qed
qed (simp add: radio_ok_plain)

lemma radio_ok_run: "radio_ok (rs_data s) \<Longrightarrow> radio_ok (rs_data (fst (run_radio ops s)))"
  by (induction ops arbitrary: s) (simp_all add: split_beta radio_ok_step)

section \<open>Properties\<close>



text \<open>
  C21. Whatever operations are called in whatever order, with whatever arguments, exactly one VFO
  stays active and volumes, sidetone pitch, noise-reduction levels and CW speed stay in range.
\<close>

theorem radio_state_invariant: "radio_ok (rs_data (fst (run_radio ops (setChangeCallback cb RadioState_new))))"
  by (rule radio_ok_run) (simp add: setChangeCallback_def radio_ok_new)

text \<open>
  A VFO index is reduced to its lowest bit to select the VFO but compared with 0 to choose
  the key: for an even index other than 0 a new frequency goes to VFO A and is announced as VFO B's.
\<close>

theorem even_index_wrong_key:
  assumes "vfo AND 1 = 0" and "vfo \<noteq> 0" and "rs_changeCb s" and "vfo_frequency_hz (getVfo s 0) \<noteq> f"
  shows "vfo_frequency_hz (getVfo (fst (setFrequency vfo f s)) 0) = f \<and>
         getVfo (fst (setFrequency vfo f s)) 1 = getVfo s 1 \<and> snd (setFrequency vfo f s) = [''vfo.b.freq'']"
  using assms by (simp add: setter_defs arr2_get_def arr2_put_def notify_def)

theorem even_index_wrong_key_witness:
  "snd (setFrequency 2 7040000 (setChangeCallback True RadioState_new)) = [''vfo.b.freq''] \<and>
   vfo_frequency_hz (getVfo (fst (setFrequency 2 7040000 (setChangeCallback True RadioState_new))) 0) = 7040000"
proof -
  let ?s = "setChangeCallback True RadioState_new"
  have "vfo_frequency_hz (getVfo ?s 0) \<noteq> 7040000" "rs_changeCb ?s" by code_simp+
  with even_index_wrong_key [of 2 ?s 7040000] show ?thesis by simp
qed

end
