(* ===== verification/Lines.thy ===== *)
theory Lines
  imports Text
begin

text \<open>
  The receive loop the CAT server and the DX cluster client share: the buffer is cut at every
  delimiter, \<open>while ((pos = buffer.find(d)) != npos)\<close>, each piece being \<open>substr(0, pos + keep)\<close> and
  the rest of the buffer what follows the delimiter.
\<close>

function delim_loop :: "char \<Rightarrow> nat \<Rightarrow> string \<Rightarrow> string \<times> string list" where
  "delim_loop d keep buf =
     (case str_find d buf of
        None \<Rightarrow> (buf, [])
      | Some pos \<Rightarrow>
          (case delim_loop d keep (drop (pos + 1) buf) of (rest, pieces) \<Rightarrow>
             (rest, take (pos + keep) buf # pieces)))"
  by auto

termination by (relation "measure (\<lambda>(_, _, buf). length buf)") (auto dest: str_find_less)

declare delim_loop.simps [simp del]

lemma delim_loop_none: "d \<notin> set buf \<Longrightarrow> delim_loop d keep buf = (buf, [])"
  by (subst delim_loop.simps) (simp add: str_find_def)

lemma delim_loop_cons:
  "d \<notin> set a \<Longrightarrow> delim_loop d keep (a @ d # b) =
     (fst (delim_loop d keep b), take (length a + keep) (a @ d # b) # snd (delim_loop d keep b))"
  by (subst delim_loop.simps) (simp add: str_find_prefix split_beta)

text \<open>After the loop no delimiter is left, and the buffer is a suffix of what was there.\<close>

lemma delim_loop_rest: "d \<notin> set (fst (delim_loop d keep buf))"
proof (induction d keep buf rule: delim_loop.induct)
  case (1 d keep buf)
  then show ?case
    by (subst delim_loop.simps) (auto simp: str_find_None split: option.split prod.split)
qed

lemma delim_loop_length: "length (fst (delim_loop d keep buf)) \<le> length buf"
proof (induction d keep buf rule: delim_loop.induct)
  case (1 d keep buf)
  show ?case
  proof (cases "str_find d buf")
    case (Some pos)
    with "1.IH" [OF Some] show ?thesis by (subst delim_loop.simps) (simp add: split_beta)
  qed (subst delim_loop.simps, simp)
qed

text \<open>Cutting in two at any point gives the same pieces; a delimiter is never lost.\<close>

lemma delim_loop_append:
  assumes "keep \<le> 1"
  shows "delim_loop d keep (a @ b) =
    (case delim_loop d keep a of (r, ps) \<Rightarrow> case delim_loop d keep (r @ b) of (r', ps') \<Rightarrow> (r', ps @ ps'))"
  using assms
proof (induction d keep a rule: delim_loop.induct)
  case (1 d keep a)
  have k: "take keep (d # z) = take keep [d]" for z using "1.prems" by (cases keep) simp_all
  show ?case
  proof (cases "str_find d a")
    case None
    then have "d \<notin> set a" by (simp add: str_find_None)
    then show ?thesis by (simp add: delim_loop_none)
  next
    case (Some pos)
    from str_find_split [OF Some] obtain x y where x: "a = x @ d # y" "d \<notin> set x" "length x = pos"
      using str_find_less [OF Some] by (metis length_take min.absorb4)
    have "drop (pos + 1) a = y" using x by simp
    with "1.IH" [OF Some "1.prems"] show ?thesis
      using x(2,3) k [of y] k [of "y @ b"] by (simp add: x(1) delim_loop_cons split_beta)
  qed
qed


text \<open>The loop is an incremental parser whose state is the buffer, free of delimiters.\<close>

definition feed_lines :: "char \<Rightarrow> nat \<Rightarrow> string \<Rightarrow> string \<Rightarrow> string \<times> string list" where
  "feed_lines d keep buf xs = delim_loop d keep (buf @ xs)"

text \<open>\<open>unlines d ls\<close> is the stream a peer sends for the lines \<open>ls\<close>.\<close>

definition unlines :: "char \<Rightarrow> string list \<Rightarrow> string" where
  "unlines d ls = concat (map (\<lambda>l. l @ [d]) ls)"

lemma unlines_simps [simp]: "unlines d [] = []" "unlines d (l # ls) = l @ d # unlines d ls"
  by (simp_all add: unlines_def)

lemma delim_loop_unlines:
  "\<forall>l \<in> set ls. d \<notin> set l \<Longrightarrow> d \<notin> set rest \<Longrightarrow> keep \<le> 1 \<Longrightarrow>
     delim_loop d keep (unlines d ls @ rest) = (rest, map (\<lambda>l. l @ take keep [d]) ls)"
proof (induction ls)
  case Nil
  then show ?case by (simp add: delim_loop_none)
next
  case (Cons l ls)
  have "take keep (d # z) = take keep [d]" for z using Cons.prems(3) by (cases keep) simp_all
  with Cons show ?case by (simp add: delim_loop_cons)
qed

text \<open>While lines of at most \<open>n\<close> characters arrive, the rest in the buffer has at most \<open>n\<close>.\<close>

lemma delim_loop_short:
  "\<forall>l \<in> set ls. d \<notin> set l \<and> length l \<le> n \<Longrightarrow> unlines d ls = p @ q \<Longrightarrow>
     length (fst (delim_loop d keep p)) \<le> n"
proof (induction ls arbitrary: p)
  case Nil
  then show ?case by (simp add: delim_loop_none)
next
  case (Cons l ls)
  show ?case
  proof (cases "length p \<le> length l")
    case True
    then have "p = take (length p) l" using Cons.prems(2) by (metis append_eq_conv_conj take_append_le unlines_simps(2))
    with Cons.prems(1) have "d \<notin> set p" "length p \<le> n"
      by (metis in_set_takeD list.set_intros(1)) (use True Cons.prems(1) in auto)
    then show ?thesis by (simp add: delim_loop_none)
  next
    case False
    with Cons.prems(2) obtain p' where p': "p = l @ d # p'" "unlines d ls = p' @ q"
      by (auto simp: append_eq_append_conv2 append_eq_Cons_conv Cons_eq_append_conv)
    with Cons.prems Cons.IH [of p'] show ?thesis by (simp add: delim_loop_cons)
  qed
qed

lemma feed_lines_nil: "d \<notin> set buf \<Longrightarrow> feed_lines d keep buf [] = (buf, [])"
  by (simp add: feed_lines_def delim_loop_none)

lemma feed_lines_append:
  "keep \<le> 1 \<Longrightarrow> feed_lines d keep buf (xs @ ys) =
     (case feed_lines d keep buf xs of (r, ps) \<Rightarrow> case feed_lines d keep r ys of (r', ps') \<Rightarrow> (r', ps @ ps'))"
  unfolding feed_lines_def append_assoc [symmetric] by (rule delim_loop_append)

lemma feed_lines_rest: "d \<notin> set (fst (feed_lines d keep buf xs))"
  by (simp add: feed_lines_def delim_loop_rest)

interpretation lines1: incremental "feed_lines d 1" "\<lambda>buf. d \<notin> set buf" for d
  by unfold_locales (simp_all only: feed_lines_nil feed_lines_append feed_lines_rest order_refl simp_thms)

interpretation lines0: incremental "feed_lines d 0" "\<lambda>buf. d \<notin> set buf" for d
  by unfold_locales (simp_all only: feed_lines_nil feed_lines_append feed_lines_rest zero_le_one simp_thms)

end
