(* ===== verification/Sockets.thy ===== *)
theory Sockets
  imports Prelude
begin

text \<open>
  The operating system as the network components see it: the calls that change which descriptors are
  open, and the outcome of one address tried by a \<open>connect\<close>. The results of the calls are inputs
  of the model.
\<close>

text \<open>\<open>Opened\<close> stands for a successful \<open>socket\<close> or \<open>accept\<close>.\<close>

datatype os_event = Opened int | Shutdown int | Close int

definition opened :: "int \<Rightarrow> os_event list" where
  "opened fd = (if fd < 0 then [] else [Opened fd])"

text \<open>Descriptors open after a sequence of calls, from those open before.\<close>

definition open_after :: "os_event \<Rightarrow> int list \<Rightarrow> int list" where
  "open_after ev fds = (case ev of Opened fd \<Rightarrow> fd # fds | Shutdown _ \<Rightarrow> fds | Close fd \<Rightarrow> remove1 fd fds)"

definition opens :: "os_event list \<Rightarrow> int list \<Rightarrow> int list" where
  "opens evs fds = foldl (\<lambda>fds ev. open_after ev fds) fds evs"

lemma opens_Nil [simp]: "opens [] fds = fds"
  by (simp add: opens_def)

lemma opens_Cons [simp]: "opens (ev # evs) fds = opens evs (open_after ev fds)"
  by (simp add: opens_def)

lemma opens_append [simp]: "opens (evs @ evs') fds = opens evs' (opens evs fds)"
  by (simp add: opens_def)

lemma open_after_simps [simp]:
  "open_after (Opened fd) fds = fd # fds" "open_after (Shutdown fd) fds = fds"
  "open_after (Close fd) fds = remove1 fd fds"
  by (simp_all add: open_after_def)

text \<open>
  One address: the descriptor \<open>socket\<close> returned, whether \<open>connect\<close> succeeded at once or is in
  progress, what \<open>poll\<close> returned, whether \<open>POLLOUT\<close> was set and the socket's pending error.
\<close>

datatype connect_result = Connected | In_progress | Refused

record attempt =
  at_socket :: int
  at_connect :: connect_result
  at_poll :: int
  at_pollout :: bool
  at_soerror :: int

end
