(* ===== verification/CatServer.thy ===== *)
theory CatServer
  imports RadioState Lines Sockets
begin

text \<open>
  The CAT server for logging programs, \<open>core/src/network/cat_server.{h,cpp}\<close>: the receive loop of a
  client, the answers to queries and the forwarding of everything else, the listening socket, and
  the life of the client connections with their handler threads.
\<close>

section \<open>Queries\<close>

definition MAX_CLIENTS :: int where
  "MAX_CLIENTS = 4"

definition MAX_CMD_LENGTH :: nat where
  "MAX_CMD_LENGTH = 256"

definition error_reply :: string where
  "error_reply = ''?;'' @ [CHR 0x0D, CHR 0x0A]"

definition not_connected_reply :: string where
  "not_connected_reply = ''?N;'' @ [CHR 0x0D, CHR 0x0A]"

definition modeMap :: "int list" where
  "modeMap = [1, 2, 3, 7, 6, 9, 5, 4]"

definition k4Mode :: "int \<Rightarrow> int" where
  "k4Mode mode = (if mode \<ge> 0 \<and> mode \<le> 7 then modeMap ! nat mode else 1)"

text \<open>
  The reply to \<open>IF;\<close>. Its \<open>mode + 1\<close> would overflow for \<open>mode = 2 ^ 31 - 1\<close> only; the radio's modes
  are 0 to 7.
\<close>

definition if_reply :: "radio_state \<Rightarrow> string" where
  "if_reply r =
     (let vfo = getVfo r 0; tx = getTx r
      in snprintf 48 (''IF'' @ fmt_0d 11 (vfo_frequency_hz vfo) @ ''     '' @ fmt_0d 5 (vfo_tuning_rate vfo) @
           to_string 0 @ to_string 0 @ to_string 0 @ fmt_0d 2 (if tx_ptt tx then 1 else 0) @
           to_string (vfo_mode vfo + 1) @
           to_string 0 @ to_string 0 @ to_string 0 @ to_string 0 @ to_string 0 @ to_string 0 @ '';''))"

text \<open>
  \<open>handleQuery cb rs command\<close>: \<open>rs\<close> is what the pointer to the radio state points to, \<open>cb\<close> tells
  whether a callback to the radio is set. The result is the response and the commands forwarded.
\<close>

definition handleQuery :: "bool \<Rightarrow> radio_state option \<Rightarrow> string \<Rightarrow> string \<times> string list" where
  "handleQuery cb rs command =
     (if length command < 3 then (error_reply, [])
      else
        (let prefix = take 2 command; isQuery = (length command = 3 \<and> command ! 2 = CHR '';'')
         in case rs of
              None \<Rightarrow> (not_connected_reply, [])
            | Some r \<Rightarrow>
                (if isQuery \<and> prefix = ''FA'' then
                   (snprintf 20 (''FA'' @ fmt_0d 11 (vfo_frequency_hz (getVfo r 0)) @ '';''), [])
                 else if isQuery \<and> prefix = ''FB'' then
                   (snprintf 20 (''FB'' @ fmt_0d 11 (vfo_frequency_hz (getVfo r 1)) @ '';''), [])
                 else if isQuery \<and> prefix = ''MD'' then
                   (snprintf 8 (''MD'' @ to_string (k4Mode (vfo_mode (getVfo r 0))) @ '';''), [])
                 else if isQuery \<and> prefix = ''SM'' then
                   (snprintf 12 (''SM0'' @ fmt_0d 4 (vfo_smeter (getVfo r 0)) @ '';''), [])
                 else if isQuery \<and> prefix = ''TQ'' then
                   (if tx_ptt (getTx r) then ''TQ1;'' else ''TQ0;'', [])
                 else if isQuery \<and> prefix = ''PC'' then
                   (snprintf 12 (''PC'' @ fmt_0d 3 (tx_power_watts (getTx r)) @ '';''), [])
                 else if isQuery \<and> prefix = ''IF'' then (if_reply r, [])
                 else if cb then ([], [command])
                 else (error_reply, []))))"

section \<open>A client's receive loop\<close>

text \<open>One \<open>recv\<close>: the commands it completes, and the buffer after the overflow protection.\<close>

definition client_receive :: "string \<Rightarrow> string \<Rightarrow> string \<times> string list" where
  "client_receive lineBuffer chunk =
     (case delim_loop (CHR '';'') 1 (lineBuffer @ chunk) of (rest, cmds) \<Rightarrow>
        (if length rest > MAX_CMD_LENGTH * 4 then [] else rest, cmds))"

datatype cat_output = Send string | ToRadio string

definition client_command :: "bool \<Rightarrow> radio_state option \<Rightarrow> string \<Rightarrow> cat_output list" where
  "client_command cb rs cmd =
     (if length cmd > MAX_CMD_LENGTH then [Send error_reply]
      else (case handleQuery cb rs cmd of (response, forwarded) \<Rightarrow>
        map ToRadio forwarded @ (if response \<noteq> [] then [Send response] else [])))"

section \<open>Connections\<close>

text \<open>
  The server object, with the descriptors for which a handler thread is running, and the calls it
  makes to the operating system. \<open>cs_radioState\<close>: the pointer to the radio state is not null.
\<close>

record cat_server =
  cs_radioState :: bool
  cs_sendToRadioCb :: bool
  cs_running :: bool
  cs_listenFd :: int
  cs_port :: int
  cs_maxClients :: int
  cs_clientFds :: "int list"
  cs_threads :: "int list"

definition CatServer_new :: "bool \<Rightarrow> cat_server" where
  "CatServer_new radioState = \<lparr>cs_radioState = radioState, cs_sendToRadioCb = False,
     cs_running = False, cs_listenFd = -1, cs_port = 9299, cs_maxClients = MAX_CLIENTS,
     cs_clientFds = [], cs_threads = []\<rparr>"

definition setSendToRadioCallback :: "bool \<Rightarrow> cat_server \<Rightarrow> cat_server" where
  "setSendToRadioCallback cb s = s\<lparr>cs_sendToRadioCb := cb\<rparr>"

definition isRunning :: "cat_server \<Rightarrow> bool" where
  "isRunning s = cs_running s"

text \<open>What a handler thread of the server does with a command, when \<open>r\<close> is the state of the radio.\<close>

definition server_command :: "cat_server \<Rightarrow> radio_state \<Rightarrow> string \<Rightarrow> cat_output list" where
  "server_command s r cmd = client_command (cs_sendToRadioCb s) (if cs_radioState s then Some r else None) cmd"

text \<open>What the calls of \<open>start\<close> return: descriptors, or negative on an error.\<close>

record listen_env =
  ev_socket6 :: int
  ev_socket4 :: int
  ev_bind6 :: int
  ev_socket4' :: int
  ev_bind4 :: int
  ev_listen :: int

definition cat_listen :: "listen_env \<Rightarrow> int \<Rightarrow> os_event list \<Rightarrow> cat_server \<Rightarrow> cat_server \<times> int \<times> os_event list" where
  "cat_listen env fd evs s =
     (if ev_listen env < 0 then (s\<lparr>cs_listenFd := -1\<rparr>, -1, evs @ [Close fd])
      else (s\<lparr>cs_listenFd := fd, cs_running := True\<rparr>, 0, evs))"

definition cat_bind :: "listen_env \<Rightarrow> int \<Rightarrow> os_event list \<Rightarrow> cat_server \<Rightarrow> cat_server \<times> int \<times> os_event list" where
  "cat_bind env fd evs s =
     (if ev_bind6 env < 0 then
        (let fd' = ev_socket4' env; evs' = evs @ [Close fd] @ opened fd'
         in if ev_bind4 env < 0 then (s\<lparr>cs_listenFd := -1\<rparr>, -1, evs' @ [Close fd'])
            else cat_listen env fd' evs' s)
      else cat_listen env fd evs s)"

definition cat_start :: "listen_env \<Rightarrow> int \<Rightarrow> int \<Rightarrow> cat_server \<Rightarrow> cat_server \<times> int \<times> os_event list" where
  "cat_start env port max_clients s =
     (if cs_running s then (s, 0, [])
      else
        (let s = s\<lparr>cs_port := port, cs_maxClients := clamp max_clients 1 MAX_CLIENTS\<rparr>;
             fd = ev_socket6 env
         in if fd < 0 then
              (let fd = ev_socket4 env
               in if fd < 0 then (s\<lparr>cs_listenFd := fd\<rparr>, -1, [])
                  else cat_bind env fd (opened fd) s)
            else cat_bind env fd (opened fd) s))"

text \<open>One round of the accept loop, from what \<open>poll\<close> and \<open>accept\<close> return.\<close>

definition accept_iteration :: "int \<Rightarrow> int \<Rightarrow> cat_server \<Rightarrow> cat_server \<times> os_event list" where
  "accept_iteration pr clientFd s =
     (if pr \<le> 0 then (s, [])
      else if clientFd < 0 then (s, [])
      else if int (length (cs_clientFds s)) \<ge> cs_maxClients s then (s, [Close clientFd])
      else (s\<lparr>cs_clientFds := cs_clientFds s @ [clientFd], cs_threads := cs_threads s @ [clientFd]\<rparr>, []))"

definition removeClient :: "int \<Rightarrow> cat_server \<Rightarrow> cat_server" where
  "removeClient fd s = s\<lparr>cs_clientFds := filter (\<lambda>x. x \<noteq> fd) (cs_clientFds s)\<rparr>"

text \<open>A handler leaves its loop and its thread ends.\<close>

definition client_exit :: "int \<Rightarrow> cat_server \<Rightarrow> cat_server \<times> os_event list" where
  "client_exit fd s = ((removeClient fd s)\<lparr>cs_threads := remove1 fd (cs_threads s)\<rparr>, [Close fd])"

text \<open>\<open>stop\<close> up to the joins: the handlers then leave their loops (\<open>client_exit\<close>).\<close>

definition cat_stop :: "cat_server \<Rightarrow> cat_server \<times> os_event list" where
  "cat_stop s =
     (s\<lparr>cs_running := False, cs_listenFd := (if cs_listenFd s \<ge> 0 then -1 else cs_listenFd s), cs_clientFds := []\<rparr>,
      (if cs_listenFd s \<ge> 0 then [Shutdown (cs_listenFd s), Close (cs_listenFd s)] else []) @
      concat (map (\<lambda>fd. [Shutdown fd, Close fd]) (cs_clientFds s)))"

text \<open>The destructor.\<close>

definition cat_delete :: "cat_server \<Rightarrow> cat_server \<times> os_event list" where
  "cat_delete s = cat_stop s"

definition getClientCount :: "cat_server \<Rightarrow> int" where
  "getClientCount s = int (length (cs_clientFds s))"

section \<open>The commands of a client\<close>

lemma client_receive_eq:
  "client_receive buf xs =
     (if length (fst (feed_lines (CHR '';'') 1 buf xs)) > 1024 then []
      else fst (feed_lines (CHR '';'') 1 buf xs), snd (feed_lines (CHR '';'') 1 buf xs))"
  by (simp add: client_receive_def feed_lines_def MAX_CMD_LENGTH_def split_beta)

text \<open>The receive loop is the shared delimiter loop as long as the overflow protection is idle.\<close>

interpretation cat_client: guarded_incremental "feed_lines (CHR '';'') 1" "\<lambda>buf. CHR '';'' \<notin> set buf"
  client_receive "\<lambda>buf xs. length (fst (feed_lines (CHR '';'') 1 buf xs)) \<le> 1024"
  by unfold_locales (simp only: client_receive_eq not_le [symmetric] if_False if_True simp_thms prod.collapse)

lemma cat_guarded:
  assumes "\<forall>l \<in> set cmds. CHR '';'' \<notin> set l \<and> length l \<le> 1024"
  shows "unlines (CHR '';'') cmds = p @ concat cs \<Longrightarrow> cat_client.guarded_run (fst (delim_loop (CHR '';'') 1 p)) cs"
proof (induction cs arbitrary: p)
  case (Cons c cs)
  have step: "fst (feed_lines (CHR '';'') 1 (fst (delim_loop (CHR '';'') 1 p)) c) = fst (delim_loop (CHR '';'') 1 (p @ c))"
    using delim_loop_append [of 1 "CHR '';''" p c] by (simp add: feed_lines_def split_beta)
  have "length (fst (delim_loop (CHR '';'') 1 (p @ c))) \<le> 1024"
    using delim_loop_short [OF assms, of "p @ c" "concat cs"] Cons.prems by simp
  with Cons.IH [of "p @ c"] Cons.prems step show ?case by (simp del: One_nat_def)
qed (simp del: One_nat_def)

section \<open>Replies\<close>

lemma cat_value_reply [simp]: "cat_value (a # b # v @ '';'') = v"
  by (simp add: cat_value_def)

lemma parse_reply:
  "cat_op [a, b] v = Some oper \<Longrightarrow> parseCatCommand (a # b # v @ '';'') t = radio_step oper t"
  by (simp add: parse_cat_op)

lemma length_fmt_le: "0 \<le> x \<Longrightarrow> x < 10 ^ n \<Longrightarrow> w \<le> n \<Longrightarrow> 0 < n \<Longrightarrow> length (fmt_0d w x) \<le> n"
proof -
  assume x: "0 \<le> x" "x < 10 ^ n" "w \<le> n" "0 < n"
  then have "nat x < 10 ^ n" by (simp add: nat_less_iff)
  with x length_digits [of n "nat x"] show ?thesis by (simp add: length_fmt_0d_nonneg)
qed

lemma length_fmt_ge: "0 \<le> x \<Longrightarrow> w \<le> length (fmt_0d w x)"
  by (simp add: length_fmt_0d_nonneg)

lemma frequency_op:
  assumes "0 \<le> f" "f < 10 ^ 16"
  shows "cat_op ''FA'' (fmt_0d 11 f) = Some (SetFrequency 0 f)" "cat_op ''FB'' (fmt_0d 11 f) = Some (SetFrequency 1 f)"
    and "snprintf 20 (''FA'' @ fmt_0d 11 f @ '';'') = ''FA'' @ fmt_0d 11 f @ '';''"
    and "snprintf 20 (''FB'' @ fmt_0d 11 f @ '';'') = ''FB'' @ fmt_0d 11 f @ '';''"
proof -
  have "stoll (fmt_0d 11 f @ []) = Some f" by (rule stoll_fmt_0d) (use assms in \<open>simp_all add: in_i64_def\<close>)
  then show "cat_op ''FA'' (fmt_0d 11 f) = Some (SetFrequency 0 f)" "cat_op ''FB'' (fmt_0d 11 f) = Some (SetFrequency 1 f)"
    using length_fmt_ge [of f 11] assms by (simp_all add: cat_op_def)
  have "length (fmt_0d 11 f) \<le> 16" by (rule length_fmt_le) (use assms in simp_all)
  then show "snprintf 20 (''FA'' @ fmt_0d 11 f @ '';'') = ''FA'' @ fmt_0d 11 f @ '';''"
    "snprintf 20 (''FB'' @ fmt_0d 11 f @ '';'') = ''FB'' @ fmt_0d 11 f @ '';''" by simp_all
qed

text \<open>The two mode tables are inverse.\<close>

lemma k4_mode_inverse:
  assumes "0 \<le> m" "m \<le> 7"
  shows "k4_mode (k4Mode m) = Some m" "1 \<le> k4Mode m" "k4Mode m \<le> 9"
proof -
  from assms have "m \<in> {0, 1, 2, 3, 4, 5, 6, 7}" by auto
  then show "k4_mode (k4Mode m) = Some m" "1 \<le> k4Mode m" "k4Mode m \<le> 9"
    by (auto simp: k4Mode_def modeMap_def k4_mode_def)
qed

lemma mode_op:
  assumes "0 \<le> m" "m \<le> 7"
  shows "cat_op ''MD'' (to_string (k4Mode m)) = Some (SetMode 0 m)"
    and "length (to_string (k4Mode m)) = 1"
proof -
  note k = k4_mode_inverse [OF assms]
  then have len: "length (to_string (k4Mode m)) = 1" by (simp add: to_string_def) (subst digits.simps, simp)
  have "stoi (to_string (k4Mode m) @ []) = Some (k4Mode m)"
    by (rule stoi_to_string) (use k in \<open>simp_all add: in_i32_def\<close>)
  moreover have "to_string (k4Mode m) \<noteq> []" using len by auto
  ultimately show "cat_op ''MD'' (to_string (k4Mode m)) = Some (SetMode 0 m)" using k(1) by (simp add: cat_op_def)
  show "length (to_string (k4Mode m)) = 1" by (rule len)
qed

lemma smeter_op:
  assumes "0 \<le> x" "x < 10000"
  shows "cat_op ''SM'' (CHR ''0'' # fmt_0d 4 x) = Some (SetSmeter 0 x)" and "length (fmt_0d 4 x) = 4"
proof -
  have len: "length (fmt_0d 4 x) = 4" by (rule length_fmt_0d_exact) (use assms in simp_all)
  have "stoi (fmt_0d 4 x @ []) = Some x" by (rule stoi_fmt_0d) (use assms in \<open>simp_all add: in_i32_def\<close>)
  with len show "cat_op ''SM'' (CHR ''0'' # fmt_0d 4 x) = Some (SetSmeter 0 x)" by (simp add: cat_op_def)
  show "length (fmt_0d 4 x) = 4" by (rule len)
qed

lemma power_op:
  assumes "0 \<le> w" "w < 10 ^ 8"
  shows "cat_op ''PC'' (fmt_0d 3 w) = Some (SetPower w)" and "length (fmt_0d 3 w) \<le> 8"
proof -
  have "stoi (fmt_0d 3 w @ []) = Some w" by (rule stoi_fmt_0d) (use assms in \<open>simp_all add: in_i32_def\<close>)
  moreover have "fmt_0d 3 w \<noteq> []" using length_fmt_ge [of w 3] assms by auto
  ultimately show "cat_op ''PC'' (fmt_0d 3 w) = Some (SetPower w)" by (simp add: cat_op_def)
  show "length (fmt_0d 3 w) \<le> 8" by (rule length_fmt_le) (use assms in simp_all)
qed

section \<open>Connections: lemmas\<close>

text \<open>
  The connections over time, with the descriptors the process has open: \<open>accept\<close> returns one that is
  not open, and a handler can leave its loop at any time. A \<open>Close\<close> of a descriptor that is not open
  is an error: by then the number may belong to another part of the process.
\<close>

record cat_world =
  cw_server :: cat_server
  cw_open :: "int list"
  cw_bad_close :: bool

definition do_event :: "os_event \<Rightarrow> cat_world \<Rightarrow> cat_world" where
  "do_event ev w =
     (case ev of
        Opened fd \<Rightarrow> w\<lparr>cw_open := fd # cw_open w\<rparr>
      | Shutdown fd \<Rightarrow> w
      | Close fd \<Rightarrow> (if fd \<in> set (cw_open w) then w\<lparr>cw_open := remove1 fd (cw_open w)\<rparr>
                    else w\<lparr>cw_bad_close := True\<rparr>))"

definition do_events :: "os_event list \<Rightarrow> cat_world \<Rightarrow> cat_world" where
  "do_events evs w = foldl (\<lambda>w ev. do_event ev w) w evs"

datatype cat_action = Accept int int | Exit int

definition cat_apply :: "cat_action \<Rightarrow> cat_server \<Rightarrow> cat_server \<times> os_event list" where
  "cat_apply act s =
     (case act of
        Accept pr fd \<Rightarrow> (case accept_iteration pr fd s of (s', evs) \<Rightarrow>
          (s', (if pr > 0 \<and> fd \<ge> 0 then [Opened fd] else []) @ evs))
      | Exit fd \<Rightarrow> client_exit fd s)"

inductive cat_step :: "cat_world \<Rightarrow> cat_world \<Rightarrow> bool" where
  accept: "cs_running (cw_server w) \<Longrightarrow> fd \<notin> set (cw_open w) \<Longrightarrow> cat_apply (Accept pr fd) (cw_server w) = (s', evs) \<Longrightarrow>
    cat_step w ((do_events evs w)\<lparr>cw_server := s'\<rparr>)"
| exit: "fd \<in> set (cs_threads (cw_server w)) \<Longrightarrow> cat_apply (Exit fd) (cw_server w) = (s', evs) \<Longrightarrow>
    cat_step w ((do_events evs w)\<lparr>cw_server := s'\<rparr>)"

inductive cat_run :: "cat_world \<Rightarrow> cat_world \<Rightarrow> bool" where
  refl: "cat_run w w"
| step: "cat_run w w' \<Longrightarrow> cat_step w' w'' \<Longrightarrow> cat_run w w''"

text \<open>While the server runs: the connected clients are those with a handler, and all are open.\<close>

definition cat_ok :: "cat_world \<Rightarrow> bool" where
  "cat_ok w \<longleftrightarrow>
     cs_clientFds (cw_server w) = cs_threads (cw_server w) \<and> distinct (cs_threads (cw_server w)) \<and>
     set (cs_threads (cw_server w)) \<subseteq> set (cw_open w) \<and> distinct (cw_open w) \<and>
     int (length (cs_clientFds (cw_server w))) \<le> cs_maxClients (cw_server w) \<and> \<not> cw_bad_close w"

lemma filter_neq: "filter (\<lambda>x. x \<noteq> fd) xs = removeAll fd xs"
  by (induction xs) auto

lemma length_removeAll_le: "int (length (removeAll fd xs)) \<le> int (length xs)"
  by (simp flip: filter_neq)

lemma cat_step_ok [inv_intros]: "cat_step w w' \<Longrightarrow> cat_ok w \<Longrightarrow> cat_ok w'"
proof (induction rule: cat_step.induct)
  case (accept w fd pr s' evs)
  then show ?case
    by (auto simp: cat_ok_def cat_apply_def accept_iteration_def do_events_def do_event_def
        split: if_splits)
next
  case (exit fd w s' evs)
  then show ?case
    by (auto simp: cat_ok_def cat_apply_def client_exit_def removeClient_def do_events_def do_event_def
        distinct_remove1_removeAll distinct_removeAll filter_neq
        intro: order_trans [OF length_removeAll_le])
qed

lemma cat_run_ok: "cat_run w w' \<Longrightarrow> cat_ok w \<Longrightarrow> cat_ok w'"
  by (induction rule: cat_run.induct) (auto intro: inv_intros)

lemma cat_step_max: "cat_step w w' \<Longrightarrow> cs_maxClients (cw_server w') = cs_maxClients (cw_server w)"
  by (induction rule: cat_step.induct)
    (auto simp: cat_apply_def accept_iteration_def client_exit_def removeClient_def split: if_splits)

lemma cat_run_max: "cat_run w w' \<Longrightarrow> cs_maxClients (cw_server w') = cs_maxClients (cw_server w)"
  by (induction rule: cat_run.induct) (auto dest: cat_step_max)

lemma cat_start_ok:
  "cat_start env port n (CatServer_new r) = (s, 0, evs) \<Longrightarrow>
     cs_maxClients s = clamp n 1 4 \<and> cs_clientFds s = [] \<and> cs_threads s = [] \<and> cs_running s"
  by (auto simp: cat_start_def cat_bind_def cat_listen_def CatServer_new_def MAX_CLIENTS_def Let_def
      split: if_splits)

text \<open>Without new descriptors, what has been closed is not open any more.\<close>

lemma do_event_shrinks:
  "\<forall>x. ev \<noteq> Opened x \<Longrightarrow> distinct (cw_open w) \<Longrightarrow>
     distinct (cw_open (do_event ev w)) \<and> set (cw_open (do_event ev w)) \<subseteq> set (cw_open w) \<and>
     (ev = Close fd \<longrightarrow> fd \<notin> set (cw_open (do_event ev w)))"
  by (cases ev) (auto simp: do_event_def dest: set_remove1_subset [THEN subsetD])

lemma do_events_Cons [simp]: "do_events (ev # evs) w = do_events evs (do_event ev w)"
  by (simp add: do_events_def)

lemma do_events_shrinks:
  "\<forall>x. Opened x \<notin> set evs \<Longrightarrow> distinct (cw_open w) \<Longrightarrow>
     set (cw_open (do_events evs w)) \<subseteq> set (cw_open w) \<and>
     (Close fd \<in> set evs \<longrightarrow> fd \<notin> set (cw_open (do_events evs w)))"
proof (induction evs arbitrary: w)
  case (Cons ev evs)
  have "distinct (cw_open (do_event ev w)) \<and> set (cw_open (do_event ev w)) \<subseteq> set (cw_open w) \<and>
     (ev = Close fd \<longrightarrow> fd \<notin> set (cw_open (do_event ev w)))"
    by (rule do_event_shrinks) (use Cons.prems in auto)
  with Cons.IH [of "do_event ev w"] Cons.prems show ?case by auto
qed (simp add: do_events_def)

section \<open>Properties\<close>

text \<open>
  C22. However TCP cuts a client's stream of commands of up to 1024 characters each, the server
  sees exactly those commands, in order, and nothing is left in its buffer.
\<close>

theorem cat_commands_reassembled:
  assumes "\<forall>l \<in> set cmds. CHR '';'' \<notin> set l \<and> length l \<le> 1024"
    and "concat chunks = unlines (CHR '';'') cmds"
  shows "feed_all client_receive [] chunks = ([], map (\<lambda>l. l @ '';'') cmds)"
proof -
  have "cat_client.guarded_run [] chunks"
    using cat_guarded [OF assms(1), of "[]" chunks] assms(2) by (simp add: delim_loop_none)
  then have "feed_all client_receive [] chunks = feed_lines (CHR '';'') 1 [] (concat chunks)"
    by (intro cat_client.entry_run_concat) simp_all
  also have "\<dots> = ([], map (\<lambda>l. l @ '';'') cmds)"
    using delim_loop_unlines [of cmds "CHR '';''" "[]" 1] assms by (simp add: feed_lines_def)
  finally show ?thesis .
qed

theorem cat_commands_reassembled_witness:
  "feed_all client_receive [] [''F'', ''A;F'', ''B00007040000;''] = ([], [''FA;'', ''FB00007040000;''])"
  using cat_commands_reassembled [of "[''FA'', ''FB00007040000'']" "[''F'', ''A;F'', ''B00007040000;'']"] by simp

text \<open>
  C12. What the server answers to a query describes the radio's state exactly: another instance of
  the state model that parses the answer ends up with the same frequency, mode, S-meter, transmit
  state and power, for every value that fits the reply's buffer.
\<close>

theorem cat_replies_parse_back:
  assumes "0 \<le> vfo_frequency_hz (getVfo s 0)" and "vfo_frequency_hz (getVfo s 0) < 10 ^ 16"
    and "0 \<le> vfo_frequency_hz (getVfo s 1)" and "vfo_frequency_hz (getVfo s 1) < 10 ^ 16"
    and "0 \<le> vfo_mode (getVfo s 0)" and "vfo_mode (getVfo s 0) \<le> 7"
    and "0 \<le> vfo_smeter (getVfo s 0)" and "vfo_smeter (getVfo s 0) < 10000"
    and "0 \<le> tx_power_watts (getTx s)" and "tx_power_watts (getTx s) < 10 ^ 8"
  shows "parseCatCommand (fst (handleQuery cb (Some s) ''FA;'')) t = setFrequency 0 (vfo_frequency_hz (getVfo s 0)) t \<and>
         parseCatCommand (fst (handleQuery cb (Some s) ''FB;'')) t = setFrequency 1 (vfo_frequency_hz (getVfo s 1)) t \<and>
         parseCatCommand (fst (handleQuery cb (Some s) ''MD;'')) t = setMode 0 (vfo_mode (getVfo s 0)) t \<and>
         parseCatCommand (fst (handleQuery cb (Some s) ''SM;'')) t = setSmeter 0 (vfo_smeter (getVfo s 0)) t \<and>
         parseCatCommand (fst (handleQuery cb (Some s) ''TQ;'')) t = setPtt (tx_ptt (getTx s)) t \<and>
         parseCatCommand (fst (handleQuery cb (Some s) ''PC;'')) t = setPower (tx_power_watts (getTx s)) t"
proof -
  note fa = frequency_op [OF assms(1,2)] and fb = frequency_op [OF assms(3,4)]
    and md = mode_op [OF assms(5,6)] and sm = smeter_op [OF assms(7,8)] and pc = power_op [OF assms(9,10)]
  note reply = handleQuery_def Let_def
  have "parseCatCommand (fst (handleQuery cb (Some s) ''FA;'')) t = setFrequency 0 (vfo_frequency_hz (getVfo s 0)) t"
    using parse_reply [OF fa(1), of t] fa(3) by (simp add: reply)
  moreover have "parseCatCommand (fst (handleQuery cb (Some s) ''FB;'')) t = setFrequency 1 (vfo_frequency_hz (getVfo s 1)) t"
    using parse_reply [OF fb(2), of t] fb(4) by (simp add: reply)
  moreover have "parseCatCommand (fst (handleQuery cb (Some s) ''MD;'')) t = setMode 0 (vfo_mode (getVfo s 0)) t"
    using parse_reply [OF md(1), of t] md(2) by (simp add: reply)
  moreover have "parseCatCommand (fst (handleQuery cb (Some s) ''SM;'')) t = setSmeter 0 (vfo_smeter (getVfo s 0)) t"
    using parse_reply [OF sm(1), of t] sm(2) by (simp add: reply)
  moreover have "parseCatCommand (fst (handleQuery cb (Some s) ''TQ;'')) t = setPtt (tx_ptt (getTx s)) t"
    by (simp add: reply parse_cat_op cat_op_def cat_value_def)
  moreover have "parseCatCommand (fst (handleQuery cb (Some s) ''PC;'')) t = setPower (tx_power_watts (getTx s)) t"
    using parse_reply [OF pc(1), of t] pc(2) by (simp add: reply)
  ultimately show ?thesis by blast
qed

theorem cat_replies_parse_back_witness:
  "parseCatCommand (fst (handleQuery True (Some RadioState_new) ''FA;'')) RadioState_new = setFrequency 0 14225000 RadioState_new \<and>
   fst (handleQuery True (Some RadioState_new) ''FA;'') = ''FA00014225000;''"
proof -
  have v: "vfo_frequency_hz (getVfo RadioState_new 0) = 14225000" "vfo_frequency_hz (getVfo RadioState_new 1) = 7040000"
    "vfo_mode (getVfo RadioState_new 0) = 1" "vfo_smeter (getVfo RadioState_new 0) = 0"
    "tx_power_watts (getTx RadioState_new) = 10" by code_simp+
  have "fst (handleQuery True (Some RadioState_new) ''FA;'') = ''FA00014225000;''" by code_simp
  with cat_replies_parse_back [of RadioState_new True RadioState_new] show ?thesis by (simp add: v)
qed

lemma single_digit: "0 \<le> k \<Longrightarrow> k < 10 \<Longrightarrow> to_string k = [digit_char (nat k)]"
  by (simp add: to_string_def) (subst digits.simps, simp)

lemma digit_char_inj: "a < 10 \<Longrightarrow> b < 10 \<Longrightarrow> digit_char a = digit_char b \<longleftrightarrow> a = b"
  by (metis digit_char_val)

text \<open>
  The mode digit of the \<open>IF;\<close> reply is the one the \<open>MD;\<close> query gives only for LSB, USB and CW:
  for the other five modes \<open>IF;\<close> reports a wrong mode.
\<close>

theorem if_reply_mode_digit:
  assumes "0 \<le> vfo_frequency_hz (getVfo r 0)" and "vfo_frequency_hz (getVfo r 0) < 10 ^ 11"
    and "0 \<le> vfo_tuning_rate (getVfo r 0)" and "vfo_tuning_rate (getVfo r 0) < 10 ^ 5"
    and "0 \<le> vfo_mode (getVfo r 0)" and "vfo_mode (getVfo r 0) \<le> 7"
  shows "fst (handleQuery cb (Some r) ''IF;'') ! 28 = fst (handleQuery cb (Some r) ''MD;'') ! 2 \<longleftrightarrow>
         vfo_mode (getVfo r 0) \<le> 2"
proof -
  let ?m = "vfo_mode (getVfo r 0)"
  let ?p = "if tx_ptt (getTx r) then 1 else 0 :: int"
  define pre where "pre = ''IF'' @ fmt_0d 11 (vfo_frequency_hz (getVfo r 0)) @ ''     '' @
    fmt_0d 5 (vfo_tuning_rate (getVfo r 0)) @ to_string 0 @ to_string 0 @ to_string 0 @ fmt_0d 2 ?p"
  have "length (fmt_0d 11 (vfo_frequency_hz (getVfo r 0))) = 11" "length (fmt_0d 5 (vfo_tuning_rate (getVfo r 0))) = 5"
    "length (fmt_0d 2 ?p) = 2" by (rule length_fmt_0d_exact; use assms in simp)+
  then have pre: "length pre = 28" by (simp add: pre_def single_digit)
  have "if_reply r = pre @ digit_char (nat (?m + 1)) # ''000000;''"
    using pre assms(5,6) unfolding if_reply_def Let_def
    by (simp add: pre_def single_digit) (simp add: digit_char_def)
  then have "fst (handleQuery cb (Some r) ''IF;'') ! 28 = digit_char (nat (?m + 1))"
    using pre by (simp add: handleQuery_def nth_append)
  moreover have "fst (handleQuery cb (Some r) ''MD;'') ! 2 = digit_char (nat (k4Mode ?m))"
    using k4_mode_inverse [OF assms(5,6)] by (simp add: handleQuery_def single_digit)
  moreover have "nat (?m + 1) < 10" "nat (k4Mode ?m) < 10"
    using k4_mode_inverse [OF assms(5,6)] assms(5,6) by auto
  moreover have "?m \<in> {0, 1, 2, 3, 4, 5, 6, 7}" using assms(5,6) by auto
  ultimately show ?thesis by (simp add: digit_char_inj) (auto simp: k4Mode_def modeMap_def)
qed

theorem if_reply_mode_digit_witness:
  "fst (handleQuery False (Some (fst (setMode 0 3 RadioState_new))) ''IF;'') ! 28 \<noteq>
   fst (handleQuery False (Some (fst (setMode 0 3 RadioState_new))) ''MD;'') ! 2"
proof -
  let ?r = "fst (setMode 0 3 RadioState_new)"
  have "vfo_frequency_hz (getVfo ?r 0) = 14225000" "vfo_mode (getVfo ?r 0) = 3"
    "vfo_tuning_rate (getVfo ?r 0) = 100" by code_simp+
  with if_reply_mode_digit [of ?r False] show ?thesis by simp
qed

text \<open>
  Everything that is not one of the seven queries is passed to the radio unchecked and gets no
  answer when the radio callback is set, however it is formed; without a radio state no command
  is ever forwarded.
\<close>

theorem cat_unknown_is_forwarded:
  assumes "3 \<le> length cmd" and "cmd \<notin> {''FA;'', ''FB;'', ''MD;'', ''SM;'', ''TQ;'', ''PC;'', ''IF;''}"
  shows "handleQuery True (Some r) cmd = ([], [cmd]) \<and> handleQuery True None cmd = (not_connected_reply, [])"
proof -
  have "cmd \<noteq> take 2 cmd @ [CHR '';'']" if "take 2 cmd \<in> {''FA'', ''FB'', ''MD'', ''SM'', ''TQ'', ''PC'', ''IF''}"
    using that assms(2) by auto
  moreover have "cmd = take 2 cmd @ [CHR '';'']" if "length cmd = 3" "cmd ! 2 = CHR '';''"
    using that by (intro nth_equalityI) (auto simp: nth_append less_Suc_eq numeral_eq_Suc)
  ultimately show ?thesis using assms(1) by (auto simp: handleQuery_def Let_def)
qed

theorem cat_unknown_is_forwarded_witness:
  "handleQuery True (Some RadioState_new) ''?!?;'' = ([], [''?!?;''])"
  using cat_unknown_is_forwarded [of "''?!?;''" RadioState_new] by simp

text \<open>
  C15. As long as the server is not stopped, never more than \<open>max_clients\<close> (at most four) clients
  are connected, a rejected client's descriptor is closed, and no descriptor is closed twice.
\<close>

theorem cat_clients_bounded:
  assumes "cat_start env port n (CatServer_new r) = (s, 0, evs)"
    and "cat_run \<lparr>cw_server = s, cw_open = [cs_listenFd s], cw_bad_close = False\<rparr> w"
  shows "getClientCount (cw_server w) \<le> clamp n 1 4 \<and> \<not> cw_bad_close w \<and>
         set (cs_clientFds (cw_server w)) \<subseteq> set (cw_open w) \<and> distinct (cs_clientFds (cw_server w))"
proof -
  have "cat_ok \<lparr>cw_server = s, cw_open = [cs_listenFd s], cw_bad_close = False\<rparr>"
    using cat_start_ok [OF assms(1)] by (simp add: cat_ok_def clamp_def)
  then have "cat_ok w" by (rule cat_run_ok [OF assms(2)])
  moreover have "cs_maxClients (cw_server w) = clamp n 1 4"
    using cat_run_max [OF assms(2)] cat_start_ok [OF assms(1)] by simp
  ultimately show ?thesis unfolding cat_ok_def getClientCount_def by metis
qed

definition good_env :: listen_env where
  "good_env = \<lparr>ev_socket6 = 3, ev_socket4 = -1, ev_bind6 = 0, ev_socket4' = -1, ev_bind4 = -1, ev_listen = 0\<rparr>"

theorem cat_clients_bounded_witness:
  "\<exists>s evs w. cat_start good_env 9299 9 (CatServer_new True) = (s, 0, evs) \<and> cs_clientFds (cw_server w) = [7] \<and>
     cat_run \<lparr>cw_server = s, cw_open = [cs_listenFd s], cw_bad_close = False\<rparr> w \<and> getClientCount (cw_server w) \<le> 4"
proof -
  define s where "s = fst (cat_start good_env 9299 9 (CatServer_new True))"
  define w where "w = \<lparr>cw_server = s, cw_open = [cs_listenFd s], cw_bad_close = False\<rparr>"
  have st: "cat_start good_env 9299 9 (CatServer_new True) = (s, 0, [Opened 3])"
    by (simp add: s_def cat_start_def cat_bind_def cat_listen_def good_env_def CatServer_new_def opened_def)
  have s: "s = \<lparr>cs_radioState = True, cs_sendToRadioCb = False, cs_running = True, cs_listenFd = 3, cs_port = 9299, cs_maxClients = 4, cs_clientFds = [], cs_threads = []\<rparr>"
    unfolding s_def by code_simp
  have "cat_apply (Accept 1 7) (cw_server w) = (s\<lparr>cs_clientFds := [7], cs_threads := [7]\<rparr>, [Opened 7])"
    by (simp add: cat_apply_def accept_iteration_def w_def s)
  from cat_step.accept [OF _ _ this]
  have "cat_step w ((do_events [Opened 7] w)\<lparr>cw_server := s\<lparr>cs_clientFds := [7], cs_threads := [7]\<rparr>\<rparr>)"
    by (simp add: w_def s)
  then have run: "cat_run w ((do_events [Opened 7] w)\<lparr>cw_server := s\<lparr>cs_clientFds := [7], cs_threads := [7]\<rparr>\<rparr>)"
      (is "cat_run w ?w'")
    by (rule cat_run.step [OF cat_run.refl])
  have "clamp 9 1 4 = (4 :: int)" by (simp add: clamp_def)
  then have "getClientCount (cw_server ?w') \<le> 4"
    using cat_clients_bounded [OF st run [unfolded w_def]] unfolding w_def by metis
  moreover have "cs_clientFds (cw_server ?w') = [7]" by simp
  ultimately show ?thesis using st run unfolding w_def by blast
qed

text \<open>
  \<open>stop\<close> closes the descriptor of every connected client, and the client's handler thread then
  closes the same number again: by then it may belong to another file of the process.
\<close>

theorem cat_stop_closes_twice:
  assumes "distinct (cw_open w)" and "fd \<in> set (cs_clientFds (cw_server w))"
    and "cat_stop (cw_server w) = (s', evs)" and "client_exit fd s' = (s'', evs')"
  shows "fd \<notin> set (cw_open (do_events evs w)) \<and> cw_bad_close (do_events evs' (do_events evs w))"
proof -
  have "Close fd \<in> set evs" "\<forall>x. Opened x \<notin> set evs"
    using assms(2,3) by (auto simp: cat_stop_def split: if_splits)
  then have closed: "fd \<notin> set (cw_open (do_events evs w))"
    using do_events_shrinks [of evs w fd] assms(1) by blast
  moreover have "evs' = [Close fd]" using assms(4) by (simp add: client_exit_def)
  ultimately show ?thesis by (simp add: do_event_def) (simp add: do_events_def)
qed

theorem cat_stop_closes_twice_witness:
  "\<exists>evs evs'. snd (cat_stop ((CatServer_new True)\<lparr>cs_clientFds := [7], cs_threads := [7]\<rparr>)) = evs \<and>
     cw_bad_close (do_events evs' (do_events evs
       \<lparr>cw_server = (CatServer_new True)\<lparr>cs_clientFds := [7], cs_threads := [7]\<rparr>, cw_open = [7], cw_bad_close = False\<rparr>))"
proof -
  let ?s = "(CatServer_new True)\<lparr>cs_clientFds := [7], cs_threads := [7]\<rparr>"
  let ?w = "\<lparr>cw_server = ?s, cw_open = [7], cw_bad_close = False\<rparr>"
  obtain s' evs where st: "cat_stop ?s = (s', evs)" by (cases "cat_stop ?s")
  obtain s'' evs' where ex: "client_exit 7 s' = (s'', evs')" by (cases "client_exit 7 s'")
  have "cat_stop (cw_server ?w) = (s', evs)" "distinct (cw_open ?w)" "7 \<in> set (cs_clientFds (cw_server ?w))"
    using st by simp_all
  from cat_stop_closes_twice [OF this(2,3,1) ex] st show ?thesis by auto
qed

end
