(* ===== verification/DxClusterClient.thy ===== *)
theory DxClusterClient
  imports FreqPixel Lines Sockets
begin

text \<open>
  The DX cluster client, \<open>core/src/network/dx_cluster_client.{h,cpp}\<close>: connecting, the read loop with
  its 64 KB cap, and the parser of spot lines with the stream extraction of a \<open>double\<close>.
\<close>

section \<open>Stream extraction\<close>

text \<open>
  \<open>stream >> double\<close>: white space, a sign, digits with at most one period, an exponent. \<open>None\<close> when
  the extraction fails, otherwise the value and what is left of the stream.
\<close>

definition scan_sign :: "string \<Rightarrow> bool \<times> string" where
  "scan_sign s =
     (case s of [] \<Rightarrow> (False, [])
      | c # cs \<Rightarrow> (if c = CHR ''-'' then (True, cs) else if c = CHR ''+'' then (False, cs) else (False, s)))"

definition scan_fraction :: "string \<Rightarrow> string \<times> string" where
  "scan_fraction s =
     (case s of [] \<Rightarrow> ([], [])
      | c # cs \<Rightarrow> (if c = CHR ''.'' then (takeWhile is_digit cs, dropWhile is_digit cs) else ([], s)))"

definition scan_exponent :: "string \<Rightarrow> (int \<times> string) option" where
  "scan_exponent s =
     (case s of [] \<Rightarrow> Some (0, [])
      | c # cs \<Rightarrow>
          (if c = CHR ''e'' \<or> c = CHR ''E'' then
             (case scan_sign cs of (neg, r) \<Rightarrow>
                (if takeWhile is_digit r = [] then None
                 else Some ((if neg then - 1 else 1) * int (digits_value (takeWhile is_digit r)),
                            dropWhile is_digit r)))
           else Some (0, s)))"

definition scan_double :: "string \<Rightarrow> (rat \<times> string) option" where
  "scan_double s =
     (case scan_sign (dropWhile is_space s) of (neg, s1) \<Rightarrow>
        (let i = takeWhile is_digit s1 in
         case scan_fraction (dropWhile is_digit s1) of (f, s2) \<Rightarrow>
           (if i @ f = [] then None
            else (case scan_exponent s2 of
                    None \<Rightarrow> None
                  | Some (e, s3) \<Rightarrow>
                      map_option (\<lambda>r. (r, s3))
                        (rnd ((if neg then - 1 else 1) * (of_nat (digits_value (i @ f)) / 10 ^ length f) * 10 powi e))))))"

text \<open>\<open>stream >> string\<close>\<close>

definition scan_word :: "string \<Rightarrow> (string \<times> string) option" where
  "scan_word s =
     (let s1 = dropWhile is_space s; w = takeWhile (\<lambda>c. \<not> is_space c) s1
      in if w = [] then None else Some (w, dropWhile (\<lambda>c. \<not> is_space c) s1))"

section \<open>Spots\<close>

record dx_spot =
  spot_callsign :: string
  spot_frequency_hz :: int
  spot_spotter :: string
  spot_comment :: string
  spot_timestamp :: int

text \<open>\<open>while (!s.empty() && s.back() == ' ') s.pop_back();\<close>\<close>

definition trim_right :: "string \<Rightarrow> string" where
  "trim_right s = rev (dropWhile (\<lambda>c. c = CHR '' '') (rev s))"

definition trim_left :: "string \<Rightarrow> string" where
  "trim_left s =
     (case find_first_not_of (CHR '' '') s of None \<Rightarrow> s | Some start \<Rightarrow> drop start s)"

definition is_timestamp :: "string \<Rightarrow> bool" where
  "is_timestamp tail =
     (tail ! 4 = CHR ''Z'' \<and> is_digit (tail ! 0) \<and> is_digit (tail ! 1) \<and> is_digit (tail ! 2) \<and> is_digit (tail ! 3))"

definition drop_timestamp :: "string \<Rightarrow> string" where
  "drop_timestamp s =
     (if length s \<ge> 5 \<and> is_timestamp (drop (length s - 5) s) then take (length s - 5) s else s)"

text \<open>\<open>find(':', 5)\<close>, and \<open>substr(6, colonPos - 6)\<close> whose count wraps around for \<open>colonPos = 5\<close>.\<close>

definition find_from :: "char \<Rightarrow> nat \<Rightarrow> string \<Rightarrow> nat option" where
  "find_from c n s = map_option (\<lambda>i. n + i) (str_find c (drop n s))"

definition spotter_field :: "string \<Rightarrow> nat \<Rightarrow> string" where
  "spotter_field line colonPos =
     trim_right (take (nat ((int colonPos - 6) mod 2 ^ 64)) (drop 6 line))"

text \<open>A frequency that \<open>int64_t\<close> cannot hold makes the conversion undefined.\<close>

datatype parse_result = Undefined | Rejected | Parsed dx_spot

definition parse_comment :: "string \<Rightarrow> string" where
  "parse_comment remaining = trim_right (drop_timestamp (trim_left remaining))"

definition parseSpot :: "int \<Rightarrow> string \<Rightarrow> parse_result" where
  "parseSpot now line =
     (if length line < 26 then Rejected
      else if take 5 line \<noteq> ''DX de'' then Rejected
      else
        (case find_from (CHR '':'') 5 line of
           None \<Rightarrow> Rejected
         | Some colonPos \<Rightarrow>
             (case scan_double (drop (colonPos + 1) line) of
                None \<Rightarrow> Rejected
              | Some (freqKhz, s1) \<Rightarrow>
                  (case khz_to_hz freqKhz of
                     None \<Rightarrow> Undefined
                   | Some hz \<Rightarrow>
                       (case scan_word s1 of
                          None \<Rightarrow> Rejected
                        | Some (callsign, s2) \<Rightarrow>
                            Parsed \<lparr>spot_callsign = callsign, spot_frequency_hz = hz,
                              spot_spotter = spotter_field line colonPos,
                              spot_comment = parse_comment s2, spot_timestamp = now\<rparr>)))))"

section \<open>The client\<close>

definition MAX_BUFFER_SIZE :: nat where
  "MAX_BUFFER_SIZE = 64 * 1024"

record dx_client =
  dx_spotCb :: bool
  dx_disconnectCb :: bool
  dx_fd :: int
  dx_connected :: bool
  dx_running :: bool
  dx_thread :: bool
  dx_callsign :: string
  dx_lineBuffer :: string

definition DxClusterClient_new :: dx_client where
  "DxClusterClient_new = \<lparr>dx_spotCb = False, dx_disconnectCb = False, dx_fd = -1, dx_connected = False, dx_running = False, dx_thread = False,
     dx_callsign = [], dx_lineBuffer = []\<rparr>"

definition dx_setSpotCallback :: "bool \<Rightarrow> dx_client \<Rightarrow> dx_client" where
  "dx_setSpotCallback cb s = s\<lparr>dx_spotCb := cb\<rparr>"

definition dx_setDisconnectCallback :: "bool \<Rightarrow> dx_client \<Rightarrow> dx_client" where
  "dx_setDisconnectCallback cb s = s\<lparr>dx_disconnectCb := cb\<rparr>"

datatype dx_output = SpotCb dx_spot | DisconnectCb | Ub

text \<open>\<open>cb\<close>: the spot callback is set.\<close>

definition processLine :: "bool \<Rightarrow> int \<Rightarrow> string \<Rightarrow> dx_output list" where
  "processLine cb now line =
     (case parseSpot now line of Undefined \<Rightarrow> [Ub] | Rejected \<Rightarrow> [] | Parsed spot \<Rightarrow> if cb then [SpotCb spot] else [])"

definition strip_cr :: "string \<Rightarrow> string" where
  "strip_cr line = (if line \<noteq> [] \<and> last line = CHR 0x0D then butlast line else line)"

text \<open>The lines of one chunk, and the loop over the results of \<open>recv\<close>; an empty chunk is \<open>n <= 0\<close>.\<close>

definition chunk_lines :: "string \<Rightarrow> string \<Rightarrow> string \<times> string list" where
  "chunk_lines buf chunk = delim_loop (CHR 0x0A) 0 (buf @ chunk)"

definition line_outputs :: "bool \<Rightarrow> int \<Rightarrow> string list \<Rightarrow> dx_output list" where
  "line_outputs cb now ls = concat (map (processLine cb now) (filter (\<lambda>l. l \<noteq> []) (map strip_cr ls)))"

definition lost_outputs :: "dx_client \<Rightarrow> dx_output list" where
  "lost_outputs s = (if dx_disconnectCb s then [DisconnectCb] else [])"

primrec read_loop :: "int \<Rightarrow> dx_client \<Rightarrow> string list \<Rightarrow> dx_client \<times> dx_output list" where
  "read_loop now s [] = (s, [])"
| "read_loop now s (chunk # chunks) =
     (if \<not> dx_running s \<or> chunk = [] then (s\<lparr>dx_connected := False\<rparr>, lost_outputs s)
      else if length (dx_lineBuffer s) + length chunk > MAX_BUFFER_SIZE then
        (s\<lparr>dx_lineBuffer := [], dx_connected := False\<rparr>, lost_outputs s)
      else
        (case chunk_lines (dx_lineBuffer s) chunk of (rest, ls) \<Rightarrow>
         case read_loop now (s\<lparr>dx_lineBuffer := rest\<rparr>) chunks of (s', outs) \<Rightarrow>
           (s', line_outputs (dx_spotCb s) now ls @ outs)))"

text \<open>Trying the resolved addresses in order.\<close>

primrec dx_try :: "attempt list \<Rightarrow> int \<times> os_event list" where
  "dx_try [] = (-1, [])"
| "dx_try (a # as) =
     (if at_socket a < 0 then (if as = [] then (at_socket a, []) else dx_try as)
      else if at_connect a \<noteq> Refused \<and> at_poll a > 0 \<and> at_soerror a = 0 then (at_socket a, opened (at_socket a))
      else (case dx_try as of (fd, evs) \<Rightarrow> (fd, opened (at_socket a) @ [Close (at_socket a)] @ evs)))"

definition dx_disconnect :: "dx_client \<Rightarrow> dx_client \<times> os_event list" where
  "dx_disconnect s =
     (s\<lparr>dx_running := False, dx_connected := False, dx_fd := (if dx_fd s \<ge> 0 then -1 else dx_fd s),
        dx_thread := False, dx_lineBuffer := []\<rparr>,
      if dx_fd s \<ge> 0 then [Shutdown (dx_fd s), Close (dx_fd s)] else [])"

text \<open>The destructor.\<close>

definition dx_delete :: "dx_client \<Rightarrow> dx_client \<times> os_event list" where
  "dx_delete s = dx_disconnect s"

text \<open>
  \<open>connect\<close>, from the addresses \<open>getaddrinfo\<close> resolved (\<open>None\<close> when it failed). The result is the
  return value, the login line sent, and the calls made. It is \<open>None\<close>, \<open>std::terminate\<close>, when the read
  thread is assigned while the object still holds a joinable one.
\<close>

definition dx_connect ::
  "attempt list option \<Rightarrow> string \<Rightarrow> dx_client \<Rightarrow> (dx_client \<times> int \<times> string list \<times> os_event list) option" where
  "dx_connect addrs callsign s0 =
     (case (if dx_connected s0 then dx_disconnect s0 else (s0, [])) of (s1, evs1) \<Rightarrow>
        (let s2 = s1\<lparr>dx_callsign := callsign\<rparr> in
         case addrs of
           None \<Rightarrow> Some (s2, -1, [], evs1)
         | Some as \<Rightarrow>
             (case dx_try as of (fd, evs2) \<Rightarrow>
                (let s3 = s2\<lparr>dx_fd := fd\<rparr>
                 in if fd < 0 then Some (s3, -1, [], evs1 @ evs2)
                    else if dx_thread s3 then None
                    else Some (s3\<lparr>dx_connected := True, dx_running := True, dx_thread := True\<rparr>, 0,
                           [callsign @ [CHR 0x0D, CHR 0x0A]], evs1 @ evs2)))))"

section \<open>The spot parser: lemmas\<close>

definition blanks :: "nat \<Rightarrow> string" where
  "blanks k = replicate k (CHR '' '')"

lemma blank_simps [simp]: "is_space (CHR '' '')" "\<not> is_digit (CHR '' '')"
  by (simp_all add: is_space_def is_digit_def)

lemma dropWhile_blanks: "P (CHR '' '') \<Longrightarrow> dropWhile P (blanks k @ s) = dropWhile P s"
  by (induction k) (simp_all add: blanks_def)

lemma rev_blanks [simp]: "rev (blanks k) = blanks k"
  by (simp add: blanks_def)

lemma takeWhile_stop: "\<forall>c \<in> set a. P c \<Longrightarrow> \<not> P x \<Longrightarrow> takeWhile P (a @ x # b) = a \<and> dropWhile P (a @ x # b) = x # b"
  by (induction a) auto

lemma trim_right_blanks: "s \<noteq> [] \<Longrightarrow> last s \<noteq> CHR '' '' \<Longrightarrow> trim_right (s @ blanks k) = s"
  by (cases s rule: rev_cases) (simp_all add: trim_right_def dropWhile_blanks)

lemma trim_left_blanks: "s \<noteq> [] \<Longrightarrow> hd s \<noteq> CHR '' '' \<Longrightarrow> trim_left (blanks k @ s) = s"
proof -
  assume "s \<noteq> []" "hd s \<noteq> CHR '' ''"
  then obtain c cs where s: "s = c # cs" "c \<noteq> CHR '' ''" by (cases s) auto
  have "takeWhile (\<lambda>x. x = CHR '' '') (blanks k @ c # cs) = blanks k"
    using takeWhile_stop [of "blanks k" "\<lambda>x. x = CHR '' ''" c cs] s(2) by (simp add: blanks_def)
  with s show ?thesis by (auto simp: trim_left_def find_first_not_of_def blanks_def)
qed

lemma scan_word_blanks:
  "w \<noteq> [] \<Longrightarrow> \<forall>c \<in> set w. \<not> is_space c \<Longrightarrow> is_space x \<Longrightarrow>
     scan_word (blanks k @ w @ x # s) = Some (w, x # s)"
proof -
  assume w: "w \<noteq> []" "\<forall>c \<in> set w. \<not> is_space c" "is_space x"
  then obtain c cs where c: "w = c # cs" "\<not> is_space c" by (cases w) auto
  have "dropWhile is_space (blanks k @ w @ x # s) = w @ x # s" using c by (simp add: dropWhile_blanks)
  with takeWhile_stop [of w "\<lambda>c. \<not> is_space c" x s] w show ?thesis by (simp add: scan_word_def Let_def)
qed

lemma scan_double_decimal:
  assumes "ds \<noteq> []" "\<forall>c \<in> set (ds @ fs). is_digit c"
    and "rnd (of_nat (digits_value (ds @ fs)) / 10 ^ length fs) = Some r"
  shows "scan_double (blanks k @ ds @ CHR ''.'' # fs @ CHR '' '' # s) = Some (r, CHR '' '' # s)"
proof -
  obtain c cs where c: "ds = c # cs" "is_digit c" using assms(1,2) by (cases ds) auto
  have "dropWhile is_space (blanks k @ ds @ CHR ''.'' # fs @ CHR '' '' # s) = ds @ CHR ''.'' # fs @ CHR '' '' # s"
    using c digit_not_space by (simp add: dropWhile_blanks)
  moreover have "scan_sign (ds @ CHR ''.'' # fs @ CHR '' '' # s) = (False, ds @ CHR ''.'' # fs @ CHR '' '' # s)"
    using c digit_not_sign by (simp add: scan_sign_def)
  moreover have "takeWhile is_digit (ds @ CHR ''.'' # fs @ CHR '' '' # s) = ds"
    "dropWhile is_digit (ds @ CHR ''.'' # fs @ CHR '' '' # s) = CHR ''.'' # fs @ CHR '' '' # s"
    using takeWhile_stop [of ds is_digit "CHR ''.''"] assms(2) by simp_all
  moreover have "scan_fraction (CHR ''.'' # fs @ CHR '' '' # s) = (fs, CHR '' '' # s)"
    using takeWhile_stop [of fs is_digit "CHR '' ''" s] assms(2) by (simp add: scan_fraction_def)
  moreover have "scan_exponent (CHR '' '' # s) = Some (0, CHR '' '' # s)" by (simp add: scan_exponent_def)
  ultimately show ?thesis using assms(1,3) by (simp add: scan_double_def)
qed

lemma drop_timestamp_append:
  assumes "length tm = 4" "\<forall>c \<in> set tm. is_digit c"
  shows "drop_timestamp (s @ tm @ ''Z'') = s"
proof -
  obtain a b c d where tm: "tm = [a, b, c, d]" using assms(1) by (auto simp: numeral_eq_Suc length_Suc_conv)
  then have "is_timestamp (tm @ ''Z'')" using assms(2) by (simp add: is_timestamp_def)
  with tm show ?thesis by (simp add: drop_timestamp_def)
qed

lemma parse_comment_line:
  assumes "comment \<noteq> []" "hd comment \<noteq> CHR '' ''" "last comment \<noteq> CHR '' ''"
    and "length tm = 4" "\<forall>c \<in> set tm. is_digit c"
  shows "parse_comment (blanks k @ comment @ blanks l @ tm @ ''Z'') = comment"
proof -
  have "trim_left (blanks k @ comment @ blanks l @ tm @ ''Z'') = comment @ blanks l @ tm @ ''Z''"
    using assms(1,2) by (intro trim_left_blanks) simp_all
  then show ?thesis
    using drop_timestamp_append [OF assms(4,5), of "comment @ blanks l"] trim_right_blanks [OF assms(1,3), of l]
    by (simp add: parse_comment_def)
qed

lemma spotter_field_line:
  assumes "spotter \<noteq> []" "last spotter \<noteq> CHR '' ''" "length spotter < 2 ^ 64"
  shows "spotter_field (''DX de '' @ spotter @ s) (6 + length spotter) = spotter"
  using assms trim_right_blanks [OF assms(1,2), of 0] by (simp add: spotter_field_def blanks_def)

lemma find_colon:
  "CHR '':'' \<notin> set spotter \<Longrightarrow>
     find_from (CHR '':'') 5 (''DX de '' @ spotter @ CHR '':'' # s) = Some (6 + length spotter)"
  using str_find_prefix [of "CHR '':''" "CHR '' '' # spotter" s] by (simp add: find_from_def)


section \<open>The read loop: lemmas\<close>

lemma chunk_lines_feed: "chunk_lines = feed_lines (CHR 0x0A) 0"
  by (simp add: fun_eq_iff chunk_lines_def feed_lines_def)

interpretation dx_lines: incremental chunk_lines "\<lambda>buf. CHR 0x0A \<notin> set buf"
  unfolding chunk_lines_feed by (rule lines0.incremental_axioms)

lemma chunk_lines_append:
  "fst (chunk_lines (fst (chunk_lines [] p)) c) = fst (chunk_lines [] (p @ c))"
  using dx_lines.feed_append [of "[]" p c] by (simp add: split_beta)

lemma chunk_lines_rest [simp]: "CHR 0x0A \<notin> set (fst (chunk_lines buf xs))"
  by (simp add: chunk_lines_def delim_loop_rest)

lemma line_outputs_append [simp]: "line_outputs cb now (ls @ ls') = line_outputs cb now ls @ line_outputs cb now ls'"
  by (simp add: line_outputs_def)

text \<open>While lines and chunks are short the loop never disconnects and hands over every line once.\<close>

lemma read_loop_lines:
  assumes "\<forall>l \<in> set ls. CHR 0x0A \<notin> set l \<and> length l \<le> 61440"
  shows "dx_running s \<Longrightarrow> dx_lineBuffer s = fst (chunk_lines [] p) \<Longrightarrow> unlines (CHR 0x0A) ls = p @ concat cs \<Longrightarrow>
    \<forall>c \<in> set cs. c \<noteq> [] \<and> length c \<le> 4096 \<Longrightarrow>
    read_loop now s cs = (s\<lparr>dx_lineBuffer := fst (chunk_lines (dx_lineBuffer s) (concat cs))\<rparr>,
      line_outputs (dx_spotCb s) now (snd (chunk_lines (dx_lineBuffer s) (concat cs))))"
proof (induction cs arbitrary: s p)
  case Nil
  then have "chunk_lines (dx_lineBuffer s) [] = (dx_lineBuffer s, [])"
    by (intro dx_lines.feed_nil) simp
  then show ?case by (simp add: line_outputs_def)
next
  case (Cons c cs)
  let ?r = "fst (chunk_lines (dx_lineBuffer s) c)" and ?ls = "snd (chunk_lines (dx_lineBuffer s) c)"
  have "length (dx_lineBuffer s) \<le> 61440"
    using delim_loop_short [OF assms, of p "concat (c # cs)" 0] Cons.prems(2,3) by (simp add: chunk_lines_def)
  then have small: "\<not> length (dx_lineBuffer s) + length c > MAX_BUFFER_SIZE"
    using Cons.prems(4) by (simp add: MAX_BUFFER_SIZE_def)
  have "?r = fst (chunk_lines [] (p @ c))" using chunk_lines_append [of p c] Cons.prems(2) by simp
  then have IH: "read_loop now (s\<lparr>dx_lineBuffer := ?r\<rparr>) cs =
      (s\<lparr>dx_lineBuffer := fst (chunk_lines ?r (concat cs))\<rparr>, line_outputs (dx_spotCb s) now (snd (chunk_lines ?r (concat cs))))"
    using Cons.IH [of "s\<lparr>dx_lineBuffer := ?r\<rparr>" "p @ c"] Cons.prems by simp
  have "CHR 0x0A \<notin> set (dx_lineBuffer s)" using Cons.prems(2) by simp
  from dx_lines.feed_append [OF this, of c "concat cs"] IH small Cons.prems(1,4) show ?case
    by (simp add: split_beta)
qed

lemma read_loop_bounds:
  "length (dx_lineBuffer s) \<le> MAX_BUFFER_SIZE \<Longrightarrow> read_loop now s cs = (s', outs) \<Longrightarrow>
     length (dx_lineBuffer s') \<le> MAX_BUFFER_SIZE \<and>
     (\<exists>pre. outs = pre @ (if DisconnectCb \<in> set outs then [DisconnectCb] else []) \<and> DisconnectCb \<notin> set pre) \<and>
     (DisconnectCb \<in> set outs \<longrightarrow> \<not> dx_connected s')"
proof (induction cs arbitrary: s outs)
  case (Cons c cs)
  have no: "DisconnectCb \<notin> set (line_outputs cb now ls)" for cb ls
    by (auto simp: line_outputs_def processLine_def split: parse_result.splits)
  show ?case
  proof (cases "\<not> dx_running s \<or> c = [] \<or> length (dx_lineBuffer s) + length c > MAX_BUFFER_SIZE")
    case True
    with Cons.prems show ?thesis by (auto simp: lost_outputs_def split: if_splits intro!: exI [of _ "[]"])
  next
    case False
    let ?r = "fst (chunk_lines (dx_lineBuffer s) c)"
    have "length ?r \<le> MAX_BUFFER_SIZE"
      using delim_loop_length [of "CHR 0x0A" 0 "dx_lineBuffer s @ c"] False by (simp add: chunk_lines_def)
    moreover define outs' where "outs' = snd (read_loop now (s\<lparr>dx_lineBuffer := ?r\<rparr>) cs)"
    have "read_loop now (s\<lparr>dx_lineBuffer := ?r\<rparr>) cs = (s', outs')"
      "outs = line_outputs (dx_spotCb s) now (snd (chunk_lines (dx_lineBuffer s) c)) @ outs'"
      using Cons.prems(2) False by (auto simp: split_beta outs'_def)
    ultimately show ?thesis
      using Cons.IH [of "s\<lparr>dx_lineBuffer := ?r\<rparr>" outs'] no by (auto intro: exI [of _ "_ @ _"])
  qed
qed simp

lemma read_loop_thread: "dx_thread (fst (read_loop now s cs)) = dx_thread s"
  by (induction cs arbitrary: s) (simp_all add: split_beta)

lemma dx_connect_thread: "dx_connect addrs callsign s = Some (s', 0, sent, evs) \<Longrightarrow> dx_thread s'"
  by (auto simp: dx_connect_def Let_def split_beta split: option.splits if_splits)

section \<open>Properties\<close>

text \<open>
  C23. A line in the cluster's spot format gives exactly its fields: spotter, frequency to the
  Hertz, callsign and comment, without the padding and the time stamp.
\<close>

theorem spot_line_parsed:
  assumes "CHR '':'' \<notin> set spotter" and "spotter \<noteq> []" and "last spotter \<noteq> CHR '' ''" and "length spotter < 2 ^ 64"
    and "ds \<noteq> []" and "\<forall>c \<in> set (ds @ fs). is_digit c"
    and "digits_value (ds @ fs) * 1000 = n * 10 ^ length fs" and "n < 2 ^ 50"
    and "call \<noteq> []" and "\<forall>c \<in> set call. \<not> is_space c"
    and "comment \<noteq> []" and "hd comment \<noteq> CHR '' ''" and "last comment \<noteq> CHR '' ''"
    and "length tm = 4" and "\<forall>c \<in> set tm. is_digit c"
    and "line = ''DX de '' @ spotter @ '':'' @ blanks a @ ds @ ''.'' @ fs @ blanks (Suc b) @ call @
           blanks (Suc c) @ comment @ blanks d @ tm @ ''Z''"
    and "26 \<le> length line"
  shows "parseSpot now line = Parsed \<lparr>spot_callsign = call, spot_frequency_hz = int n, spot_spotter = spotter,
           spot_comment = comment, spot_timestamp = now\<rparr>"
proof -
  let ?tail = "blanks (Suc c) @ comment @ blanks d @ tm @ ''Z''"
  let ?rest = "blanks a @ ds @ CHR ''.'' # fs @ CHR '' '' # blanks b @ call @ ?tail"
  have line: "line = ''DX de '' @ spotter @ CHR '':'' # ?rest"
    using assms(16) by (simp add: blanks_def)
  define x where "x = (of_nat (digits_value (ds @ fs)) / 10 ^ length fs :: rat)"
  have "(of_nat (digits_value (ds @ fs) * 1000) :: rat) = of_nat (n * 10 ^ length fs)"
    using assms(7) by (simp only:)
  then have "x = of_nat n / 1000" by (simp add: x_def field_simps)
  then obtain r where r: "rnd x = Some r" "khz_to_hz r = Some (int n)" by (rule khz_exact [OF assms(8)])
  have "find_from (CHR '':'') 5 line = Some (6 + length spotter)" unfolding line by (rule find_colon [OF assms(1)])
  moreover define pre where "pre = ''DX de '' @ spotter @ '':''"
  have "line = pre @ ?rest" "length pre = 6 + length spotter + 1" unfolding line by (simp_all add: pre_def)
  then have "drop (6 + length spotter + 1) line = ?rest" by (metis append_eq_conv_conj)
  moreover have "scan_double ?rest = Some (r, CHR '' '' # blanks b @ call @ ?tail)"
    using scan_double_decimal [OF assms(5,6)] r(1) by (simp add: x_def)
  moreover have "scan_word (CHR '' '' # blanks b @ call @ ?tail) = Some (call, ?tail)"
    using scan_word_blanks [OF assms(9,10), of "CHR '' ''" "Suc b" "blanks c @ comment @ blanks d @ tm @ ''Z''"]
    by (simp add: blanks_def)
  moreover have "spotter_field line (6 + length spotter) = spotter"
    unfolding line by (rule spotter_field_line [OF assms(2-4)])
  moreover have "parse_comment ?tail = comment" by (rule parse_comment_line [OF assms(11-15)])
  moreover have "take 5 line = ''DX de''" unfolding line by simp
  ultimately show ?thesis using assms(17) r(2) unfolding parseSpot_def by simp
qed

theorem spot_line_parsed_witness:
  "parseSpot 0 (''DX de W1AW:     14225.0  K4XYZ        CQ CQ CQ              1234Z'') =
   Parsed \<lparr>spot_callsign = ''K4XYZ'', spot_frequency_hz = 14225000, spot_spotter = ''W1AW'',
     spot_comment = ''CQ CQ CQ'', spot_timestamp = 0\<rparr>"
proof -
  have "''DX de W1AW:     14225.0  K4XYZ        CQ CQ CQ              1234Z'' =
      ''DX de '' @ ''W1AW'' @ '':'' @ blanks 5 @ ''14225'' @ ''.'' @ ''0'' @ blanks (Suc 1) @ ''K4XYZ'' @
      blanks (Suc 7) @ ''CQ CQ CQ'' @ blanks 14 @ ''1234'' @ ''Z''"
    by (simp add: blanks_def numeral_eq_Suc)
  from spot_line_parsed [OF _ _ _ _ _ _ _ _ _ _ _ _ _ _ _ this, of 14225000 0] show ?thesis
    by (simp add: is_digit_def is_space_def digits_value_def digit_val_def)
qed

text \<open>
  C14. However TCP cuts the cluster's stream, every line of up to 60 KB is parsed exactly once and in
  order, and the connection is kept.
\<close>

theorem dx_lines_delivered:
  assumes "\<forall>l \<in> set ls. CHR 0x0A \<notin> set l \<and> length l \<le> 61440"
    and "\<forall>c \<in> set chunks. c \<noteq> [] \<and> length c \<le> 4096" and "concat chunks = unlines (CHR 0x0A) ls"
    and "dx_running s" and "dx_lineBuffer s = []"
  shows "read_loop now s chunks = (s, line_outputs (dx_spotCb s) now ls)"
proof -
  have "chunk_lines [] (unlines (CHR 0x0A) ls) = ([], ls)"
    using delim_loop_unlines [of ls "CHR 0x0A" "[]" 0] assms(1) by (simp add: chunk_lines_def)
  moreover have "chunk_lines [] [] = ([], [])" by (intro dx_lines.feed_nil) simp
  moreover have "s\<lparr>dx_lineBuffer := []\<rparr> = s" using assms(5) by simp
  ultimately show ?thesis using read_loop_lines [OF assms(1), of s "[]" chunks now] assms by simp
qed

theorem dx_lines_delivered_witness:
  "read_loop 0 (dx_setSpotCallback True (DxClusterClient_new\<lparr>dx_running := True\<rparr>)) [''hel'', ''lo'' @ [CHR 0x0A]] =
   (dx_setSpotCallback True (DxClusterClient_new\<lparr>dx_running := True\<rparr>), line_outputs True 0 [''hello''])"
  using dx_lines_delivered [of "[''hello'']" "[''hel'', ''lo'' @ [CHR 0x0A]]" "dx_setSpotCallback True (DxClusterClient_new\<lparr>dx_running := True\<rparr>)" 0]
  by (simp add: dx_setSpotCallback_def DxClusterClient_new_def)

text \<open>
  Whatever the peer sends, the line buffer never exceeds 64 KB, and the disconnect callback is
  called at most once, as the last thing, with the client marked as not connected.
\<close>

theorem dx_buffer_bounded:
  assumes "length (dx_lineBuffer s) \<le> MAX_BUFFER_SIZE" and "read_loop now s chunks = (s', outs)"
  shows "length (dx_lineBuffer s') \<le> MAX_BUFFER_SIZE \<and>
     (\<exists>pre. outs = pre @ (if DisconnectCb \<in> set outs then [DisconnectCb] else []) \<and> DisconnectCb \<notin> set pre) \<and>
     (DisconnectCb \<in> set outs \<longrightarrow> \<not> dx_connected s')"
  by (rule read_loop_bounds [OF assms])

theorem dx_buffer_bounded_witness:
  "length (dx_lineBuffer (fst (read_loop 0 \<lparr>dx_spotCb = True, dx_disconnectCb = True, dx_fd = 3, dx_connected = True, dx_running = True, dx_thread = True,
     dx_callsign = [], dx_lineBuffer = ''ab''\<rparr> [''c'', []]))) \<le> MAX_BUFFER_SIZE"
  using dx_buffer_bounded [of "\<lparr>dx_spotCb = True, dx_disconnectCb = True, dx_fd = 3, dx_connected = True, dx_running = True, dx_thread = True,
     dx_callsign = [], dx_lineBuffer = ''ab''\<rparr>" 0 "[''c'', []]"]
  by (simp add: MAX_BUFFER_SIZE_def split_beta)


definition dx_host :: attempt where
  "dx_host = \<lparr>at_socket = 5, at_connect = In_progress, at_poll = 1, at_pollout = True, at_soerror = 0\<rparr>"


end
