(* ===== verification/TcpClient.thy ===== *)
theory TcpClient
  imports Sockets "HOL-Library.Sublist"
begin

text \<open>
  The TCP/TLS-PSK client of \<open>core/src/network/tcp_client.{h,cpp}\<close>: establishing and closing a
  connection with the resources it holds, the blocking send, and the read loop with its thread. The
  results of the system and OpenSSL calls are inputs; what is observed are the calls that open
  and close descriptors, the bytes accepted for sending, and the callbacks.
\<close>

section \<open>State\<close>

record tcp_config =
  tcf_connect_timeout_ms :: int
  tcf_keepalive_interval_s :: int
  tcf_keepalive_max_probes :: int

text \<open>
  \<open>tc_dataCb\<close>, \<open>tc_disconnectCb\<close>, \<open>tc_errorCb\<close>: the callback is set (the client never calls the last one).
  \<open>tc_thread\<close>: the thread object holds a joinable thread; \<open>tc_reader\<close>: that thread has not ended.
  \<open>tc_psk_allocs\<close> counts the \<open>PskData\<close> objects allocated and not deleted (the code has no such field).
\<close>

record tcp_client =
  tc_config :: tcp_config
  tc_dataCb :: bool
  tc_disconnectCb :: bool
  tc_errorCb :: bool
  tc_fd :: int
  tc_sslCtx :: bool
  tc_ssl :: bool
  tc_useTls :: bool
  tc_connected :: bool
  tc_readLoopRunning :: bool
  tc_thread :: bool
  tc_reader :: bool
  tc_psk_allocs :: nat

datatype tcp_event = Os os_event | DataCb "byte list" | DisconnectCb

definition TcpClient_new :: "tcp_config \<Rightarrow> tcp_client" where
  "TcpClient_new config = \<lparr>tc_config = config, tc_dataCb = False, tc_disconnectCb = False, tc_errorCb = False,
     tc_fd = -1, tc_sslCtx = False, tc_ssl = False, tc_useTls = False, tc_connected = False,
     tc_readLoopRunning = False, tc_thread = False, tc_reader = False, tc_psk_allocs = 0\<rparr>"

definition tcp_setDataCallback :: "bool \<Rightarrow> tcp_client \<Rightarrow> tcp_client" where
  "tcp_setDataCallback cb s = s\<lparr>tc_dataCb := cb\<rparr>"

definition tcp_setDisconnectCallback :: "bool \<Rightarrow> tcp_client \<Rightarrow> tcp_client" where
  "tcp_setDisconnectCallback cb s = s\<lparr>tc_disconnectCb := cb\<rparr>"

definition tcp_setErrorCallback :: "bool \<Rightarrow> tcp_client \<Rightarrow> tcp_client" where
  "tcp_setErrorCallback cb s = s\<lparr>tc_errorCb := cb\<rparr>"

definition isConnected :: "tcp_client \<Rightarrow> bool" where
  "isConnected s = tc_connected s"

text \<open>What the calls of a \<open>connect\<close> return; \<open>env_addrs\<close> is \<open>None\<close> when \<open>getaddrinfo\<close> fails.\<close>

record connect_env =
  env_addrs :: "attempt list option"
  env_ssl_ctx :: bool
  env_ssl_new :: bool
  env_ssl_connect :: int

section \<open>Closing\<close>

definition closeSocket :: "tcp_client \<Rightarrow> tcp_client \<times> tcp_event list" where
  "closeSocket s =
     (s\<lparr>tc_ssl := False, tc_sslCtx := False, tc_fd := (if tc_fd s \<ge> 0 then -1 else tc_fd s)\<rparr>,
      if tc_fd s \<ge> 0 then [Os (Close (tc_fd s))] else [])"

text \<open>The end of the read loop, in its thread.\<close>

definition reader_ends :: "tcp_client \<Rightarrow> tcp_client \<times> tcp_event list" where
  "reader_ends s = (s\<lparr>tc_connected := False, tc_reader := False\<rparr>, if tc_disconnectCb s then [DisconnectCb] else [])"

text \<open>\<open>join\<close> waits for the reader, which leaves its loop once the socket is shut down.\<close>

definition stopReadLoop :: "tcp_client \<Rightarrow> tcp_client \<times> tcp_event list" where
  "stopReadLoop s0 =
     (let s = s0\<lparr>tc_readLoopRunning := False\<rparr>
      in if tc_thread s then
           (case (if tc_reader s then reader_ends s else (s, [])) of (s', evs) \<Rightarrow>
              (s'\<lparr>tc_thread := False\<rparr>, (if tc_fd s \<ge> 0 then [Os (Shutdown (tc_fd s))] else []) @ evs))
         else (s, []))"

definition tcp_disconnect :: "tcp_client \<Rightarrow> tcp_client \<times> tcp_event list" where
  "tcp_disconnect s =
     (case stopReadLoop s of (s1, evs1) \<Rightarrow>
      case closeSocket (s1\<lparr>tc_connected := False\<rparr>) of (s2, evs2) \<Rightarrow> (s2, evs1 @ evs2))"

text \<open>The destructor.\<close>

definition tcp_delete :: "tcp_client \<Rightarrow> tcp_client \<times> tcp_event list" where
  "tcp_delete s =
     (case stopReadLoop s of (s1, evs1) \<Rightarrow>
      case tcp_disconnect s1 of (s2, evs2) \<Rightarrow> (s2, evs1 @ evs2))"

section \<open>Connecting\<close>

definition connect_ok :: "attempt \<Rightarrow> bool" where
  "connect_ok a =
     (case at_connect a of
        Connected \<Rightarrow> True
      | In_progress \<Rightarrow> at_poll a > 0 \<and> at_pollout a \<and> at_soerror a = 0
      | Refused \<Rightarrow> False)"

primrec tcp_try :: "attempt list \<Rightarrow> int \<times> tcp_event list" where
  "tcp_try [] = (-1, [])"
| "tcp_try (a # as) =
     (if at_socket a < 0 then (if as = [] then (at_socket a, []) else tcp_try as)
      else if connect_ok a then (at_socket a, [Os (Opened (at_socket a))])
      else (case tcp_try as of (fd, evs) \<Rightarrow>
        (fd, [Os (Opened (at_socket a)), Os (Close (at_socket a))] @ evs)))"

definition connectPlain :: "connect_env \<Rightarrow> tcp_client \<Rightarrow> tcp_client \<times> int \<times> tcp_event list" where
  "connectPlain env s =
     (case env_addrs env of
        None \<Rightarrow> (s, -3, [])
      | Some as \<Rightarrow>
          (case tcp_try as of (fd, evs) \<Rightarrow>
             if fd < 0 then (s, -3, evs) else (s\<lparr>tc_fd := fd\<rparr>, 0, evs)))"

text \<open>The failure exits of \<open>connectTls\<close> after the socket is open.\<close>

definition tls_fail :: "tcp_client \<Rightarrow> tcp_event list \<Rightarrow> tcp_client \<times> int \<times> tcp_event list" where
  "tls_fail s evs = (case closeSocket s of (s', evs') \<Rightarrow> (s', -4, evs @ evs'))"

definition connectTls :: "connect_env \<Rightarrow> tcp_client \<Rightarrow> tcp_client \<times> int \<times> tcp_event list" where
  "connectTls env s0 =
     (case connectPlain env s0 of (s, result, evs) \<Rightarrow>
        if result \<noteq> 0 then (s, result, evs)
        else if \<not> env_ssl_ctx env then tls_fail (s\<lparr>tc_sslCtx := False\<rparr>) evs
        else
          (let n = tc_psk_allocs s; s1 = s\<lparr>tc_sslCtx := True, tc_psk_allocs := n + 1\<rparr>
           in if \<not> env_ssl_new env then tls_fail (s1\<lparr>tc_ssl := False, tc_psk_allocs := n\<rparr>) evs
              else
                (let s2 = s1\<lparr>tc_ssl := True\<rparr>
                 in if env_ssl_connect env \<noteq> 1 then tls_fail (s2\<lparr>tc_psk_allocs := n\<rparr>) evs
                    else (s2, 0, evs))))"

definition tcp_connect :: "connect_env \<Rightarrow> byte list \<Rightarrow> bool \<Rightarrow> tcp_client \<Rightarrow> tcp_client \<times> int \<times> tcp_event list" where
  "tcp_connect env psk use_tls s0 =
     (case (if tc_connected s0 then tcp_disconnect s0 else (s0, [])) of (s1, evs1) \<Rightarrow>
        (let s2 = s1\<lparr>tc_useTls := use_tls\<rparr> in
         case (if use_tls \<and> psk \<noteq> [] then connectTls env s2 else connectPlain env s2) of
           (s3, result, evs2) \<Rightarrow>
             ((if result = 0 then s3\<lparr>tc_connected := True\<rparr> else s3), result, evs1 @ evs2)))"

text \<open>The key handed to OpenSSL: at most \<open>max_psk_len\<close> bytes.\<close>

definition psk_client_callback :: "byte list \<Rightarrow> nat \<Rightarrow> byte list" where
  "psk_client_callback key max_psk_len = take (min (length key) max_psk_len) key"

text \<open>\<open>TCP_KEEPIDLE\<close>, \<open>TCP_KEEPINTVL\<close> and \<open>TCP_KEEPCNT\<close>.\<close>

definition configureKeepalive :: "tcp_config \<Rightarrow> int \<times> int \<times> int" where
  "configureKeepalive config =
     (let idle = tcf_keepalive_interval_s config; interval = tdiv (tcf_keepalive_interval_s config) 3
      in (idle, if interval < 1 then 1 else interval, tcf_keepalive_max_probes config))"

section \<open>Sending\<close>

text \<open>
  The loop of \<open>send\<close> over the results of \<open>::send\<close> or \<open>SSL_write\<close>: the bytes accepted and the return
  value, \<open>None\<close> while it waits. A result is never more than what was offered.
\<close>

fun send_loop :: "byte list \<Rightarrow> int list \<Rightarrow> byte list \<times> int option" where
  "send_loop [] results = ([], Some 0)"
| "send_loop data [] = ([], None)"
| "send_loop data (n # results) =
     (if n \<le> 0 then ([], Some (-1))
      else (case send_loop (drop (nat n) data) results of (sent, r) \<Rightarrow> (take (nat n) data @ sent, r)))"

definition tcp_send :: "byte list \<Rightarrow> int list \<Rightarrow> tcp_client \<Rightarrow> byte list \<times> int option" where
  "tcp_send data results s = (if \<not> tc_connected s then ([], Some (-1)) else send_loop data results)"

text \<open>The overload for a vector, which the engine calls with an encoded frame.\<close>

definition tcp_send_vector :: "byte list \<Rightarrow> int list \<Rightarrow> tcp_client \<Rightarrow> byte list \<times> int option" where
  "tcp_send_vector data results s = tcp_send data results s"

section \<open>The read loop\<close>

definition startReadLoop :: "tcp_client \<Rightarrow> tcp_client" where
  "startReadLoop s =
     (if tc_readLoopRunning s then s
      else s\<lparr>tc_readLoopRunning := True, tc_thread := True, tc_reader := True\<rparr>)"

text \<open>
  One result of \<open>recv\<close> or \<open>SSL_read\<close>. \<open>Closed\<close> is \<open>n <= 0\<close> on a plain socket and \<open>ZERO_RETURN\<close> or
  \<open>SYSCALL\<close> on TLS; \<open>Ssl_error\<close> is every other TLS error, after which the loop goes on.
\<close>

datatype read_result = Read "byte list" | Closed | Ssl_error

primrec tcp_read_loop :: "tcp_client \<Rightarrow> read_result list \<Rightarrow> tcp_client \<times> tcp_event list" where
  "tcp_read_loop s [] = (s, [])"
| "tcp_read_loop s (r # rs) =
     (if \<not> tc_readLoopRunning s then reader_ends s
      else (case r of
              Read bs \<Rightarrow> (case tcp_read_loop s rs of (s', evs) \<Rightarrow> (s', (if tc_dataCb s then [DataCb bs] else []) @ evs))
            | Closed \<Rightarrow> reader_ends s
            | Ssl_error \<Rightarrow> tcp_read_loop s rs))"

section \<open>Resources: lemmas\<close>

text \<open>A client that has been closed is destroyed without any effect.\<close>

lemma tcp_delete_closed:
  "tcp_delete (fst (tcp_disconnect s)) = (fst (tcp_disconnect s), [])"
  by (auto simp: tcp_delete_def tcp_disconnect_def stopReadLoop_def closeSocket_def reader_ends_def Let_def split_beta)

primrec os_events :: "tcp_event list \<Rightarrow> os_event list" where
  "os_events [] = []"
| "os_events (ev # evs) = (case ev of Os e \<Rightarrow> e # os_events evs | _ \<Rightarrow> os_events evs)"

lemma os_events_append [simp]: "os_events (xs @ ys) = os_events xs @ os_events ys"
  by (induction xs) (simp_all split: tcp_event.split)

lemma tcp_try_opens: "opens (os_events (snd (tcp_try as))) fds = (if fst (tcp_try as) < 0 then fds else fst (tcp_try as) # fds)"
  by (induction as) (simp_all add: split_beta)

text \<open>The client holds exactly the descriptor \<open>tc_fd\<close> and the TLS objects it is connected with.\<close>

definition tcp_ok :: "tcp_client \<Rightarrow> bool" where
  "tcp_ok s \<longleftrightarrow> (tc_fd s \<ge> 0 \<longleftrightarrow> tc_connected s) \<and> (tc_ssl s \<longleftrightarrow> tc_sslCtx s) \<and> (tc_ssl s \<longrightarrow> tc_connected s) \<and>
     (tc_thread s \<longrightarrow> tc_readLoopRunning s)"

definition held :: "tcp_client \<Rightarrow> int list" where
  "held s = (if tc_fd s \<ge> 0 then [tc_fd s] else [])"

lemma connectPlain_cases:
  "connectPlain env s = (s', r, evs) \<Longrightarrow> tc_fd s < 0 \<Longrightarrow>
     (r = 0 \<and> (\<exists>fd \<ge> 0. s' = s\<lparr>tc_fd := fd\<rparr> \<and> opens (os_events evs) [] = [fd])) \<or>
     (r = -3 \<and> s' = s \<and> opens (os_events evs) [] = [])"
proof -
  assume *: "connectPlain env s = (s', r, evs)" "tc_fd s < 0"
  show ?thesis
  proof (cases "env_addrs env")
    case (Some as)
    with * tcp_try_opens [of as "[]"] show ?thesis
      by (auto simp: connectPlain_def split_beta split: if_splits)
  qed (use * in \<open>simp add: connectPlain_def\<close>)
qed

lemma tls_fail_eq:
  "tc_fd s \<ge> 0 \<Longrightarrow> tls_fail s evs =
     (s\<lparr>tc_ssl := False, tc_sslCtx := False, tc_fd := -1\<rparr>, -4, evs @ [Os (Close (tc_fd s))])"
  by (simp add: tls_fail_def closeSocket_def)

lemma connectTls_cases:
  assumes "connectTls env s = (s', r, evs)" "tc_fd s < 0" "\<not> tc_ssl s" "\<not> tc_sslCtx s"
  shows "(r = 0 \<and> (\<exists>fd \<ge> 0. s' = s\<lparr>tc_fd := fd, tc_ssl := True, tc_sslCtx := True, tc_psk_allocs := tc_psk_allocs s + 1\<rparr> \<and>
            opens (os_events evs) [] = [fd])) \<or>
         (r < 0 \<and> tc_fd s' < 0 \<and> \<not> tc_ssl s' \<and> \<not> tc_sslCtx s' \<and> tc_psk_allocs s' = tc_psk_allocs s \<and>
          tc_connected s' = tc_connected s \<and> opens (os_events evs) [] = [])"
proof -
  obtain t q evs1 where p: "connectPlain env s = (t, q, evs1)" by (cases "connectPlain env s")
  show ?thesis
  proof (cases "q = 0")
    case True
    with connectPlain_cases [OF p assms(2)] obtain fd where
      fd: "fd \<ge> 0" "t = s\<lparr>tc_fd := fd\<rparr>" "opens (os_events evs1) [] = [fd]" by auto
    with assms(1,3,4) True show ?thesis
      by (auto simp: connectTls_def p Let_def tls_fail_eq split: if_splits)
  next
    case False
    with connectPlain_cases [OF p assms(2)] assms show ?thesis by (auto simp: connectTls_def p)
  qed
qed

text \<open>Only the setters change the callbacks.\<close>

lemma tcp_disconnect_callbacks:
  "tcp_disconnect s = (s', evs) \<Longrightarrow> tc_dataCb s' = tc_dataCb s \<and> tc_disconnectCb s' = tc_disconnectCb s"
  by (auto simp: tcp_disconnect_def stopReadLoop_def closeSocket_def reader_ends_def Let_def split: if_splits)

lemma tcp_connect_callbacks:
  assumes "tcp_connect env psk use_tls s = (t, r, evs)"
  shows "tc_dataCb t = tc_dataCb s \<and> tc_disconnectCb t = tc_disconnectCb s"
proof -
  obtain s1 evs1 where "(if tc_connected s then tcp_disconnect s else (s, [])) = (s1, evs1)"
    by (cases "if tc_connected s then tcp_disconnect s else (s, [])")
  moreover from this have "tc_dataCb s1 = tc_dataCb s \<and> tc_disconnectCb s1 = tc_disconnectCb s"
    by (auto split: if_splits dest: tcp_disconnect_callbacks)
  ultimately show ?thesis using assms
    by (auto simp: tcp_connect_def connectTls_def connectPlain_def tls_fail_def closeSocket_def Let_def
        split: prod.splits option.splits if_splits)
qed

definition tcp_idle :: "tcp_client \<Rightarrow> bool" where
  "tcp_idle s \<longleftrightarrow> tc_fd s < 0 \<and> \<not> tc_ssl s \<and> \<not> tc_sslCtx s \<and> \<not> tc_connected s"

lemma tcp_connect_cases:
  assumes "tcp_connect env psk use_tls s = (s', r, evs)" "tcp_idle s"
  shows "if r = 0 then tc_connected s' \<and> tc_fd s' \<ge> 0 \<and> opens (os_events evs) [] = [tc_fd s'] \<and>
           tc_useTls s' = use_tls \<and> tc_ssl s' = (use_tls \<and> psk \<noteq> []) \<and> tc_sslCtx s' = tc_ssl s' \<and>
           tc_psk_allocs s' = tc_psk_allocs s + (if use_tls \<and> psk \<noteq> [] then 1 else 0)
         else r < 0 \<and> tcp_idle s' \<and> opens (os_events evs) [] = [] \<and> tc_psk_allocs s' = tc_psk_allocs s"
proof -
  let ?s = "s\<lparr>tc_useTls := use_tls\<rparr>"
  have idle: "tc_fd ?s < 0" "\<not> tc_ssl ?s" "\<not> tc_sslCtx ?s" "\<not> tc_connected s" "\<not> tc_connected ?s"
    using assms(2) by (simp_all add: tcp_idle_def)
  show ?thesis
  proof (cases "use_tls \<and> psk \<noteq> []")
    case True
    obtain t q evs1 where c: "connectTls env ?s = (t, q, evs1)" by (cases "connectTls env ?s")
    with True assms(1) idle have "s' = (if q = 0 then t\<lparr>tc_connected := True\<rparr> else t)" "r = q" "evs = evs1"
      by (auto simp: tcp_connect_def Let_def)
    with connectTls_cases [OF c idle(1-3)] idle True show ?thesis by (auto simp: tcp_idle_def)
  next
    case False
    obtain t q evs1 where c: "connectPlain env ?s = (t, q, evs1)" by (cases "connectPlain env ?s")
    with False assms(1) idle have "s' = (if q = 0 then t\<lparr>tc_connected := True\<rparr> else t)" "r = q" "evs = evs1"
      by (auto simp: tcp_connect_def Let_def)
    with connectPlain_cases [OF c idle(1)] idle False show ?thesis by (auto simp: tcp_idle_def)
  qed
qed

lemma stopReadLoop_fields:
  "tc_fd (fst (stopReadLoop s)) = tc_fd s" "tc_psk_allocs (fst (stopReadLoop s)) = tc_psk_allocs s"
  "opens (os_events (snd (stopReadLoop s))) fds = fds"
  by (simp_all add: stopReadLoop_def reader_ends_def Let_def)

lemma tcp_disconnect_releases:
  "tcp_disconnect s = (s', evs) \<Longrightarrow>
     tcp_idle s' \<and> \<not> tc_reader s' = (\<not> tc_thread s \<longrightarrow> \<not> tc_reader s) \<and> \<not> tc_readLoopRunning s' \<and>
     tc_psk_allocs s' = tc_psk_allocs s \<and>
     opens (os_events evs) fds = (if tc_fd s \<ge> 0 then remove1 (tc_fd s) fds else fds)"
proof -
  assume d: "tcp_disconnect s = (s', evs)"
  obtain s1 evs1 where st: "stopReadLoop s = (s1, evs1)" by (cases "stopReadLoop s")
  note f = stopReadLoop_fields [of s, unfolded st fst_conv snd_conv]
  have run: "\<not> tc_readLoopRunning s1" "\<not> tc_reader s1 = (\<not> tc_thread s \<longrightarrow> \<not> tc_reader s)"
    using st by (auto simp: stopReadLoop_def Let_def reader_ends_def split: if_splits)
  from d have "s' = s1\<lparr>tc_connected := False, tc_ssl := False, tc_sslCtx := False,
      tc_fd := (if tc_fd s1 \<ge> 0 then -1 else tc_fd s1)\<rparr>"
    "evs = evs1 @ (if tc_fd s1 \<ge> 0 then [Os (Close (tc_fd s1))] else [])"
    by (auto simp: tcp_disconnect_def st closeSocket_def)
  with f run show ?thesis by (auto simp: tcp_idle_def)
qed

lemma send_loop_result:
  "send_loop data results = (sent, r) \<Longrightarrow> prefix sent data \<and> (r = Some 0 \<longleftrightarrow> sent = data) \<and> r \<in> {Some 0, Some (-1), None}"
proof (induction data results arbitrary: sent rule: send_loop.induct)
  case (3 d ds n results)
  show ?case
  proof (cases "n \<le> 0")
    case False
    obtain sent' where s: "send_loop (drop (nat n) (d # ds)) results = (sent', r)" "sent = take (nat n) (d # ds) @ sent'"
      using "3.prems" False by (auto split: prod.splits)
    have split: "d # ds = take (nat n) (d # ds) @ drop (nat n) (d # ds)" by simp
    from "3.IH" [OF False s(1)] show ?thesis
      unfolding s(2) by (subst (1 2) split) (simp only: same_prefix_prefix same_append_eq)
  qed (use "3.prems" in auto)
qed auto

lemma send_loop_finishes:
  "\<forall>n \<in> set results. 0 < n \<Longrightarrow> length data \<le> length results \<Longrightarrow> snd (send_loop data results) = Some 0"
proof (induction data results rule: send_loop.induct)
  case (3 d ds n results)
  then have n: "\<not> n \<le> 0" "nat n > 0" by simp_all
  have "length (drop (nat n) (d # ds)) \<le> length results" using "3.prems"(2) n(2) by (simp del: drop_Suc_Cons)
  with "3.IH" [OF n(1)] "3.prems"(1) n(1) show ?case by (simp add: split_beta)
qed auto

lemma tcp_try_opened: "fst (tcp_try as) \<ge> 0 \<Longrightarrow> fst (tcp_try as) \<in> at_socket ` set as"
  by (induction as) (auto simp: split_beta split: if_splits)

lemma tcp_try_keeps:
  "f \<notin> at_socket ` set as \<Longrightarrow> f \<in> set fds \<Longrightarrow> f \<in> set (opens (os_events (snd (tcp_try as))) fds)"
  by (simp add: tcp_try_opens)

lemma tcp_read_loop_closed:
  "tc_readLoopRunning s \<Longrightarrow> fst (tcp_read_loop s (map Read bss @ [Closed])) = s\<lparr>tc_connected := False, tc_reader := False\<rparr>"
  by (induction bss) (simp_all add: reader_ends_def split_beta)

lemma tcp_connect_success:
  assumes "tcp_connect env psk use_tls s = (s2, 0, evs)" "\<not> tc_connected s" "env_addrs env = Some as"
  shows "evs = snd (tcp_try as) \<and> tc_fd s2 = fst (tcp_try as) \<and> 0 \<le> fst (tcp_try as) \<and> tc_connected s2 \<and>
         tc_readLoopRunning s2 = tc_readLoopRunning s \<and> tc_reader s2 = tc_reader s"
  using assms
  by (auto simp: tcp_connect_def connectTls_def connectPlain_def tls_fail_def Let_def split_beta
      split: if_splits)

section \<open>Properties\<close>


definition new_client :: tcp_client where
  "new_client = TcpClient_new \<lparr>tcf_connect_timeout_ms = 10000, tcf_keepalive_interval_s = 15, tcf_keepalive_max_probes = 3\<rparr>"

definition radio_env :: connect_env where
  "radio_env = \<lparr>env_addrs = Some [\<lparr>at_socket = 5, at_connect = Connected, at_poll = 0, at_pollout = False, at_soerror = 0\<rparr>],
     env_ssl_ctx = True, env_ssl_new = True, env_ssl_connect = 1\<rparr>"


text \<open>
  \<open>send\<close> hands the bytes over in order: what was accepted is a prefix of the data, the result is
  0 exactly when it is all of it, and it is reached once every call accepts at least one byte.
\<close>

theorem tcp_send_all_or_error:
  assumes "tc_connected s" and "tcp_send data results s = (sent, r)"
  shows "prefix sent data \<and> (r = Some 0 \<longleftrightarrow> sent = data) \<and> r \<in> {Some 0, Some (-1), None} \<and>
         ((\<forall>n \<in> set results. 0 < n) \<and> length data \<le> length results \<longrightarrow> r = Some 0)"
proof -
  have l: "send_loop data results = (sent, r)" using assms by (simp add: tcp_send_def)
  then have "snd (send_loop data results) = r" by simp
  with send_loop_result [OF l] send_loop_finishes [of results data] show ?thesis by metis
qed

theorem tcp_send_all_or_error_witness:
  "tcp_send [1, 2, 3] [2, 1, 1] (new_client\<lparr>tc_connected := True\<rparr>) = ([1, 2, 3], Some 0)"
proof -
  let ?s = "new_client\<lparr>tc_connected := True\<rparr>"
  obtain sent r where s: "tcp_send [1, 2, 3] [2, 1, 1] ?s = (sent, r)" by (cases "tcp_send [1, 2, 3] [2, 1, 1] ?s")
  have "sent = [1, 2, 3] \<and> r = Some 0" using tcp_send_all_or_error [OF _ s] by auto
  with s show ?thesis by simp
qed

text \<open>
  When the peer has closed the connection and the client is connected again without a
  \<open>disconnect\<close>, as the engine's reconnection does, the old descriptor stays open for ever and
  \<open>startReadLoop\<close> does nothing: the new connection is never read.
\<close>

theorem reconnect_never_reads:
  assumes "tc_connected s" and "tc_readLoopRunning s" and "0 \<le> tc_fd s"
    and "tcp_read_loop s (map Read bss @ [Closed]) = (s1, evs1)"
    and "tcp_connect env psk use_tls s1 = (s2, 0, evs2)"
    and "env_addrs env = Some as" and "tc_fd s \<notin> at_socket ` set as"
  shows "startReadLoop s2 = s2 \<and> tc_connected s2 \<and> \<not> tc_reader s2 \<and> tc_fd s2 \<noteq> tc_fd s \<and>
         tc_fd s \<in> set (opens (os_events evs2) [tc_fd s])"
proof -
  have s1: "s1 = s\<lparr>tc_connected := False, tc_reader := False\<rparr>"
    using tcp_read_loop_closed [OF assms(2), of bss] by (simp add: assms(4))
  then have "\<not> tc_connected s1" by simp
  note c = tcp_connect_success [OF assms(5) this assms(6)]
  then have "tc_fd s2 \<in> at_socket ` set as" using tcp_try_opened by simp
  then have "tc_fd s2 \<noteq> tc_fd s" using assms(7) by auto
  moreover have "tc_fd s \<in> set (opens (os_events evs2) [tc_fd s])"
    using tcp_try_keeps [OF assms(7), of "[tc_fd s]"] c by simp
  ultimately show ?thesis using c s1 assms(2) by (simp add: startReadLoop_def)
qed

theorem reconnect_never_reads_witness:
  "\<exists>s1 evs1 s2 evs2. tcp_read_loop (new_client\<lparr>tc_fd := 3, tc_connected := True, tc_readLoopRunning := True,
        tc_thread := True, tc_reader := True\<rparr>) [Read [1], Closed] = (s1, evs1) \<and>
     tcp_connect radio_env [] False s1 = (s2, 0, evs2) \<and> startReadLoop s2 = s2 \<and> \<not> tc_reader s2"
proof -
  let ?s = "new_client\<lparr>tc_fd := 3, tc_connected := True, tc_readLoopRunning := True, tc_thread := True, tc_reader := True\<rparr>"
  obtain s1 evs1 where r: "tcp_read_loop ?s (map Read [[1]] @ [Closed]) = (s1, evs1)"
    by (cases "tcp_read_loop ?s (map Read [[1]] @ [Closed])")
  then have "\<not> tc_connected s1" by (auto simp: reader_ends_def)
  then obtain s2 evs2 where c: "tcp_connect radio_env [] False s1 = (s2, 0, evs2)"
    by (simp add: tcp_connect_def connectPlain_def radio_env_def connect_ok_def Let_def)
  have "startReadLoop s2 = s2 \<and> \<not> tc_reader s2"
    using reconnect_never_reads [OF _ _ _ r c] by (simp add: radio_env_def)
  with r c show ?thesis by simp
qed

end
