(* ===== verification/TcpRace.thy ===== *)
theory TcpRace
  imports Main
begin

text \<open>
  The threads that share a \<open>TcpClient\<close> (\<open>core/src/network/tcp_client.cpp\<close>), one step per access of a
  shared member: any number of threads in \<open>send\<close>, the reader thread in \<open>readLoopFunc\<close>, and one thread
  that connects, starts the reader and disconnects. \<open>m_sendMutex\<close> orders the senders among each other only;
  \<open>closeSocket\<close> does not take it. Sequential semantics, with the resources a connection holds,
  are in \<open>TcpClient\<close>.
\<close>

section \<open>State\<close>

text \<open>
  TLS objects are addresses, descriptors numbers; \<open>tr_objects\<close> and \<open>tr_open\<close> are those of this client
  that have not been freed or closed, \<open>tr_foreign\<close> the descriptors the process has opened elsewhere.
\<close>

datatype sender = S_idle | S_checked | S_locked | S_ssl nat | S_fd "nat option"
datatype read_loop = RL_none | RL_loop | RL_ssl nat | RL_fd "nat option" | RL_lost | RL_callback
datatype control =
    Ctl_idle
  | Ctl_stopping "bool option" | Ctl_joining "bool option" | Ctl_joined "bool option"
  | Ctl_closing "bool option" | Ctl_freed "bool option" | Ctl_fd "bool option" | Ctl_closed "bool option"
  | Ctl_connecting bool | Ctl_opening bool | Ctl_opened | Ctl_ready bool

record shared_tcp =
  tr_fd :: "nat option"
  tr_ssl :: "nat option"
  tr_useTls :: bool
  tr_connected :: bool
  tr_readLoopRunning :: bool
  tr_joinable :: bool
  tr_sendMutex :: "nat option"
  tr_objects :: "nat list"
  tr_open :: "nat list"
  tr_foreign :: "nat list"
  tr_control :: control
  tr_reader :: read_loop
  tr_senders :: "nat \<Rightarrow> sender"

definition tcp_race_init :: shared_tcp where
  "tcp_race_init = \<lparr>tr_fd = None, tr_ssl = None, tr_useTls = False, tr_connected = False, tr_readLoopRunning = False,
     tr_joinable = False, tr_sendMutex = None, tr_objects = [], tr_open = [], tr_foreign = [], tr_control = Ctl_idle,
     tr_reader = RL_none, tr_senders = (\<lambda>_. S_idle)\<rparr>"

section \<open>Steps\<close>

text \<open>
  \<open>send\<close>: the check of \<open>m_connected\<close>, the lock, and for every part of the data a look at \<open>m_ssl\<close> or
  \<open>m_fd\<close> and the call with it. \<open>again\<close>: the call accepted a part and something is left. \<open>None\<close>: the thread
  waits.
\<close>

definition sender_at :: "nat \<Rightarrow> sender \<Rightarrow> shared_tcp \<Rightarrow> shared_tcp" where
  "sender_at t l s = s\<lparr>tr_senders := (tr_senders s)(t := l)\<rparr>"

definition send_step :: "nat \<Rightarrow> bool \<Rightarrow> shared_tcp \<Rightarrow> shared_tcp option" where
  "send_step t again s =
     (case tr_senders s t of
        S_idle \<Rightarrow> Some (if tr_connected s then sender_at t S_checked s else s)
      | S_checked \<Rightarrow> if tr_sendMutex s = None then Some (sender_at t S_locked (s\<lparr>tr_sendMutex := Some t\<rparr>)) else None
      | S_locked \<Rightarrow>
          Some (case tr_ssl s of Some a \<Rightarrow> sender_at t (if tr_useTls s then S_ssl a else S_fd (tr_fd s)) s
                | None \<Rightarrow> sender_at t (S_fd (tr_fd s)) s)
      | _ \<Rightarrow> Some (if again then sender_at t S_locked s else sender_at t S_idle (s\<lparr>tr_sendMutex := None\<rparr>)))"

text \<open>
  \<open>readLoopFunc\<close>: the check of \<open>m_readLoopRunning\<close>, the read, and after the loop the store of
  \<open>m_connected\<close> and the callback. \<open>again\<close>: the read did not end the loop.
\<close>

definition read_step :: "bool \<Rightarrow> shared_tcp \<Rightarrow> shared_tcp option" where
  "read_step again s =
     (case tr_reader s of
        RL_none \<Rightarrow> None
      | RL_loop \<Rightarrow>
          Some (if tr_readLoopRunning s then
                  (case tr_ssl s of Some a \<Rightarrow> s\<lparr>tr_reader := if tr_useTls s then RL_ssl a else RL_fd (tr_fd s)\<rparr>
                   | None \<Rightarrow> s\<lparr>tr_reader := RL_fd (tr_fd s)\<rparr>)
                else s\<lparr>tr_reader := RL_lost\<rparr>)
      | RL_lost \<Rightarrow> Some (s\<lparr>tr_connected := False, tr_reader := RL_callback\<rparr>)
      | RL_callback \<Rightarrow> Some (s\<lparr>tr_reader := RL_none\<rparr>)
      | _ \<Rightarrow> Some (s\<lparr>tr_reader := if again then RL_loop else RL_lost\<rparr>))"

text \<open>
  The controlling thread. \<open>disconnect\<close> stops and joins the reader, clears \<open>m_connected\<close> and closes;
  \<open>connect\<close> first disconnects when it finds \<open>m_connected\<close> set (\<open>Some tls\<close>: it goes on connecting), opens
  the socket, with TLS creates the object, and sets \<open>m_connected\<close>. \<open>Start\<close> is \<open>startReadLoop\<close>, which the
  engine calls after a connect that succeeded. \<open>x\<close> is what \<open>socket\<close> or \<open>SSL_new\<close> returns; without \<open>ok\<close>
  they, or \<open>SSL_connect\<close>, fail.
\<close>

datatype request = Connect bool | Disconnect | Start

definition after_close :: "bool option \<Rightarrow> control" where
  "after_close k = (case k of None \<Rightarrow> Ctl_idle | Some tls \<Rightarrow> Ctl_connecting tls)"

definition control_step :: "request \<Rightarrow> bool \<Rightarrow> nat \<Rightarrow> shared_tcp \<Rightarrow> shared_tcp option" where
  "control_step rq ok x s =
     (case tr_control s of
        Ctl_idle \<Rightarrow>
          (case rq of
             Connect tls \<Rightarrow> Some (s\<lparr>tr_control := if tr_connected s then Ctl_stopping (Some tls) else Ctl_connecting tls\<rparr>)
           | Disconnect \<Rightarrow> Some (s\<lparr>tr_control := Ctl_stopping None\<rparr>)
           | Start \<Rightarrow>
               if \<not> tr_connected s \<or> tr_readLoopRunning s then Some s
               else Some (s\<lparr>tr_readLoopRunning := True, tr_joinable := True, tr_reader := RL_loop\<rparr>))
      | Ctl_stopping k \<Rightarrow> Some (s\<lparr>tr_readLoopRunning := False, tr_control := if tr_joinable s then Ctl_joining k else Ctl_joined k\<rparr>)
      | Ctl_joining k \<Rightarrow>
          if tr_reader s = RL_none then Some (s\<lparr>tr_joinable := False, tr_control := Ctl_joined k\<rparr>) else None
      | Ctl_joined k \<Rightarrow> Some (s\<lparr>tr_connected := False, tr_control := Ctl_closing k\<rparr>)
      | Ctl_closing k \<Rightarrow>
          Some (case tr_ssl s of None \<Rightarrow> s\<lparr>tr_control := Ctl_fd k\<rparr>
                | Some a \<Rightarrow> s\<lparr>tr_objects := removeAll a (tr_objects s), tr_control := Ctl_freed k\<rparr>)
      | Ctl_freed k \<Rightarrow> Some (s\<lparr>tr_ssl := None, tr_control := Ctl_fd k\<rparr>)
      | Ctl_fd k \<Rightarrow>
          Some (case tr_fd s of None \<Rightarrow> s\<lparr>tr_control := after_close k\<rparr>
                | Some d \<Rightarrow> s\<lparr>tr_open := removeAll d (tr_open s), tr_control := Ctl_closed k\<rparr>)
      | Ctl_closed k \<Rightarrow> Some (s\<lparr>tr_fd := None, tr_control := after_close k\<rparr>)
      | Ctl_connecting tls \<Rightarrow> Some (s\<lparr>tr_useTls := tls, tr_control := Ctl_opening tls\<rparr>)
      | Ctl_opening tls \<Rightarrow>
          if \<not> ok then Some (s\<lparr>tr_control := Ctl_idle\<rparr>)
          else if x \<in> set (tr_open s) \<or> x \<in> set (tr_foreign s) then None
          else Some (s\<lparr>tr_fd := Some x, tr_open := x # tr_open s, tr_control := if tls then Ctl_opened else Ctl_ready False\<rparr>)
      | Ctl_opened \<Rightarrow>
          if \<not> ok then Some (s\<lparr>tr_ssl := None, tr_control := Ctl_closing None\<rparr>)
          else if x \<in> set (tr_objects s) then None
          else Some (s\<lparr>tr_ssl := Some x, tr_objects := x # tr_objects s, tr_control := Ctl_ready True\<rparr>)
      | Ctl_ready tls \<Rightarrow>
          Some (if ok \<or> \<not> tls then s\<lparr>tr_connected := True, tr_control := Ctl_idle\<rparr> else s\<lparr>tr_control := Ctl_closing None\<rparr>))"

text \<open>The rest of the process opens a descriptor: any number that is free.\<close>

definition open_step :: "nat \<Rightarrow> shared_tcp \<Rightarrow> shared_tcp option" where
  "open_step d s = (if d \<in> set (tr_open s) \<or> d \<in> set (tr_foreign s) then None else Some (s\<lparr>tr_foreign := d # tr_foreign s\<rparr>))"

datatype tcp_choice = Send nat bool | Read_loop bool | Control request bool nat | Open nat

fun tcp_race_step :: "tcp_choice \<Rightarrow> shared_tcp \<Rightarrow> shared_tcp option" where
  "tcp_race_step (Send t again) s = send_step t again s"
| "tcp_race_step (Read_loop again) s = read_step again s"
| "tcp_race_step (Control rq ok x) s = control_step rq ok x s"
| "tcp_race_step (Open d) s = open_step d s"

primrec tcp_race_run :: "tcp_choice list \<Rightarrow> shared_tcp \<Rightarrow> shared_tcp option" where
  "tcp_race_run [] s = Some s"
| "tcp_race_run (c # cs) s = Option.bind (tcp_race_step c s) (tcp_race_run cs)"

lemma tcp_race_run_append: "tcp_race_run (cs @ ds) s = Option.bind (tcp_race_run cs s) (tcp_race_run ds)"
  by (induction cs arbitrary: s) (auto split: bind_splits)

lemma tcp_race_run_three:
  "tcp_race_run cs s = Some s1 \<Longrightarrow> tcp_race_run ds s1 = Some s2 \<Longrightarrow> tcp_race_run es s2 = Some s3 \<Longrightarrow>
     tcp_race_run (cs @ ds @ es) s = Some s3"
  by (simp add: tcp_race_run_append)

section \<open>What can go wrong\<close>

text \<open>A thread is about to use a TLS object that has been freed, or to write to a descriptor that is not this client's.\<close>

definition sends_on_freed :: "nat \<Rightarrow> shared_tcp \<Rightarrow> bool" where
  "sends_on_freed t s \<longleftrightarrow> (\<exists>a. tr_senders s t = S_ssl a \<and> a \<notin> set (tr_objects s))"

definition sends_elsewhere :: "nat \<Rightarrow> shared_tcp \<Rightarrow> bool" where
  "sends_elsewhere t s \<longleftrightarrow> (\<exists>d. tr_senders s t = S_fd (Some d) \<and> d \<in> set (tr_foreign s))"

section \<open>The reader and the senders among each other\<close>

fun reading_loop :: "read_loop \<Rightarrow> bool" where
  "reading_loop RL_loop = True" | "reading_loop (RL_ssl _) = True" | "reading_loop (RL_fd _) = True"
| "reading_loop RL_lost = True" | "reading_loop _ = False"

fun sending :: "sender \<Rightarrow> bool" where
  "sending S_locked = True" | "sending (S_ssl _) = True" | "sending (S_fd _) = True" | "sending _ = False"

text \<open>Where \<open>m_connected\<close> may be set; where \<open>m_ssl\<close> or \<open>m_fd\<close> may dangle.\<close>

fun may_be_connected :: "control \<Rightarrow> bool" where
  "may_be_connected Ctl_idle = True" | "may_be_connected (Ctl_stopping _) = True" | "may_be_connected (Ctl_joining _) = True"
| "may_be_connected (Ctl_joined _) = True" | "may_be_connected _ = False"

fun has_socket :: "control \<Rightarrow> bool" where
  "has_socket Ctl_opened = True" | "has_socket (Ctl_ready _) = True" | "has_socket _ = False"

definition ssl_live :: "shared_tcp \<Rightarrow> bool" where
  "ssl_live s \<longleftrightarrow> (\<forall>k. tr_control s \<noteq> Ctl_freed k) \<longrightarrow> (\<forall>a. tr_ssl s = Some a \<longrightarrow> a \<in> set (tr_objects s))"

definition fd_live :: "shared_tcp \<Rightarrow> bool" where
  "fd_live s \<longleftrightarrow> (\<forall>k. tr_control s \<noteq> Ctl_closed k) \<longrightarrow> (\<forall>d. tr_fd s = Some d \<longrightarrow> d \<in> set (tr_open s))"

fun is_set :: "nat option \<Rightarrow> bool" where
  "is_set None = False" | "is_set (Some _) = True"

definition exclusive :: "(nat \<Rightarrow> sender) \<Rightarrow> nat option \<Rightarrow> bool" where
  "exclusive senders mutex \<longleftrightarrow> (\<forall>t. sending (senders t) \<longleftrightarrow> mutex = Some t)"

definition apart :: "nat list \<Rightarrow> nat list \<Rightarrow> bool" where
  "apart xs ys \<longleftrightarrow> set xs \<inter> set ys = {}"

lemma apart_simps [simp]:
  "apart (x # xs) ys \<longleftrightarrow> x \<notin> set ys \<and> apart xs ys" "apart xs (y # ys) \<longleftrightarrow> y \<notin> set xs \<and> apart xs ys"
  "apart xs ys \<Longrightarrow> apart (removeAll d xs) ys"
  by (auto simp: apart_def)

definition tcp_race_ok :: "shared_tcp \<Rightarrow> bool" where
  "tcp_race_ok s \<longleftrightarrow>
     (reading_loop (tr_reader s) \<longrightarrow> tr_connected s) \<and>
     (tr_connected s \<longrightarrow> may_be_connected (tr_control s)) \<and>
     (tr_reader s \<noteq> RL_none \<longrightarrow> tr_joinable s \<and> (\<forall>k. tr_control s \<noteq> Ctl_joined k)) \<and>
     (\<forall>a. tr_reader s = RL_ssl a \<longrightarrow> tr_ssl s = Some a) \<and> (\<forall>d. tr_reader s = RL_fd d \<longrightarrow> tr_fd s = d) \<and>
     ssl_live s \<and> fd_live s \<and> apart (tr_open s) (tr_foreign s) \<and>
     (tr_connected s \<or> has_socket (tr_control s) \<longrightarrow> is_set (tr_fd s)) \<and>
     exclusive (tr_senders s) (tr_sendMutex s)"

lemma tcp_race_ok_init: "tcp_race_ok tcp_race_init"
  by (simp add: tcp_race_ok_def tcp_race_init_def ssl_live_def fd_live_def exclusive_def apart_def)

lemma send_step_fields:
  assumes "send_step t again s = Some s'"
  shows "tr_fd s' = tr_fd s" "tr_ssl s' = tr_ssl s" "tr_connected s' = tr_connected s" "tr_joinable s' = tr_joinable s"
    "tr_objects s' = tr_objects s" "tr_open s' = tr_open s" "tr_foreign s' = tr_foreign s" "tr_control s' = tr_control s"
    "tr_reader s' = tr_reader s" "tr_readLoopRunning s' = tr_readLoopRunning s" "tr_useTls s' = tr_useTls s"
  using assms by (auto simp: send_step_def sender_at_def split: sender.splits if_splits option.splits)

lemma send_step_mutex:
  assumes "exclusive (tr_senders s) (tr_sendMutex s)" "send_step t again s = Some s'"
  shows "exclusive (tr_senders s') (tr_sendMutex s')"
proof -
  note ex = assms(1) [unfolded exclusive_def]
  have t: "sending (tr_senders s t) \<longleftrightarrow> tr_sendMutex s = Some t" using ex by blast
  show ?thesis
  proof (cases "tr_senders s t")
    case S_idle
    then have "s' = s \<or> s' = sender_at t S_checked s" using assms(2) by (auto simp: send_step_def split: if_splits)
    then show ?thesis
    proof
      assume "s' = sender_at t S_checked s"
      then show ?thesis using ex t S_idle by (simp add: sender_at_def exclusive_def)
    qed (use assms(1) in simp)
  next
    case S_checked
    then have "tr_sendMutex s = None" "s' = sender_at t S_locked (s\<lparr>tr_sendMutex := Some t\<rparr>)"
      using assms(2) by (auto simp: send_step_def split: if_splits)
    then show ?thesis using ex by (simp add: sender_at_def exclusive_def)
  next
    case S_locked
    then obtain l where "s' = sender_at t l s" "sending l"
      using assms(2) by (auto simp: send_step_def split: option.splits if_splits)
    then show ?thesis using ex t S_locked by (simp add: sender_at_def exclusive_def)
  next
    case (S_ssl a)
    then have "s' = (if again then sender_at t S_locked s else sender_at t S_idle (s\<lparr>tr_sendMutex := None\<rparr>))"
      using assms(2) by (simp add: send_step_def)
    then show ?thesis using ex t S_ssl by (simp add: sender_at_def exclusive_def)
  next
    case (S_fd d)
    then have "s' = (if again then sender_at t S_locked s else sender_at t S_idle (s\<lparr>tr_sendMutex := None\<rparr>))"
      using assms(2) by (simp add: send_step_def)
    then show ?thesis using ex t S_fd by (simp add: sender_at_def exclusive_def)
  qed
qed

lemma send_step_ok:
  assumes "tcp_race_ok s" "send_step t again s = Some s'"
  shows "tcp_race_ok s'"
  using assms(1) send_step_mutex [OF _ assms(2)] unfolding tcp_race_ok_def ssl_live_def fd_live_def send_step_fields [OF assms(2)]
  by blast

lemma read_step_ok:
  assumes "tcp_race_ok s" "read_step again s = Some s'"
  shows "tcp_race_ok s'"
  using assms
  by (cases "tr_reader s"; clarsimp simp: read_step_def split: if_splits option.splits)
    (simp_all add: tcp_race_ok_def ssl_live_def fd_live_def)

lemma open_step_ok:
  assumes "tcp_race_ok s" "open_step d s = Some s'"
  shows "tcp_race_ok s'"
proof -
  from assms(2) have "s' = s\<lparr>tr_foreign := d # tr_foreign s\<rparr>" "d \<notin> set (tr_open s)"
    by (auto simp: open_step_def split: if_splits)
  with assms(1) show ?thesis by (simp add: tcp_race_ok_def ssl_live_def fd_live_def)
qed

lemma control_step_ok:
  assumes "tcp_race_ok s" "control_step rq ok x s = Some s'"
  shows "tcp_race_ok s'"
  using assms
  by (cases "tr_control s"; cases rq; clarsimp simp: control_step_def after_close_def split: if_splits option.splits)
    (clarsimp simp: tcp_race_ok_def ssl_live_def fd_live_def)+

lemma tcp_race_step_ok: "tcp_race_ok s \<Longrightarrow> tcp_race_step c s = Some s' \<Longrightarrow> tcp_race_ok s'"
  by (cases c) (auto intro: send_step_ok read_step_ok control_step_ok open_step_ok)

lemma tcp_race_run_ok: "tcp_race_ok s \<Longrightarrow> tcp_race_run cs s = Some s' \<Longrightarrow> tcp_race_ok s'"
  by (induction cs arbitrary: s) (auto split: bind_splits intro: tcp_race_step_ok)

section \<open>A disconnect under a sender\<close>

text \<open>The reader, told to stop, comes to its end, and nothing else changes but \<open>m_connected\<close>.\<close>

lemma reader_leaves:
  assumes "\<not> tr_readLoopRunning s"
  obtains cs c where "tcp_race_run cs s = Some (s\<lparr>tr_reader := RL_none, tr_connected := c\<rparr>)"
proof -
  have eq: "s\<lparr>tr_reader := RL_none, tr_connected := tr_connected s\<rparr> = s" if "tr_reader s = RL_none" using that by simp
  show thesis
  proof (cases "tr_reader s")
    case RL_none
    then show thesis using that [of "[]" "tr_connected s"] eq by simp
  next
    case RL_loop
    then show thesis using that [of "[Read_loop False, Read_loop False, Read_loop False]" False] assms by (simp add: read_step_def)
  next
    case (RL_ssl a)
    then show thesis using that [of "[Read_loop False, Read_loop False, Read_loop False]" False] assms by (simp add: read_step_def)
  next
    case (RL_fd d)
    then show thesis using that [of "[Read_loop False, Read_loop False, Read_loop False]" False] assms by (simp add: read_step_def)
  next
    case RL_lost
    then show thesis using that [of "[Read_loop False, Read_loop False]" False] assms by (simp add: read_step_def)
  next
    case RL_callback
    then show thesis using that [of "[Read_loop False]" "tr_connected s"] assms by (simp add: read_step_def)
  qed
qed

abbreviation (input) disconnecting :: "tcp_choice" where
  "disconnecting \<equiv> Control Disconnect True 0"

text \<open>\<open>disconnect\<close> runs up to \<open>closeSocket\<close> whatever the senders and the reader do.\<close>

lemma disconnect_closes:
  assumes "tcp_race_ok s" "tr_control s = Ctl_idle"
  obtains cs where "tcp_race_run cs s =
    Some (s\<lparr>tr_readLoopRunning := False, tr_joinable := False, tr_reader := RL_none, tr_connected := False, tr_control := Ctl_closing None\<rparr>)"
proof (cases "tr_joinable s")
  case False
  then have "tr_reader s = RL_none" using assms(1) by (auto simp: tcp_race_ok_def)
  then have "tcp_race_run [disconnecting, disconnecting, disconnecting] s =
      Some (s\<lparr>tr_readLoopRunning := False, tr_joinable := False, tr_reader := RL_none, tr_connected := False, tr_control := Ctl_closing None\<rparr>)"
    using False assms(2) by (simp add: control_step_def)
  then show thesis by (rule that)
next
  case True
  let ?s = "s\<lparr>tr_readLoopRunning := False, tr_control := Ctl_joining None\<rparr>"
  obtain cs c where cs: "tcp_race_run cs ?s = Some (?s\<lparr>tr_reader := RL_none, tr_connected := c\<rparr>)" by (rule reader_leaves [of ?s]) simp
  have "tcp_race_run [disconnecting, disconnecting] s = Some ?s" using True assms(2) by (simp add: control_step_def)
  with cs have "tcp_race_run ([disconnecting, disconnecting] @ cs @ [disconnecting, disconnecting]) s =
      Some (s\<lparr>tr_readLoopRunning := False, tr_joinable := False, tr_reader := RL_none, tr_connected := False, tr_control := Ctl_closing None\<rparr>)"
    unfolding tcp_race_run_append by (simp add: control_step_def)
  then show thesis by (rule that)
qed

section \<open>Properties\<close>

text \<open>
  C25. Whatever the threads do and however they interleave, the reader never reads from a TLS object that
  has been freed or a descriptor that has been closed, and no two threads are in the loop of \<open>send\<close> at
  once, so that frames are not mixed.
\<close>

theorem reader_connection_live:
  assumes "tcp_race_run cs tcp_race_init = Some s"
  shows "(tr_reader s = RL_ssl a \<longrightarrow> a \<in> set (tr_objects s)) \<and> (tr_reader s = RL_fd (Some d) \<longrightarrow> d \<in> set (tr_open s)) \<and>
    (sending (tr_senders s t) \<and> sending (tr_senders s u) \<longrightarrow> t = u)"
proof -
  have ok: "tcp_race_ok s" by (rule tcp_race_run_ok [OF tcp_race_ok_init assms])
  have idle: "tr_control s \<noteq> Ctl_freed k \<and> tr_control s \<noteq> Ctl_closed k" if "reading_loop (tr_reader s)" for k
    using ok that by (auto simp: tcp_race_ok_def)
  have "a \<in> set (tr_objects s)" if "tr_reader s = RL_ssl a"
    using ok idle that by (simp add: tcp_race_ok_def ssl_live_def)
  moreover have "d \<in> set (tr_open s)" if "tr_reader s = RL_fd (Some d)"
    using ok idle that by (simp add: tcp_race_ok_def fd_live_def)
  moreover have "sending (tr_senders s t) \<and> sending (tr_senders s u) \<longrightarrow> t = u"
    using ok by (auto simp: tcp_race_ok_def exclusive_def)
  ultimately show ?thesis by blast
qed

text \<open>
  C26. A sender is not protected: whenever a connection is up, the controlling thread and a thread \<open>t\<close> are
  outside the client and no other thread sends, the two can come to a state in which \<open>t\<close> writes to a TLS
  object that \<open>disconnect\<close> has freed or, without TLS, to a descriptor that now belongs to
  another part of the process.
\<close>

theorem send_races_with_disconnect:
  assumes "tcp_race_run cs tcp_race_init = Some s" and "tr_connected s" and "tr_control s = Ctl_idle"
    and "tr_senders s t = S_idle" and "tr_sendMutex s = None"
  shows "\<exists>ds s'. tcp_race_run ds s = Some s' \<and>
    (if tr_useTls s \<and> tr_ssl s \<noteq> None then sends_on_freed t s' else sends_elsewhere t s')"
proof -
  have ok: "tcp_race_ok s" by (rule tcp_race_run_ok [OF tcp_race_ok_init assms(1)])
  let ?l = "if tr_useTls s \<and> tr_ssl s \<noteq> None then S_ssl (the (tr_ssl s)) else S_fd (tr_fd s)"
  let ?s1 = "sender_at t ?l (s\<lparr>tr_sendMutex := Some t\<rparr>)"
  let ?s2 = "?s1\<lparr>tr_readLoopRunning := False, tr_joinable := False, tr_reader := RL_none, tr_connected := False,
    tr_control := Ctl_closing None\<rparr>"
  have sends: "tcp_race_run [Send t True, Send t True, Send t True] s = Some ?s1"
    using assms(2,4,5) by (simp add: send_step_def sender_at_def split: option.split)
  have "tcp_race_ok ?s1" by (rule tcp_race_run_ok [OF ok sends])
  then obtain ds where ds: "tcp_race_run ds ?s1 = Some ?s2"
    by (rule disconnect_closes) (simp add: sender_at_def assms(3))
  from ok assms(2) obtain d where d: "tr_fd s = Some d" by (cases "tr_fd s") (simp_all add: tcp_race_ok_def)
  have "fd_live s" "apart (tr_open s) (tr_foreign s)" using ok by (simp_all add: tcp_race_ok_def)
  with d have fd: "tr_fd s = Some d" "d \<in> set (tr_open s)" "d \<notin> set (tr_foreign s)"
    by (auto simp: assms(3) fd_live_def apart_def)
  have "\<exists>es s'. tcp_race_run es ?s2 = Some s' \<and>
      (if tr_useTls s \<and> tr_ssl s \<noteq> None then sends_on_freed t s' else sends_elsewhere t s')"
  proof (cases "tr_ssl s")
    case None
    have "\<exists>s'. tcp_race_run [disconnecting, disconnecting, Open d] ?s2 = Some s' \<and> sends_elsewhere t s'"
      using fd None by (simp add: control_step_def open_step_def sender_at_def sends_elsewhere_def)
    with None show ?thesis by (simp del: tcp_race_run.simps) blast
  next
    case (Some a)
    have "\<exists>s'. tcp_race_run [disconnecting] ?s2 = Some s' \<and> sends_on_freed t s'" if "tr_useTls s"
      using that Some by (simp add: control_step_def sender_at_def sends_on_freed_def)
    moreover have "\<exists>s'. tcp_race_run [disconnecting, disconnecting, disconnecting, Open d] ?s2 = Some s' \<and> sends_elsewhere t s'"
      if "\<not> tr_useTls s"
      using that fd Some by (simp add: control_step_def open_step_def sender_at_def sends_elsewhere_def)
    ultimately show ?thesis using Some by (cases "tr_useTls s") (simp_all del: tcp_race_run.simps, blast+)
  qed
  then obtain es s' where es: "tcp_race_run es ?s2 = Some s'"
    "if tr_useTls s \<and> tr_ssl s \<noteq> None then sends_on_freed t s' else sends_elsewhere t s'" by blast
  from tcp_race_run_three [OF sends ds es(1)] es(2) show ?thesis by blast
qed

text \<open>A connection without TLS, its reader waiting, for the witnesses.\<close>

definition plain_run :: "tcp_choice list" where
  "plain_run = [Control (Connect False) True 0, Control (Connect False) True 0, Control (Connect False) True 7,
     Control (Connect False) True 0, Control Start True 0, Read_loop True]"

lemma plain_run_end:
  obtains s where "tcp_race_run plain_run tcp_race_init = Some s" "tr_connected s" "tr_control s = Ctl_idle" "tr_senders s 1 = S_idle"
    "tr_sendMutex s = None" "tr_reader s = RL_fd (Some 7)" "\<not> tr_useTls s"
  by (simp add: plain_run_def tcp_race_init_def control_step_def read_step_def)

theorem reader_connection_live_witness:
  "\<exists>s. tcp_race_run plain_run tcp_race_init = Some s \<and> tr_reader s = RL_fd (Some 7) \<and> 7 \<in> set (tr_open s)"
  by (rule plain_run_end) (use reader_connection_live [of plain_run] in blast)

theorem send_races_with_disconnect_witness:
  "\<exists>s ds s'. tcp_race_run plain_run tcp_race_init = Some s \<and> tcp_race_run ds s = Some s' \<and> sends_elsewhere 1 s'"
proof -
  obtain s where s: "tcp_race_run plain_run tcp_race_init = Some s" "tr_connected s" "tr_control s = Ctl_idle" "tr_senders s 1 = S_idle"
    "tr_sendMutex s = None" "\<not> tr_useTls s" by (rule plain_run_end)
  from send_races_with_disconnect [OF s(1-5)] s(1,6) show ?thesis by auto
qed

end
