(* ===== verification/ApiTypes.thy ===== *)
theory ApiTypes
  imports Prelude
begin

text \<open>
  The types of the public interface, \<open>core/include/qk4_api.h\<close>: its enumerations, each with the integer
  C gives its enumerators, and the configuration. The code converts enumerations to and from \<open>int\<close>
  freely, so the operations of the model take and return integers; the enumerations say which of them
  have a meaning.
\<close>

section \<open>Enumerations\<close>

datatype qk4_mode = Mode_LSB | Mode_USB | Mode_CW | Mode_CW_R | Mode_DATA | Mode_DATA_R | Mode_AM | Mode_FM

primrec mode_code :: "qk4_mode \<Rightarrow> int" where
  "mode_code Mode_LSB = 0" | "mode_code Mode_USB = 1" | "mode_code Mode_CW = 2" | "mode_code Mode_CW_R = 3"
| "mode_code Mode_DATA = 4" | "mode_code Mode_DATA_R = 5" | "mode_code Mode_AM = 6" | "mode_code Mode_FM = 7"

datatype qk4_agc = Agc_OFF | Agc_SLOW | Agc_FAST

primrec agc_code :: "qk4_agc \<Rightarrow> int" where
  "agc_code Agc_OFF = 0" | "agc_code Agc_SLOW = 1" | "agc_code Agc_FAST = 2"

datatype qk4_vfo = Vfo_A | Vfo_B

primrec vfo_code :: "qk4_vfo \<Rightarrow> int" where
  "vfo_code Vfo_A = 0" | "vfo_code Vfo_B = 1"

datatype qk4_connection_state = Conn_DISCONNECTED | Conn_CONNECTING | Conn_CONNECTED | Conn_RECONNECTING

primrec connection_code :: "qk4_connection_state \<Rightarrow> int" where
  "connection_code Conn_DISCONNECTED = 0" | "connection_code Conn_CONNECTING = 1"
| "connection_code Conn_CONNECTED = 2" | "connection_code Conn_RECONNECTING = 3"

datatype qk4_nr_algorithm = Nr_LMS | Nr_SSNR

primrec nr_code :: "qk4_nr_algorithm \<Rightarrow> int" where
  "nr_code Nr_LMS = 0" | "nr_code Nr_SSNR = 1"

datatype qk4_cw_element = Cw_DIT | Cw_DAH | Cw_RELEASE

primrec cw_element_code :: "qk4_cw_element \<Rightarrow> int" where
  "cw_element_code Cw_DIT = 0" | "cw_element_code Cw_DAH = 1" | "cw_element_code Cw_RELEASE = 2"

datatype qk4_iambic_mode = Iambic_A | Iambic_B

primrec iambic_code :: "qk4_iambic_mode \<Rightarrow> int" where
  "iambic_code Iambic_A = 0" | "iambic_code Iambic_B = 1"

datatype qk4_channel = Channel_MAIN | Channel_SUB

primrec channel_code :: "qk4_channel \<Rightarrow> int" where
  "channel_code Channel_MAIN = 0" | "channel_code Channel_SUB = 1"

datatype qk4_error =
    Err_OK | Err_INVALID_HANDLE | Err_NOT_CONNECTED | Err_TIMEOUT | Err_TLS_FAILED | Err_INVALID_PARAM
  | Err_REJECTED | Err_BUFFER_OVERFLOW | Err_NOT_SUPPORTED | Err_INTERNAL

primrec error_code :: "qk4_error \<Rightarrow> int" where
  "error_code Err_OK = 0" | "error_code Err_INVALID_HANDLE = -1" | "error_code Err_NOT_CONNECTED = -2"
| "error_code Err_TIMEOUT = -3" | "error_code Err_TLS_FAILED = -4" | "error_code Err_INVALID_PARAM = -5"
| "error_code Err_REJECTED = -6" | "error_code Err_BUFFER_OVERFLOW = -7"
| "error_code Err_NOT_SUPPORTED = -8" | "error_code Err_INTERNAL = -9"

section \<open>Names for the codes\<close>

abbreviation (input) QK4_CONN_DISCONNECTED :: int where "QK4_CONN_DISCONNECTED \<equiv> 0"
abbreviation (input) QK4_CONN_CONNECTING :: int where "QK4_CONN_CONNECTING \<equiv> 1"
abbreviation (input) QK4_CONN_CONNECTED :: int where "QK4_CONN_CONNECTED \<equiv> 2"
abbreviation (input) QK4_CONN_RECONNECTING :: int where "QK4_CONN_RECONNECTING \<equiv> 3"

abbreviation (input) QK4_ERR_INVALID_HANDLE :: int where "QK4_ERR_INVALID_HANDLE \<equiv> -1"
abbreviation (input) QK4_ERR_NOT_CONNECTED :: int where "QK4_ERR_NOT_CONNECTED \<equiv> -2"
abbreviation (input) QK4_ERR_TIMEOUT :: int where "QK4_ERR_TIMEOUT \<equiv> -3"
abbreviation (input) QK4_ERR_INVALID_PARAM :: int where "QK4_ERR_INVALID_PARAM \<equiv> -5"

lemma named_codes:
  "error_code Err_INVALID_HANDLE = QK4_ERR_INVALID_HANDLE" "error_code Err_NOT_CONNECTED = QK4_ERR_NOT_CONNECTED"
  "error_code Err_TIMEOUT = QK4_ERR_TIMEOUT" "error_code Err_INVALID_PARAM = QK4_ERR_INVALID_PARAM"
  "connection_code Conn_DISCONNECTED = QK4_CONN_DISCONNECTED" "connection_code Conn_CONNECTING = QK4_CONN_CONNECTING"
  "connection_code Conn_CONNECTED = QK4_CONN_CONNECTED" "connection_code Conn_RECONNECTING = QK4_CONN_RECONNECTING"
  by simp_all

text \<open>The integers that are codes: as ranges, for proofs.\<close>

lemma mode_codes: "range mode_code = {0..7}"
proof (intro equalityI subsetI)
  fix x assume "x \<in> range mode_code"
  then obtain m where "x = mode_code m" by blast
  then show "x \<in> {0..7}" by (cases m) simp_all
next
  fix x :: int assume "x \<in> {0..7}"
  then have "x = 0 \<or> x = 1 \<or> x = 2 \<or> x = 3 \<or> x = 4 \<or> x = 5 \<or> x = 6 \<or> x = 7" by auto
  then show "x \<in> range mode_code"
    using rangeI [of mode_code Mode_LSB] rangeI [of mode_code Mode_USB] rangeI [of mode_code Mode_CW]
      rangeI [of mode_code Mode_CW_R] rangeI [of mode_code Mode_DATA] rangeI [of mode_code Mode_DATA_R]
      rangeI [of mode_code Mode_AM] rangeI [of mode_code Mode_FM]
    by auto
qed

lemma connection_codes: "range connection_code = {0..3}"
proof (intro equalityI subsetI)
  fix x assume "x \<in> range connection_code"
  then obtain c where "x = connection_code c" by blast
  then show "x \<in> {0..3}" by (cases c) simp_all
next
  fix x :: int assume "x \<in> {0..3}"
  then have "x = 0 \<or> x = 1 \<or> x = 2 \<or> x = 3" by auto
  then show "x \<in> range connection_code"
    using rangeI [of connection_code Conn_DISCONNECTED] rangeI [of connection_code Conn_CONNECTING]
      rangeI [of connection_code Conn_CONNECTED] rangeI [of connection_code Conn_RECONNECTING]
    by auto
qed

lemma error_codes [simp]: "0 \<in> range error_code" "-1 \<in> range error_code" "-2 \<in> range error_code"
  "-3 \<in> range error_code" "-4 \<in> range error_code" "-5 \<in> range error_code"
  using rangeI [of error_code Err_OK] rangeI [of error_code Err_INVALID_HANDLE] rangeI [of error_code Err_NOT_CONNECTED]
    rangeI [of error_code Err_TIMEOUT] rangeI [of error_code Err_TLS_FAILED] rangeI [of error_code Err_INVALID_PARAM]
  by simp_all

lemma error_code_inj: "inj error_code"
proof (rule injI)
  fix a b assume "error_code a = error_code b"
  then show "a = b" by (cases a; cases b) simp_all
qed

section \<open>Configuration\<close>

text \<open>\<open>qk4_config_t\<close>; a value that is not positive asks for the default.\<close>

record qk4_config =
  cfg_audio_jitter_ms :: int
  cfg_spectrum_max_fps :: int
  cfg_keepalive_interval_s :: int
  cfg_keepalive_max_probes :: int
  cfg_reconnect_max_attempts :: int

end
