(* ===== verification/Floats.thy ===== *)
theory Floats
  imports Float64
begin

text \<open>
  IEEE 754 arithmetic with its special values, for the signal processing: single and double precision
  over the rationals, with infinities and NaN. The sign of a zero is not kept. The main facts:
  rounding is exact on representable numbers and never passes a representable bound.
\<close>

section \<open>Values and rounding\<close>

text \<open>\<open>Inf True\<close> is minus infinity.\<close>

datatype fval = Fin rat | Inf bool | NaN

text \<open>\<open>p\<close> bits of precision, exponents of the last bit from \<open>emin\<close>, values below \<open>2 ^ emax\<close>.\<close>

definition last_bit :: "int \<Rightarrow> int \<Rightarrow> rat \<Rightarrow> int" where
  "last_bit p emin x = max (ilog2 \<bar>x\<bar> - (p - 1)) emin"

definition round_to :: "int \<Rightarrow> int \<Rightarrow> int \<Rightarrow> rat \<Rightarrow> fval" where
  "round_to p emin emax x =
     (if x = 0 then Fin 0
      else let q = last_bit p emin x; r = of_int (rne (x / 2 powi q)) * 2 powi q
           in if r \<noteq> 0 \<and> emax \<le> ilog2 \<bar>r\<bar> then Inf (x < 0) else Fin r)"

definition single :: "rat \<Rightarrow> fval" where
  "single = round_to 24 (-149) 128"

definition double :: "rat \<Rightarrow> fval" where
  "double = round_to 53 (-1074) 1024"

section \<open>Operations\<close>

text \<open>Each takes the rounding of its result's type.\<close>

fun add :: "(rat \<Rightarrow> fval) \<Rightarrow> fval \<Rightarrow> fval \<Rightarrow> fval" where
  "add rd (Fin a) (Fin b) = rd (a + b)"
| "add rd (Inf s) (Fin b) = Inf s"
| "add rd (Fin a) (Inf t) = Inf t"
| "add rd (Inf s) (Inf t) = (if s = t then Inf s else NaN)"
| "add rd NaN b = NaN"
| "add rd a NaN = NaN"

primrec neg :: "fval \<Rightarrow> fval" where
  "neg (Fin a) = Fin (- a)"
| "neg (Inf s) = Inf (\<not> s)"
| "neg NaN = NaN"

definition sub :: "(rat \<Rightarrow> fval) \<Rightarrow> fval \<Rightarrow> fval \<Rightarrow> fval" where
  "sub rd a b = add rd a (neg b)"

fun mul :: "(rat \<Rightarrow> fval) \<Rightarrow> fval \<Rightarrow> fval \<Rightarrow> fval" where
  "mul rd (Fin a) (Fin b) = rd (a * b)"
| "mul rd (Inf s) (Fin b) = (if b = 0 then NaN else Inf (s \<noteq> (b < 0)))"
| "mul rd (Fin a) (Inf t) = (if a = 0 then NaN else Inf ((a < 0) \<noteq> t))"
| "mul rd (Inf s) (Inf t) = Inf (s \<noteq> t)"
| "mul rd NaN b = NaN"
| "mul rd a NaN = NaN"

fun quot :: "(rat \<Rightarrow> fval) \<Rightarrow> fval \<Rightarrow> fval \<Rightarrow> fval" where
  "quot rd (Fin a) (Fin b) = (if b = 0 then (if a = 0 then NaN else Inf (a < 0)) else rd (a / b))"
| "quot rd (Inf s) (Fin b) = Inf (s \<noteq> (b < 0))"
| "quot rd (Fin a) (Inf t) = Fin 0"
| "quot rd (Inf s) (Inf t) = NaN"
| "quot rd NaN b = NaN"
| "quot rd a NaN = NaN"

text \<open>A conversion between the two precisions.\<close>

primrec convert :: "(rat \<Rightarrow> fval) \<Rightarrow> fval \<Rightarrow> fval" where
  "convert rd (Fin a) = rd a"
| "convert rd (Inf s) = Inf s"
| "convert rd NaN = NaN"

text \<open>\<open>a < b\<close>, false for NaN.\<close>

fun less :: "fval \<Rightarrow> fval \<Rightarrow> bool" where
  "less (Fin a) (Fin b) = (a < b)"
| "less (Inf s) (Fin b) = s"
| "less (Fin a) (Inf t) = (\<not> t)"
| "less (Inf s) (Inf t) = (s \<and> \<not> t)"
| "less a b = False"

text \<open>\<open>a <= b\<close>, false for NaN.\<close>

definition leq :: "fval \<Rightarrow> fval \<Rightarrow> bool" where
  "leq a b = (less a b \<or> a = b \<and> a \<noteq> NaN)"

text \<open>\<open>std::clamp\<close> and \<open>std::max\<close>.\<close>

definition clampf :: "fval \<Rightarrow> fval \<Rightarrow> fval \<Rightarrow> fval" where
  "clampf v lo hi = (if less v lo then lo else if less hi v then hi else v)"

definition maxf :: "fval \<Rightarrow> fval \<Rightarrow> fval" where
  "maxf a b = (if less a b then b else a)"

text \<open>\<open>static_cast<int16_t>\<close>: truncation; \<open>None\<close> where C++ leaves it undefined.\<close>

primrec to_i16 :: "fval \<Rightarrow> int option" where
  "to_i16 (Fin a) = (if -32768 \<le> trunc a \<and> trunc a \<le> 32767 then Some (trunc a) else None)"
| "to_i16 (Inf s) = None"
| "to_i16 NaN = None"

definition M_PI :: fval where "M_PI = double (314159265358979323846 / 10 ^ 20)"

section \<open>Facts\<close>

lemma add_NaN [simp]: "add rd a NaN = NaN"
  by (cases a) simp_all

lemma mul_NaN [simp]: "mul rd a NaN = NaN"
  by (cases a) simp_all

lemma rne_bound: "\<bar>y\<bar> \<le> of_int n \<Longrightarrow> \<bar>rne y\<bar> \<le> n"
proof -
  assume "\<bar>y\<bar> \<le> of_int n"
  with rne_error [of y] have "\<bar>of_int (rne y) :: rat\<bar> < of_int n + 1" by linarith
  then have "(of_int \<bar>rne y\<bar> :: rat) < of_int (n + 1)" by simp
  then show ?thesis by (simp only: of_int_less_iff)
qed

lemma rne_sign: "0 \<le> y \<Longrightarrow> 0 \<le> rne y"
  by (simp add: rne_def Let_def)

text \<open>A number that fits \<open>p\<close> bits: \<open>m * 2 ^ e\<close>.\<close>

definition representable :: "int \<Rightarrow> int \<Rightarrow> int \<Rightarrow> rat \<Rightarrow> bool" where
  "representable p emin emax x \<longleftrightarrow>
     (\<exists>m e. x = of_int m * 2 powi e \<and> \<bar>m\<bar> < 2 ^ nat p \<and> emin \<le> e) \<and> \<bar>x\<bar> < 2 powi emax"

lemma representableE:
  assumes "representable p emin emax x"
  obtains m e where "x = of_int m * 2 powi e" "\<bar>m\<bar> < 2 ^ nat p" "emin \<le> e" "\<bar>x\<bar> < 2 powi emax"
  using assms unfolding representable_def by blast

lemma representableI:
  "x = of_int m * 2 powi e \<Longrightarrow> \<bar>m\<bar> < 2 ^ nat p \<Longrightarrow> emin \<le> e \<Longrightarrow> \<bar>x\<bar> < 2 powi emax \<Longrightarrow>
   representable p emin emax x"
  unfolding representable_def by blast

lemma powi_nat: "0 < p \<Longrightarrow> (2 powi p :: rat) = 2 ^ nat p"
  by (simp add: power_int_def)

lemma last_bit_le:
  assumes "x \<noteq> 0" "\<bar>x\<bar> \<le> of_int m * 2 powi e" "m < 2 ^ nat p" "0 < p" "emin \<le> e"
  shows "last_bit p emin x \<le> e"
proof -
  have "(of_int m :: rat) < of_int (2 ^ nat p)" using assms(3) by (simp only: of_int_less_iff)
  then have "\<bar>x\<bar> < 2 powi p * 2 powi e"
    using assms(2,4) by (elim order.strict_trans1) (simp add: power_int_def)
  also have "(2 powi p * 2 powi e :: rat) = 2 powi ((p + e - 1) + 1)" by (simp add: power_int_add)
  finally have "ilog2 \<bar>x\<bar> \<le> p + e - 1" using assms(1) by (intro ilog2_le) simp_all
  then show ?thesis using assms(5) by (simp add: last_bit_def)
qed

lemma round_bound:
  assumes "\<bar>x\<bar> \<le> b" "representable p emin emax b" "0 < p"
  obtains r where "round_to p emin emax x = Fin r" "\<bar>r\<bar> \<le> b" "0 \<le> x \<longrightarrow> 0 \<le> r" "x \<le> 0 \<longrightarrow> r \<le> 0"
proof (cases "x = 0")
  case True
  with assms that show thesis by (simp add: round_to_def)
next
  case False
  obtain m e where b: "b = of_int m * 2 powi e" "\<bar>m\<bar> < 2 ^ nat p" "emin \<le> e" "\<bar>b\<bar> < 2 powi emax"
    using representableE [OF assms(2)] by metis
  define q where "q = last_bit p emin x"
  have "b \<le> of_int \<bar>m\<bar> * 2 powi e" unfolding b(1) by (intro mult_right_mono) simp_all
  then have "\<bar>x\<bar> \<le> of_int \<bar>m\<bar> * 2 powi e" using assms(1) by linarith
  then have "q \<le> e" unfolding q_def using False assms(3) b(2,3) by (intro last_bit_le) auto
  then obtain j where e: "e = q + int j" by (metis zle_iff_zadd)
  define r where "r = of_int (rne (x / 2 powi q)) * (2 powi q :: rat)"
  have "\<bar>x / 2 powi q\<bar> \<le> of_int (m * 2 ^ j)"
    using assms(1) by (simp add: b(1) e power_int_add abs_mult divide_le_eq mult.assoc mult.commute [of "2 ^ j"])
  then have "\<bar>rne (x / 2 powi q)\<bar> \<le> m * 2 ^ j" by (rule rne_bound)
  then have "(of_int \<bar>rne (x / 2 powi q)\<bar> :: rat) \<le> of_int (m * 2 ^ j)" by (simp only: of_int_le_iff)
  then have "\<bar>r\<bar> \<le> of_int (m * 2 ^ j) * 2 powi q"
    unfolding r_def by (simp add: abs_mult)
  then have rb: "\<bar>r\<bar> \<le> b" by (simp add: b(1) e power_int_add ac_simps)
  have nonneg: "0 \<le> x \<Longrightarrow> 0 \<le> r" by (simp add: r_def rne_sign)
  have "rne y \<le> 0" if "y \<le> 0" for y
    using that rne_error [of y] by (simp add: rne_def Let_def)
  then have nonpos: "x \<le> 0 \<Longrightarrow> r \<le> 0" by (simp add: r_def mult_le_0_iff divide_le_0_iff)
  have "r = 0 \<or> ilog2 \<bar>r\<bar> \<le> emax - 1"
    using rb b(4) ilog2_le [of "\<bar>r\<bar>" "emax - 1"] by fastforce
  then have "round_to p emin emax x = Fin r" using False by (auto simp: round_to_def r_def q_def Let_def)
  with rb nonneg nonpos that show thesis by blast
qed

lemma round_exact:
  assumes "representable p emin emax x" "0 < p"
  shows "round_to p emin emax x = Fin x"
proof (cases "x = 0")
  case False
  obtain m e where x: "x = of_int m * 2 powi e" "\<bar>m\<bar> < 2 ^ nat p" "emin \<le> e" "\<bar>x\<bar> < 2 powi emax"
    using representableE [OF assms(1)] by metis
  define q where "q = last_bit p emin x"
  have "\<bar>x\<bar> = of_int \<bar>m\<bar> * 2 powi e" by (simp add: x(1) abs_mult)
  then have "\<bar>x\<bar> \<le> of_int \<bar>m\<bar> * 2 powi e" by simp
  then have "q \<le> e" unfolding q_def using False x(2,3) assms(2) by (intro last_bit_le) auto
  then obtain j where e: "e = q + int j" by (metis zle_iff_zadd)
  have "x / 2 powi q = of_int (m * 2 ^ j)" by (simp add: x(1) e power_int_add)
  then have r: "of_int (rne (x / 2 powi q)) * 2 powi q = x" by (simp only: rne_of_int) (simp add: x(1) e power_int_add)
  have "ilog2 \<bar>x\<bar> \<le> emax - 1" using False x(4) by (intro ilog2_le) simp_all
  with r False show ?thesis by (simp add: round_to_def q_def [symmetric] Let_def)
qed (simp add: round_to_def)

lemma representable_0 [simp]: "representable p emin emax 0"
  by (auto simp: representable_def intro!: exI [of _ 0] exI [of _ emin])

lemma representable_uminus [simp]: "representable p emin emax (- x) = representable p emin emax x"
proof -
  have "representable p emin emax (- x)" if ok: "representable p emin emax x" for x
  proof -
    obtain m e where "x = of_int m * 2 powi e" "\<bar>m\<bar> < 2 ^ nat p" "emin \<le> e" "\<bar>x\<bar> < 2 powi emax"
      using representableE [OF ok] by metis
    then show ?thesis by (intro representableI [of _ "- m" e]) simp_all
  qed
  from this [of x] this [of "- x"] show ?thesis by auto
qed

abbreviation single_ok :: "rat \<Rightarrow> bool" where
  "single_ok \<equiv> representable 24 (-149) 128"

abbreviation double_ok :: "rat \<Rightarrow> bool" where
  "double_ok \<equiv> representable 53 (-1074) 1024"

lemma single_exact: "single_ok x \<Longrightarrow> single x = Fin x"
  unfolding single_def by (rule round_exact) simp_all

lemma double_exact: "double_ok x \<Longrightarrow> double x = Fin x"
  unfolding double_def by (rule round_exact) simp_all

text \<open>Everything finite that rounding yields is representable.\<close>

lemma round_representable:
  assumes "round_to p emin emax x = Fin r" "0 < p"
  shows "representable p emin emax r"
proof (cases "x = 0 \<or> r = 0")
  case True
  then show ?thesis using assms by (auto simp: round_to_def)
next
  case False
  define q where "q = last_bit p emin x"
  define k where "k = rne (x / 2 powi q)"
  have r: "r = of_int k * 2 powi q" "ilog2 \<bar>r\<bar> < emax"
    using assms False by (auto simp: round_to_def q_def k_def Let_def split: if_splits)
  have pos: "0 < \<bar>x\<bar>" "0 < \<bar>r\<bar>" using False by simp_all
  have "(2 powi (ilog2 \<bar>r\<bar> + 1) :: rat) \<le> 2 powi emax" using r(2) by (intro powi_le) simp
  with ilog2_bounds [OF pos(2)] have small: "\<bar>r\<bar> < 2 powi emax" by linarith
  have "\<bar>x\<bar> < 2 powi (ilog2 \<bar>x\<bar> + 1)" using ilog2_bounds [OF pos(1)] by simp
  also have "(2 powi (ilog2 \<bar>x\<bar> + 1) :: rat) \<le> 2 powi (q + p)"
    by (intro powi_le) (simp add: q_def last_bit_def)
  finally have "\<bar>x / 2 powi q\<bar> \<le> of_int (2 ^ nat p)"
    using assms(2) by (simp add: divide_le_eq power_int_add powi_nat mult.commute)
  then have k: "\<bar>k\<bar> \<le> 2 ^ nat p" unfolding k_def by (rule rne_bound)
  show ?thesis
  proof (cases "\<bar>k\<bar> < 2 ^ nat p")
    case True
    then show ?thesis using r(1) small by (intro representableI [of _ k q]) (simp_all add: q_def last_bit_def)
  next
    case False
    define u :: int where "u = (if k < 0 then - 1 else 1)"
    have "k = u * 2 ^ nat p" using k False by (auto simp: u_def)
    then have "r = of_int u * 2 powi (q + p)" using r(1) assms(2) by (simp add: power_int_add powi_nat)
    moreover have "\<bar>u\<bar> < 2 ^ nat p" using assms(2) by (simp add: u_def)
    moreover have "emin \<le> q + p" using assms(2) by (simp add: q_def last_bit_def)
    ultimately show ?thesis using small by (intro representableI)
  qed
qed

lemma round_error:
  assumes "round_to p emin emax x = Fin r" "x \<noteq> 0"
  shows "\<bar>r - x\<bar> \<le> 2 powi last_bit p emin x / 2"
proof -
  define q where "q = last_bit p emin x"
  have r: "r = of_int (rne (x / 2 powi q)) * 2 powi q"
    using assms by (auto simp: round_to_def q_def Let_def split: if_splits)
  have "r - x = (of_int (rne (x / 2 powi q)) - x / 2 powi q) * 2 powi q" by (simp add: r algebra_simps)
  then have "\<bar>r - x\<bar> = \<bar>of_int (rne (x / 2 powi q)) - x / 2 powi q\<bar> * 2 powi q" by (simp add: abs_mult)
  also have "\<dots> \<le> 1 / 2 * 2 powi q" using rne_error by (intro mult_right_mono) auto
  finally show ?thesis by (simp add: q_def)
qed

text \<open>The values a variable of type \<open>float\<close> can have.\<close>

definition is_single :: "fval \<Rightarrow> bool" where
  "is_single v = (case v of Fin x \<Rightarrow> single_ok x | _ \<Rightarrow> True)"

lemma representable_powi [simp]:
  "emin \<le> k \<Longrightarrow> k < emax \<Longrightarrow> 0 < p \<Longrightarrow> representable p emin emax (2 powi k)"
  by (intro representableI [of _ 1 k]) (simp_all add: powi_less)

lemma representable_mult_powi:
  assumes "representable p emin emax a" "\<bar>a\<bar> \<le> 1" "0 \<le> k" "k < emax"
  shows "representable p emin emax (a * 2 powi k)"
proof -
  obtain m e where a: "a = of_int m * 2 powi e" "\<bar>m\<bar> < 2 ^ nat p" "emin \<le> e" "\<bar>a\<bar> < 2 powi emax"
    using representableE [OF assms(1)] by metis
  have "\<bar>a * 2 powi k\<bar> \<le> 1 * 2 powi k" unfolding abs_mult using assms(2) by (intro mult_mono) simp_all
  also have "\<dots> < (2 powi emax :: rat)" using assms(4) by (simp add: powi_less)
  finally show ?thesis using a(2,3) assms(3)
    by (intro representableI [of _ m "e + k"]) (simp_all add: a(1) power_int_add)
qed

text \<open>Rounding to single precision does not leave \<open>[-2^k, 2^k]\<close>, nor does it notice an excess of \<open>2^-25\<close>.\<close>

lemma single_bound:
  assumes "\<bar>x\<bar> \<le> b" "single_ok b"
  obtains r where "single x = Fin r" "\<bar>r\<bar> \<le> b" "0 \<le> x \<longrightarrow> 0 \<le> r" "x \<le> 0 \<longrightarrow> r \<le> 0"
  unfolding single_def by (rule round_bound [OF assms]) simp_all

lemma single_near_power:
  assumes "\<bar>x\<bar> \<le> 2 powi k * (1 + 1 / 2 ^ 25)" "-126 \<le> k" "k \<le> 127"
  obtains r where "single x = Fin r" "\<bar>r\<bar> \<le> 2 powi k"
proof (cases "\<bar>x\<bar> \<le> 2 powi k")
  case True
  have "single_ok (2 powi k)" using assms(2,3) by simp
  from single_bound [OF True this] that show thesis by metis
next
  case False
  have pos: "0 < \<bar>x\<bar>" "x \<noteq> 0" using False zero_less_power_int [of "2 :: rat" k] by auto
  have "(2 powi k * (1 + 1 / 2 ^ 25) :: rat) < 2 powi (k + 1)"
    by (simp add: power_int_add)
  with assms(1) have "ilog2 \<bar>x\<bar> \<le> k" using pos by (intro ilog2_le) simp_all
  moreover have "\<not> ilog2 \<bar>x\<bar> + 1 \<le> k"
  proof
    assume "ilog2 \<bar>x\<bar> + 1 \<le> k"
    then have "(2 powi (ilog2 \<bar>x\<bar> + 1) :: rat) \<le> 2 powi k" by (rule powi_le)
    with ilog2_bounds [OF pos(1)] False show False by simp
  qed
  ultimately have "ilog2 \<bar>x\<bar> = k" by simp
  then have q: "last_bit 24 (- 149) x = k - 23" using assms(2) by (simp add: last_bit_def)
  define y where "y = x / 2 powi (k - 23)"
  have k: "(2 powi k :: rat) = 2 powi (k - 23) * 2 ^ 23" by (simp add: power_int_diff)
  have "\<bar>y\<bar> \<le> 2 ^ 23 * (1 + 1 / 2 ^ 25)"
    using assms(1) by (simp add: y_def divide_le_eq k mult.commute)
  with rne_error [of y] have "\<bar>of_int (rne y)\<bar> < (2 ^ 23 + 1 :: rat)" by (simp; linarith)
  then have "(of_int \<bar>rne y\<bar> :: rat) < of_int (2 ^ 23 + 1)" by simp
  then have "\<bar>rne y\<bar> < 2 ^ 23 + 1" by (simp only: of_int_less_iff)
  then have "(of_int \<bar>rne y\<bar> :: rat) \<le> of_int (2 ^ 23)" by (simp only: of_int_le_iff)
  then have "\<bar>of_int (rne y) * 2 powi (k - 23)\<bar> \<le> (2 powi k :: rat)"
    by (simp add: abs_mult k mult.commute [of "2 powi _"])
  moreover from this have "of_int (rne y) * (2 powi (k - 23)) = (0 :: rat) \<or>
      ilog2 \<bar>of_int (rne y) * (2 powi (k - 23))\<bar> \<le> k"
    using ilog2_le [of "\<bar>of_int (rne y) * (2 powi (k - 23))\<bar>" k] powi_less [of k "k + 1"] by fastforce
  ultimately show thesis using pos(2) assms(3) that
    by (auto simp: single_def round_to_def q y_def [symmetric] Let_def)
qed

lemma double_bound:
  assumes "\<bar>x\<bar> \<le> b" "double_ok b"
  obtains r where "double x = Fin r" "\<bar>r\<bar> \<le> b" "0 \<le> x \<longrightarrow> 0 \<le> r" "x \<le> 0 \<longrightarrow> r \<le> 0"
  unfolding double_def by (rule round_bound [OF assms]) simp_all

lemma double_ok_numeral [simp]: "m < 2 ^ 53 \<Longrightarrow> double_ok (of_nat m)"
proof -
  assume m: "m < 2 ^ 53"
  then have "(of_nat m :: rat) < of_nat (2 ^ 53)" by (simp only: of_nat_less_iff)
  also have "\<dots> \<le> 2 powi 1024" using powi_le [of 53 1024] by (simp add: power_int_def split: if_splits)
  finally show ?thesis using m by (intro representableI [of _ "int m" 0]) simp_all
qed

lemma single_ok_numeral [simp]: "m < 2 ^ 24 \<Longrightarrow> single_ok (of_nat m)"
proof -
  assume m: "m < 2 ^ 24"
  then have "(of_nat m :: rat) < of_nat (2 ^ 24)" by (simp only: of_nat_less_iff)
  also have "\<dots> \<le> 2 powi 128" using powi_le [of 24 128] by (simp add: power_int_def split: if_splits)
  finally show ?thesis using m by (intro representableI [of _ "int m" 0]) simp_all
qed

lemma ok_1 [simp]: "single_ok 1" "double_ok 1"
  using single_ok_numeral [of 1] double_ok_numeral [of 1] by simp_all

lemma single_0 [simp]: "single 0 = Fin 0"
  by (simp add: single_exact)

lemma single_1 [simp]: "single 1 = Fin 1"
  by (simp add: single_exact)

text \<open>Below 2 the error is at most \<open>2^-24\<close>.\<close>

lemma single_error:
  assumes "\<bar>x\<bar> < 2"
  obtains r where "single x = Fin r" "\<bar>r - x\<bar> \<le> 1 / 2 ^ 24"
proof (cases "x = 0")
  case False
  have "\<bar>x\<bar> \<le> 2" using assms by simp
  moreover have "single_ok 2" using single_ok_numeral [of 2] by simp
  ultimately obtain r where r: "single x = Fin r" using single_bound by metis
  have "ilog2 \<bar>x\<bar> \<le> 0" using assms False by (intro ilog2_le) simp_all
  then have "(2 powi last_bit 24 (- 149) x :: rat) \<le> 2 powi (- 23)" by (intro powi_le) (simp add: last_bit_def)
  moreover have "(2 powi (- 23) :: rat) / 2 = 1 / 2 ^ 24" by (simp add: power_int_def power_one_over)
  moreover have "\<bar>r - x\<bar> \<le> 2 powi last_bit 24 (- 149) x / 2"
    using r False unfolding single_def by (intro round_error)
  ultimately show thesis using r that by (metis dual_order.trans divide_right_mono zero_le_numeral)
qed (use that in simp)

text \<open>The finite values of type \<open>float\<close>.\<close>

definition finite_float :: "fval \<Rightarrow> bool" where
  "finite_float v = (case v of Fin x \<Rightarrow> single_ok x | _ \<Rightarrow> False)"

lemma finite_float_Fin [simp]: "finite_float (Fin x) = single_ok x"
  by (simp add: finite_float_def)

lemma finite_floatE:
  "finite_float v \<Longrightarrow> (\<And>x. v = Fin x \<Longrightarrow> single_ok x \<Longrightarrow> thesis) \<Longrightarrow> thesis"
  by (cases v) (simp_all add: finite_float_def)

lemma finite_float_arith [simp]:
  assumes "finite_float v"
  shows "add single v (Fin 0) = v" "add single (Fin 0) v = v" "mul single (Fin 0) v = Fin 0"
    "mul single v (Fin 0) = Fin 0" "mul single (Fin 1) v = v" "sub single v (Fin 0) = v" "sub single v v = Fin 0"
  using assms by (auto simp: sub_def single_exact elim!: finite_floatE)

lemma single_nat_bound:
  assumes "0 \<le> x" "x \<le> of_nat n" "n < 2 ^ 24"
  obtains r where "single x = Fin r" "0 \<le> r" "r \<le> of_nat n"
  using single_bound [of x "of_nat n"] single_ok_numeral [OF assms(3)] assms(1,2) by auto

lemma single_half:
  assumes "1 \<le> x" "single x = Fin r"
  shows "1 / 2 \<le> r"
proof -
  have pos: "0 < \<bar>x\<bar>" using assms(1) by simp
  have "\<not> ilog2 \<bar>x\<bar> + 1 \<le> 0"
    using ilog2_bounds [OF pos] powi_le [of "ilog2 \<bar>x\<bar> + 1" 0] assms(1) by fastforce
  then have "last_bit 24 (- 149) x \<le> ilog2 \<bar>x\<bar>" by (simp add: last_bit_def)
  then have "(2 powi last_bit 24 (- 149) x :: rat) \<le> 2 powi ilog2 \<bar>x\<bar>" by (rule powi_le)
  moreover have "\<bar>r - x\<bar> \<le> 2 powi last_bit 24 (- 149) x / 2"
    using assms unfolding single_def by (intro round_error) auto
  ultimately show ?thesis using ilog2_bounds [OF pos] assms(1) by linarith
qed

lemma trunc_abs:
  assumes "\<bar>x\<bar> \<le> of_nat n"
  shows "\<bar>trunc x\<bar> \<le> int n"
proof (cases "0 \<le> x")
  case True
  then show ?thesis using assms by (simp add: trunc_def floor_le_iff)
next
  case False
  have "of_int (- \<lceil>x\<rceil>) \<le> (of_int (int n) :: rat)" using assms False le_of_int_ceiling [of x] by (simp; linarith)
  then have "- \<lceil>x\<rceil> \<le> int n" by (simp only: of_int_le_iff)
  then show ?thesis using False by (simp add: trunc_def)
qed

section \<open>PCM samples\<close>

text \<open>\<open>static_cast<float>(x) / 32768.0f\<close> and back: clamp, scale, truncate.\<close>

definition pcm_to_float :: "int \<Rightarrow> fval" where
  "pcm_to_float x = quot single (Fin (of_int x)) (Fin 32768)"

definition float_to_pcm :: "fval \<Rightarrow> int option" where
  "float_to_pcm v = to_i16 (mul single (clampf v (Fin (- 1)) (Fin 1)) (Fin 32767))"

definition is_i16 :: "int \<Rightarrow> bool" where
  "is_i16 x \<longleftrightarrow> -32768 \<le> x \<and> x \<le> 32767"

lemma pcm_range: "is_i16 x \<Longrightarrow> \<bar>of_int x / 32768\<bar> \<le> (1 :: rat)"
proof -
  assume "is_i16 x"
  then have "(of_int \<bar>x\<bar> :: rat) \<le> of_int 32768" by (simp only: of_int_le_iff) (auto simp: is_i16_def)
  then show ?thesis by simp
qed

lemma pcm_to_float_exact:
  assumes "is_i16 x"
  shows "pcm_to_float x = Fin (of_int x / 32768)" "single_ok (of_int x / 32768)"
proof -
  have "\<bar>of_int x / 32768\<bar> \<le> (1 :: rat)" using assms by (rule pcm_range)
  also have "\<dots> < 2 powi 128" using powi_less [of 0 128] by simp
  finally show "single_ok (of_int x / 32768)" using assms
    by (intro representableI [of _ x "-15"]) (auto simp: is_i16_def power_int_def power_one_over)
  then show "pcm_to_float x = Fin (of_int x / 32768)" by (simp add: pcm_to_float_def single_exact)
qed

lemma pcm_to_float_finite [simp]: "is_i16 x \<Longrightarrow> finite_float (pcm_to_float x)"
  by (simp add: pcm_to_float_exact)

lemma float_to_pcm_0 [simp]: "float_to_pcm (Fin 0) = Some 0"
  by (simp add: float_to_pcm_def clampf_def trunc_def)

lemma float_to_pcm_defined:
  assumes "\<bar>v\<bar> \<le> 1"
  obtains out where "float_to_pcm (Fin v) = Some out" "\<bar>out\<bar> \<le> 32767"
proof -
  have "\<bar>v * 32767\<bar> \<le> of_nat 32767" using assms by (simp add: abs_mult)
  from single_bound [OF this single_ok_numeral] obtain r where
    r: "single (v * 32767) = Fin r" "\<bar>r\<bar> \<le> of_nat 32767" by auto
  have "\<bar>trunc r\<bar> \<le> 32767" using trunc_abs [OF r(2)] by simp
  with r(1) that assms show thesis by (auto simp: float_to_pcm_def clampf_def abs_le_iff)
qed

end
