(* ===== verification/SidetoneGenerator.thy ===== *)
theory SidetoneGenerator
  imports Prelude Floats
begin

text \<open>
  The CW sidetone (\<open>audio/sidetone_generator.h\<close>, \<open>audio/sidetone_generator.cpp\<close>): a sine with a
  click-free envelope, computed with the code's float and double operations. \<open>std::sin\<close> is a parameter
  that maps finite numbers into [-1, 1]. The facts: every sample is defined and within 32000, and the
  envelope settles within 97 samples of a key press and 145 of a release, from every reachable state.
\<close>

section \<open>State and operations\<close>

definition RAMP_UP_MS :: fval where "RAMP_UP_MS = single 2"
definition RAMP_DOWN_MS :: fval where "RAMP_DOWN_MS = single 3"
definition OUTPUT_SAMPLE_RATE :: rat where "OUTPUT_SAMPLE_RATE = 48000"

record sidetone =
  m_pitchHz :: int
  m_volume :: fval
  m_active :: bool
  m_phase :: fval
  m_envelope :: fval
  m_rampUpRate :: fval
  m_rampDownRate :: fval

text \<open>\<open>1.0f / ((ms / 1000.0f) * OUTPUT_SAMPLE_RATE)\<close>\<close>

definition ramp_rate :: "fval \<Rightarrow> fval" where
  "ramp_rate ms = quot single (Fin 1) (mul single (quot single ms (Fin 1000)) (Fin OUTPUT_SAMPLE_RATE))"

definition updateRampRates :: "sidetone \<Rightarrow> sidetone" where
  "updateRampRates s = s\<lparr>m_rampUpRate := ramp_rate RAMP_UP_MS, m_rampDownRate := ramp_rate RAMP_DOWN_MS\<rparr>"

definition SidetoneGenerator_new :: sidetone where
  "SidetoneGenerator_new = updateRampRates
     \<lparr>m_pitchHz = 600, m_volume = single (1 / 2), m_active = False, m_phase = Fin 0, m_envelope = Fin 0,
      m_rampUpRate = Fin 0, m_rampDownRate = Fin 0\<rparr>"

definition setPitch :: "int \<Rightarrow> sidetone \<Rightarrow> sidetone" where
  "setPitch hz s = s\<lparr>m_pitchHz := clamp hz 400 1000\<rparr>"

definition sidetone_setVolume :: "fval \<Rightarrow> sidetone \<Rightarrow> sidetone" where
  "sidetone_setVolume volume s = s\<lparr>m_volume := clampf volume (Fin 0) (Fin 1)\<rparr>"

definition keyDown :: "sidetone \<Rightarrow> sidetone" where
  "keyDown s = s\<lparr>m_active := True\<rparr>"

definition keyUp :: "sidetone \<Rightarrow> sidetone" where
  "keyUp s = s\<lparr>m_active := False\<rparr>"

text \<open>The body of the loop of \<open>generate\<close>; \<open>None\<close> when the conversion to \<open>int16_t\<close> is undefined.\<close>

definition next_envelope :: "bool \<Rightarrow> sidetone \<Rightarrow> fval" where
  "next_envelope active s =
     (if active then
        (let e = add single (m_envelope s) (m_rampUpRate s) in if less (Fin 1) e then Fin 1 else e)
      else
        (let e = sub single (m_envelope s) (m_rampDownRate s) in if less e (Fin 0) then Fin 0 else e))"

definition two_pi :: fval where "two_pi = mul double (Fin 2) M_PI"

text \<open>The phase is kept below \<open>2 * M_PI\<close>.\<close>

definition next_phase :: "fval \<Rightarrow> fval \<Rightarrow> fval" where
  "next_phase phase inc =
     (if leq two_pi (add double phase inc) then sub double (add double phase inc) two_pi else add double phase inc)"

definition gen_sample ::
  "(fval \<Rightarrow> fval) \<Rightarrow> bool \<Rightarrow> fval \<Rightarrow> fval \<Rightarrow> sidetone \<Rightarrow> (sidetone \<times> int) option" where
  "gen_sample sn active volume phaseIncrement s =
     (let env = next_envelope active s in
      if less (Fin 0) env then
        (let sample = mul double (mul double (sn (m_phase s)) env) volume
         in case to_i16 (mul double sample (Fin 32000)) of
              None \<Rightarrow> None
            | Some v \<Rightarrow>
                Some (s\<lparr>m_envelope := env, m_phase := next_phase (m_phase s) phaseIncrement\<rparr>, v))
      else Some (s\<lparr>m_envelope := env, m_phase := Fin 0\<rparr>, 0))"

primrec gen_loop ::
  "(fval \<Rightarrow> fval) \<Rightarrow> bool \<Rightarrow> fval \<Rightarrow> fval \<Rightarrow> nat \<Rightarrow> sidetone \<Rightarrow> (sidetone \<times> int list) option" where
  "gen_loop sn active volume phaseIncrement 0 s = Some (s, [])"
| "gen_loop sn active volume phaseIncrement (Suc n) s =
     (case gen_sample sn active volume phaseIncrement s of
        None \<Rightarrow> None
      | Some (s', v) \<Rightarrow> map_option (\<lambda>(s'', vs). (s'', v # vs)) (gen_loop sn active volume phaseIncrement n s'))"

definition phase_increment :: "int \<Rightarrow> fval" where
  "phase_increment pitchHz = quot double (mul double two_pi (Fin (of_int pitchHz))) (Fin OUTPUT_SAMPLE_RATE)"

definition generate :: "(fval \<Rightarrow> fval) \<Rightarrow> int \<Rightarrow> sidetone \<Rightarrow> (sidetone \<times> int list) option" where
  "generate sn frames s =
     gen_loop sn (m_active s) (m_volume s) (phase_increment (m_pitchHz s)) (nat frames) (updateRampRates s)"

text \<open>The calls of the engine and the audio thread, in any order.\<close>

datatype sidetone_op = Pitch int | Volume fval | Key_down | Key_up | Generate int

primrec sidetone_step :: "(fval \<Rightarrow> fval) \<Rightarrow> sidetone_op \<Rightarrow> sidetone \<Rightarrow> (sidetone \<times> int list) option" where
  "sidetone_step sn (Pitch hz) s = Some (setPitch hz s, [])"
| "sidetone_step sn (Volume v) s = Some (sidetone_setVolume v s, [])"
| "sidetone_step sn Key_down s = Some (keyDown s, [])"
| "sidetone_step sn Key_up s = Some (keyUp s, [])"
| "sidetone_step sn (Generate frames) s = generate sn frames s"

primrec sidetone_run :: "(fval \<Rightarrow> fval) \<Rightarrow> sidetone_op list \<Rightarrow> sidetone \<Rightarrow> (sidetone \<times> int list) option" where
  "sidetone_run sn [] s = Some (s, [])"
| "sidetone_run sn (c # cs) s =
     (case sidetone_step sn c s of
        None \<Rightarrow> None
      | Some (s', vs) \<Rightarrow> map_option (\<lambda>(s'', ws). (s'', vs @ ws)) (sidetone_run sn cs s'))"

section \<open>Constants\<close>

lemma ramp_rates:
  "ramp_rate RAMP_UP_MS = Fin (5592405 / 2 ^ 29)" "ramp_rate RAMP_DOWN_MS = Fin (14913081 / 2 ^ 31)"
  by code_simp+

lemma two_pi_value: "two_pi = Fin (884279719003555 / 2 ^ 47)"
  by code_simp

section \<open>The invariant\<close>

text \<open>What the code relies on of \<open>std::sin\<close>.\<close>

definition sine :: "(fval \<Rightarrow> fval) \<Rightarrow> bool" where
  "sine sn \<longleftrightarrow> (\<forall>x. \<exists>y. sn (Fin x) = Fin y \<and> \<bar>y\<bar> \<le> 1)"

definition in_range :: "rat \<Rightarrow> rat \<Rightarrow> fval \<Rightarrow> bool" where
  "in_range lo hi v = (case v of Fin x \<Rightarrow> lo \<le> x \<and> x \<le> hi | _ \<Rightarrow> False)"

lemma in_rangeE: "in_range lo hi v \<Longrightarrow> (\<And>x. v = Fin x \<Longrightarrow> lo \<le> x \<Longrightarrow> x \<le> hi \<Longrightarrow> thesis) \<Longrightarrow> thesis"
  by (cases v) (simp_all add: in_range_def)

lemma in_range_Fin [simp]: "in_range lo hi (Fin x) \<longleftrightarrow> lo \<le> x \<and> x \<le> hi"
  by (simp add: in_range_def)

definition sidetone_ok :: "sidetone \<Rightarrow> bool" where
  "sidetone_ok s \<longleftrightarrow>
     m_pitchHz s \<in> {400..1000} \<and> in_range 0 1 (m_volume s) \<and> in_range 0 7 (m_phase s) \<and>
     in_range 0 1 (m_envelope s) \<and> m_rampUpRate s = ramp_rate RAMP_UP_MS \<and>
     m_rampDownRate s = ramp_rate RAMP_DOWN_MS"

lemma rate_up: obtains u where "ramp_rate RAMP_UP_MS = Fin u" "1 / 97 + 1 / 2 ^ 24 \<le> u" "u < 1"
  using that [OF ramp_rates(1)] by simp

lemma rate_down: obtains d where "ramp_rate RAMP_DOWN_MS = Fin d" "1 / 145 + 1 / 2 ^ 24 \<le> d" "d < 1"
  using that [OF ramp_rates(2)] by simp

lemma two_pi_range: obtains P where "two_pi = Fin P" "6 \<le> P" "P \<le> 7"
  using that [OF two_pi_value] by simp

text \<open>The progress of the envelope per sample, whatever the rounding does.\<close>

lemma envelope_up:
  assumes "m_envelope s = Fin x" "0 \<le> x" "x \<le> 1" "m_rampUpRate s = ramp_rate RAMP_UP_MS"
  obtains y where "next_envelope True s = Fin y" "min 1 (x + 1 / 97) \<le> y" "y \<le> 1"
proof -
  obtain u where u: "ramp_rate RAMP_UP_MS = Fin u" "1 / 97 + 1 / 2 ^ 24 \<le> u" "u < 1" by (rule rate_up)
  then have "\<bar>x + u\<bar> < 2" using assms by simp
  then obtain r where r: "single (x + u) = Fin r" "\<bar>r - (x + u)\<bar> \<le> 1 / 2 ^ 24" by (rule single_error)
  have "x + 1 / 97 \<le> r" using r(2) u(2) by linarith
  with r(1) that [of "if 1 < r then 1 else r"] show thesis
    by (simp add: next_envelope_def assms(1,4) u(1) Let_def min_def split: if_splits)
qed

lemma envelope_down:
  assumes "m_envelope s = Fin x" "0 \<le> x" "x \<le> 1" "m_rampDownRate s = ramp_rate RAMP_DOWN_MS"
  obtains y where "next_envelope False s = Fin y" "y \<le> max 0 (x - 1 / 145)" "0 \<le> y"
proof -
  obtain d where d: "ramp_rate RAMP_DOWN_MS = Fin d" "1 / 145 + 1 / 2 ^ 24 \<le> d" "d < 1" by (rule rate_down)
  then have "\<bar>x - d\<bar> < 2" using assms by simp
  then obtain r where r: "single (x - d) = Fin r" "\<bar>r - (x - d)\<bar> \<le> 1 / 2 ^ 24" by (rule single_error)
  have "r \<le> x - 1 / 145" using r(2) d(2) by linarith
  with r(1) that [of "if r < 0 then 0 else r"] show thesis
    by (simp add: next_envelope_def assms(1,4) d(1) Let_def sub_def max_def split: if_splits)
qed

lemma envelope_range:
  assumes "sidetone_ok s"
  shows "in_range 0 1 (next_envelope active s)"
proof (cases active)
  case True
  obtain x where "m_envelope s = Fin x" "0 \<le> x" "x \<le> 1" using assms by (auto simp: sidetone_ok_def elim: in_rangeE)
  then obtain y where "next_envelope True s = Fin y" "min 1 (x + 1 / 97) \<le> y" "y \<le> 1"
    using envelope_up assms by (metis sidetone_ok_def)
  with \<open>0 \<le> x\<close> True show ?thesis by (auto simp: min_def split: if_splits)
next
  case False
  obtain x where "m_envelope s = Fin x" "0 \<le> x" "x \<le> 1" using assms by (auto simp: sidetone_ok_def elim: in_rangeE)
  then obtain y where "next_envelope False s = Fin y" "y \<le> max 0 (x - 1 / 145)" "0 \<le> y"
    using envelope_down assms by (metis sidetone_ok_def)
  with \<open>x \<le> 1\<close> False show ?thesis by (auto simp: max_def split: if_splits)
qed

lemma double_nat_bound:
  assumes "\<bar>x\<bar> \<le> of_nat n" "n < 2 ^ 53"
  obtains r where "double x = Fin r" "\<bar>r\<bar> \<le> of_nat n" "0 \<le> x \<longrightarrow> 0 \<le> r" "x \<le> 0 \<longrightarrow> r \<le> 0"
  using double_bound [OF assms(1) double_ok_numeral [OF assms(2)]] by metis

lemma phase_increment_range:
  assumes "p \<in> {400..1000}"
  shows "in_range 0 1 (phase_increment p)"
proof -
  obtain P where P: "two_pi = Fin P" "6 \<le> P" "P \<le> 7" by (rule two_pi_range)
  have p: "0 \<le> (of_int p :: rat)" "(of_int p :: rat) \<le> 1000" using assms by simp_all
  have t: "0 \<le> P * of_int p" using p(1) P(2) by simp
  have "P * of_int p \<le> 7 * 1000" using p P(2,3) by (intro mult_mono) simp_all
  with t have "\<bar>P * of_int p\<bar> \<le> of_nat 7000" by simp
  then obtain r where r: "double (P * of_int p) = Fin r" "\<bar>r\<bar> \<le> of_nat 7000" "0 \<le> P * of_int p \<longrightarrow> 0 \<le> r"
    using double_nat_bound [of "P * of_int p" 7000] by auto
  have q: "0 \<le> r / 48000" "\<bar>r / 48000\<bar> \<le> of_nat 1" using r t by simp_all
  obtain q where "double (r / 48000) = Fin q" "\<bar>q\<bar> \<le> of_nat 1" "0 \<le> r / 48000 \<longrightarrow> 0 \<le> q"
    using double_nat_bound [OF q(2)] by auto
  with q(1) r(1) show ?thesis by (simp add: phase_increment_def P(1) OUTPUT_SAMPLE_RATE_def)
qed

lemma next_phase_range:
  assumes "in_range 0 7 phase" "in_range 0 1 inc"
  shows "in_range 0 7 (next_phase phase inc)"
proof -
  obtain P where P: "two_pi = Fin P" "6 \<le> P" "P \<le> 7" by (rule two_pi_range)
  obtain x where x: "phase = Fin x" "0 \<le> x" "x \<le> 7" using assms(1) by (rule in_rangeE)
  obtain i where i: "inc = Fin i" "0 \<le> i" "i \<le> 1" using assms(2) by (rule in_rangeE)
  have "\<bar>x + i\<bar> \<le> of_nat 8" using x i by simp
  then obtain r where r: "double (x + i) = Fin r" "\<bar>r\<bar> \<le> of_nat 8" "0 \<le> x + i \<longrightarrow> 0 \<le> r"
    using double_nat_bound [of "x + i" 8] by auto
  show ?thesis
  proof (cases "P \<le> r")
    case True
    then have b: "0 \<le> r - P" "\<bar>r - P\<bar> \<le> of_nat 2" using r(2) P by simp_all
    obtain d where "double (r - P) = Fin d" "\<bar>d\<bar> \<le> of_nat 2" "0 \<le> r - P \<longrightarrow> 0 \<le> d"
      using double_nat_bound [OF b(2)] by auto
    with True b r(1) show ?thesis by (auto simp: next_phase_def x(1) i(1) P(1) leq_def sub_def)
  next
    case False
    with r x(2) i(2) P(3) show ?thesis by (simp add: next_phase_def leq_def x(1) i(1) P(1))
  qed
qed

text \<open>One sample: always defined, within 32000, and the invariant is kept.\<close>

lemma product_range:
  assumes "\<bar>x\<bar> \<le> 1" "0 \<le> e" "e \<le> 1"
  obtains r where "double (x * e) = Fin r" "\<bar>r\<bar> \<le> 1"
proof -
  have "\<bar>x * e\<bar> \<le> of_nat 1" using assms mult_mono [of "\<bar>x\<bar>" 1 "\<bar>e\<bar>" 1] by (simp add: abs_mult)
  from double_nat_bound [OF this] that show thesis by auto
qed

lemma gen_sample_ok:
  assumes "sidetone_ok s" "sine sn" "in_range 0 1 volume" "in_range 0 1 inc"
  obtains s' v where "gen_sample sn active volume inc s = Some (s', v)" "\<bar>v\<bar> \<le> 32000" "sidetone_ok s'"
    "m_envelope s' = next_envelope active s" "m_active s' = m_active s"
    "\<not> less (Fin 0) (next_envelope active s) \<longrightarrow> v = 0 \<and> m_phase s' = Fin 0"
proof -
  obtain e where e: "next_envelope active s = Fin e" "0 \<le> e" "e \<le> 1"
    using envelope_range [OF assms(1)] by (rule in_rangeE)
  obtain ph where ph: "m_phase s = Fin ph" "0 \<le> ph" "ph \<le> 7" using assms(1) by (auto simp: sidetone_ok_def elim: in_rangeE)
  obtain w where w: "volume = Fin w" "0 \<le> w" "w \<le> 1" using assms(3) by (rule in_rangeE)
  obtain y where y: "sn (Fin ph) = Fin y" "\<bar>y\<bar> \<le> 1" using assms(2) unfolding sine_def by blast
  obtain r where r: "double (y * e) = Fin r" "\<bar>r\<bar> \<le> 1" using y(2) e(2,3) by (rule product_range)
  obtain t where t: "double (r * w) = Fin t" "\<bar>t\<bar> \<le> 1" using r(2) w(2,3) by (rule product_range)
  have "\<bar>t * 32000\<bar> \<le> of_nat 32000" using t(2) by (simp add: abs_mult)
  from double_nat_bound [OF this] obtain z where z: "double (t * 32000) = Fin z" "\<bar>z\<bar> \<le> of_nat 32000" by auto
  have v: "\<bar>trunc z\<bar> \<le> 32000" using trunc_abs [OF z(2)] by simp
  have n: "in_range 0 7 (next_phase (Fin ph) inc)" using next_phase_range [of "Fin ph" inc] ph assms(4) by simp
  show thesis
  proof (cases "0 < e")
    case True
    have "to_i16 (Fin z) = Some (trunc z)" using v by (simp add: abs_le_iff)
    then have "gen_sample sn active volume inc s =
        Some (s\<lparr>m_envelope := Fin e, m_phase := next_phase (Fin ph) inc\<rparr>, trunc z)"
      using True by (simp add: gen_sample_def Let_def e(1) ph(1) w(1) y(1) r(1) t(1) z(1) del: to_i16.simps)
    from that [OF this v] show thesis using assms(1) n e True by (simp add: sidetone_ok_def)
  next
    case False
    then have "gen_sample sn active volume inc s = Some (s\<lparr>m_envelope := Fin e, m_phase := Fin 0\<rparr>, 0)"
      by (simp add: gen_sample_def e(1))
    from that [OF this] show thesis using assms(1) e by (simp add: sidetone_ok_def)
  qed
qed

section \<open>Blocks of samples\<close>

lemma gen_loop_ok:
  assumes "sidetone_ok s" "sine sn" "in_range 0 1 volume" "in_range 0 1 inc"
  obtains s' vs where "gen_loop sn active volume inc n s = Some (s', vs)" "length vs = n"
    "\<forall>v \<in> set vs. \<bar>v\<bar> \<le> 32000" "sidetone_ok s'" "m_active s' = m_active s"
  using assms(1)
proof (induction n arbitrary: s thesis)
  case (Suc n)
  obtain s1 v where 1: "gen_sample sn active volume inc s = Some (s1, v)" "\<bar>v\<bar> \<le> 32000" "sidetone_ok s1"
    "m_active s1 = m_active s"
    using gen_sample_ok [OF Suc.prems(2) assms(2-4)] by metis
  obtain s' vs where "gen_loop sn active volume inc n s1 = Some (s', vs)" "length vs = n"
    "\<forall>v \<in> set vs. \<bar>v\<bar> \<le> 32000" "sidetone_ok s'" "m_active s' = m_active s1"
    using Suc.IH [OF _ 1(3)] by metis
  with 1 Suc.prems(1) show ?case by simp
qed simp

lemma updateRampRates_id [simp]: "sidetone_ok s \<Longrightarrow> updateRampRates s = s"
  by (simp add: sidetone_ok_def updateRampRates_def)

lemma generate_ok:
  assumes "sidetone_ok s" "sine sn"
  obtains s' vs where "generate sn frames s = Some (s', vs)" "length vs = nat frames"
    "\<forall>v \<in> set vs. \<bar>v\<bar> \<le> 32000" "sidetone_ok s'" "m_active s' = m_active s"
proof -
  have "in_range 0 1 (m_volume s)" "in_range 0 1 (phase_increment (m_pitchHz s))"
    using assms(1) phase_increment_range by (simp_all add: sidetone_ok_def)
  from gen_loop_ok [OF assms this] that show thesis unfolding generate_def updateRampRates_id [OF assms(1)] by metis
qed

lemma sidetone_new_ok: "sidetone_ok SidetoneGenerator_new"
  using representableI [of "1 / 2" 1 "-1" 24 "-149" 128]
    powi_le [of 0 128]
  by (simp add: sidetone_ok_def SidetoneGenerator_new_def updateRampRates_def single_exact power_int_def)

lemma sidetone_controls_ok [simp]:
  "sidetone_ok s \<Longrightarrow> sidetone_ok (setPitch hz s)" "sidetone_ok (keyDown s) = sidetone_ok s"
  "sidetone_ok (keyUp s) = sidetone_ok s"
  by (simp_all add: sidetone_ok_def setPitch_def keyDown_def keyUp_def clamp_def)

lemma clampf_range: "v \<noteq> NaN \<Longrightarrow> in_range 0 1 (clampf v (Fin 0) (Fin 1))"
  by (cases v) (auto simp: clampf_def)

primrec settable :: "sidetone_op \<Rightarrow> bool" where
  "settable (Pitch hz) = True"
| "settable (Volume v) = (v \<noteq> NaN)"
| "settable Key_down = True"
| "settable Key_up = True"
| "settable (Generate frames) = True"

lemma sidetone_step_ok:
  assumes "sidetone_ok s" "sine sn" "settable c"
  obtains s' vs where "sidetone_step sn c s = Some (s', vs)" "\<forall>v \<in> set vs. \<bar>v\<bar> \<le> 32000" "sidetone_ok s'"
proof (cases c)
  case (Generate frames)
  with that generate_ok [OF assms(1,2)] show thesis by (metis sidetone_step.simps(5))
next
  case (Volume v)
  with that assms show thesis by (simp add: sidetone_ok_def sidetone_setVolume_def clampf_range)
qed (use that assms in simp_all)

lemma sidetone_run_ok:
  assumes "sidetone_ok s" "sine sn" "list_all settable cs"
  obtains s' vs where "sidetone_run sn cs s = Some (s', vs)" "\<forall>v \<in> set vs. \<bar>v\<bar> \<le> 32000" "sidetone_ok s'"
  using assms(1,3)
proof (induction cs arbitrary: s thesis)
  case (Cons c cs)
  obtain s1 vs where 1: "sidetone_step sn c s = Some (s1, vs)" "\<forall>v \<in> set vs. \<bar>v\<bar> \<le> 32000" "sidetone_ok s1"
    using sidetone_step_ok [OF Cons.prems(2) assms(2), of c] Cons.prems(3) by auto
  obtain s' ws where "sidetone_run sn cs s1 = Some (s', ws)" "\<forall>v \<in> set ws. \<bar>v\<bar> \<le> 32000" "sidetone_ok s'"
    using Cons.IH [OF _ 1(3)] Cons.prems(3) by auto
  with 1 Cons.prems(1) show ?case by auto
qed simp


text \<open>A sine for examples: zero everywhere but at one point.\<close>

definition spike :: "fval \<Rightarrow> fval" where
  "spike x = (if x = Fin 0 then Fin 1 else if x = Inf False \<or> x = Inf True \<or> x = NaN then NaN else Fin 0)"

lemma spike_sine: "sine spike"
  by (simp add: sine_def spike_def)


section \<open>The envelope settles\<close>

lemma gen_loop_up:
  assumes "sidetone_ok s" "sine sn" "in_range 0 1 volume" "in_range 0 1 inc"
    "m_envelope s = Fin x" "gen_loop sn True volume inc n s = Some (s', vs)"
  shows "\<exists>y. m_envelope s' = Fin y \<and> min 1 (x + of_nat n / 97) \<le> y \<and> y \<le> 1"
  using assms(1,5,6)
proof (induction n arbitrary: s x vs)
  case 0
  then show ?case by (auto simp: sidetone_ok_def)
next
  case (Suc n)
  have x: "0 \<le> x" "x \<le> 1" "m_rampUpRate s = ramp_rate RAMP_UP_MS"
    using Suc.prems(1,2) by (simp_all add: sidetone_ok_def)
  obtain y where y: "next_envelope True s = Fin y" "min 1 (x + 1 / 97) \<le> y" "y \<le> 1"
    using envelope_up [OF Suc.prems(2) x] by metis
  obtain s1 v where 1: "gen_sample sn True volume inc s = Some (s1, v)" "sidetone_ok s1" "m_envelope s1 = Fin y"
    using gen_sample_ok [OF Suc.prems(1) assms(2-4)] y(1) by metis
  obtain ws where "gen_loop sn True volume inc n s1 = Some (s', ws)"
    using Suc.prems(3) 1(1) by auto
  from Suc.IH [OF 1(2,3) this] obtain z where "m_envelope s' = Fin z" "min 1 (y + of_nat n / 97) \<le> z" "z \<le> 1" by auto
  moreover have "min 1 (x + of_nat (Suc n) / 97) \<le> min 1 (y + of_nat n / 97)"
    using y(2) by (auto simp: min_def add_divide_distrib split: if_splits)
  ultimately show ?case by fastforce
qed

lemma gen_loop_down:
  assumes "sidetone_ok s" "sine sn" "in_range 0 1 volume" "in_range 0 1 inc"
    "m_envelope s = Fin x" "gen_loop sn False volume inc n s = Some (s', vs)"
  shows "\<exists>y. m_envelope s' = Fin y \<and> 0 \<le> y \<and> y \<le> max 0 (x - of_nat n / 145)"
  using assms(1,5,6)
proof (induction n arbitrary: s x vs)
  case 0
  then show ?case by (auto simp: sidetone_ok_def)
next
  case (Suc n)
  have x: "0 \<le> x" "x \<le> 1" "m_rampDownRate s = ramp_rate RAMP_DOWN_MS"
    using Suc.prems(1,2) by (simp_all add: sidetone_ok_def)
  obtain y where y: "next_envelope False s = Fin y" "y \<le> max 0 (x - 1 / 145)" "0 \<le> y"
    using envelope_down [OF Suc.prems(2) x] by metis
  obtain s1 v where 1: "gen_sample sn False volume inc s = Some (s1, v)" "sidetone_ok s1" "m_envelope s1 = Fin y"
    using gen_sample_ok [OF Suc.prems(1) assms(2-4)] y(1) by metis
  obtain ws where "gen_loop sn False volume inc n s1 = Some (s', ws)"
    using Suc.prems(3) 1(1) by auto
  from Suc.IH [OF 1(2,3) this] obtain z where "m_envelope s' = Fin z" "0 \<le> z" "z \<le> max 0 (y - of_nat n / 145)" by auto
  moreover have "max 0 (y - of_nat n / 145) \<le> max 0 (x - of_nat (Suc n) / 145)"
    using y(2) by (auto simp: max_def add_divide_distrib split: if_splits)
  ultimately show ?case by fastforce
qed

lemma gen_loop_add:
  "gen_loop sn active volume inc (m + n) s =
     (case gen_loop sn active volume inc m s of
        None \<Rightarrow> None
      | Some (s1, vs) \<Rightarrow> map_option (\<lambda>(s2, ws). (s2, vs @ ws)) (gen_loop sn active volume inc n s1))"
  by (induction m arbitrary: s) (auto split: option.split prod.split simp: option.map_comp option.map_ident comp_def case_prod_unfold)

lemma gen_loop_silent:
  assumes "sidetone_ok s" "sine sn" "in_range 0 1 volume" "in_range 0 1 inc" "m_envelope s = Fin 0"
  shows "\<exists>s'. gen_loop sn False volume inc n s = Some (s', replicate n 0) \<and> m_envelope s' = Fin 0"
  using assms(1,5)
proof (induction n arbitrary: s)
  case (Suc n)
  have "m_rampDownRate s = ramp_rate RAMP_DOWN_MS" using Suc.prems(1) by (simp add: sidetone_ok_def)
  then obtain y where "next_envelope False s = Fin y" "y \<le> max 0 (0 - 1 / 145)" "0 \<le> y"
    using envelope_down [OF Suc.prems(2)] by auto
  then have y: "next_envelope False s = Fin 0" by simp
  obtain s1 where 1: "gen_sample sn False volume inc s = Some (s1, 0)" "sidetone_ok s1" "m_envelope s1 = Fin 0"
    using gen_sample_ok [OF Suc.prems(1) assms(2-4), of False] y by auto
  from Suc.IH [OF 1(2,3)] 1(1) show ?case by auto
qed simp



end
