(* ===== verification/Engine.thy ===== *)
theory Engine
  imports ApiTypes Protocol RingBuffer ReconnectPolicy RadioUtils CatServer TcpClient SidetoneGenerator
begin

text \<open>
  The engine of \<open>core/src/engine/qk4_engine.{h,cpp}\<close>: it owns the other components and connects them.
  The TCP client's bytes go to the protocol decoder, its frames to the radio state, the audio
  buffer and the application's callbacks; commands go to the radio as frames; a lost connection
  starts a thread that retries. Opus is a parameter, as is what the platform does when a thread
  locks a mutex it holds.
\<close>

section \<open>State\<close>

record engine_config =
  audio_jitter_ms :: int
  spectrum_max_fps :: int
  keepalive_interval_s :: int
  keepalive_max_probes :: int
  reconnect_max_attempts :: int

text \<open>Which of the application's callbacks are set.\<close>

record callbacks =
  m_stateCb :: bool
  m_spectrumCb :: bool
  m_audioCb :: bool
  m_errorCb :: bool
  m_connectionCb :: bool
  m_spotCb :: bool
  m_kpaStatusCb :: bool

text \<open>
  \<open>'d\<close> is the state of an Opus decoder, \<open>None\<close> when it could not be created. \<open>en_cbLocks\<close> counts how
  often the running thread holds \<open>m_cbMutex\<close>; \<open>en_retryReady\<close> and \<open>en_retrySleeping\<close> count the
  detached reconnection threads at the head of their loop and in their sleep, \<open>en_retryResults\<close> has an
  element for each that has connected and not yet looked at the result.
\<close>

record 'd engine =
  en_config :: engine_config
  en_tcp :: tcp_client
  en_protocol :: protocol
  en_radio :: radio_state
  en_opus :: "'d option"
  en_sidetone :: sidetone
  en_reconnect :: reconnect_policy
  en_audioBuffer :: ring
  en_running :: bool
  en_connState :: int
  en_lastHost :: string
  en_lastPort :: int
  en_lastPsk :: "byte list"
  en_lastUseTls :: bool
  en_callbacks :: callbacks
  en_cbLocks :: nat
  en_retryReady :: nat
  en_retrySleeping :: nat
  en_retryResults :: "int list"

text \<open>
  The platform: \<open>pf_relock\<close> tells whether locking a \<open>std::mutex\<close> again in the thread that holds it
  succeeds (the standard leaves it undefined; on POSIX the thread waits for ever); \<open>pf_opus\<close> is
  \<open>opus_decode\<close>, which returns the number of frames, negative on an error, and the samples.
\<close>

record 'd platform =
  pf_relock :: bool
  pf_opus :: "'d \<Rightarrow> byte list \<Rightarrow> 'd \<times> int \<times> sample list"

datatype engine_event =
    SendFrame "byte list"
  | System os_event
  | StateCb string
  | SpectrumCb "byte list" nat int
  | AudioCb "sample list" int int
  | ErrorCb int string
  | ConnectionCb int int
  | StartRetry
  | Sleep int

text \<open>What happened, and the result; \<open>None\<close> when the thread never returns.\<close>

type_synonym 'a outcome = "engine_event list \<times> 'a option"

definition emit :: "engine_event list \<Rightarrow> 'a \<Rightarrow> 'a outcome" where
  "emit evs x = (evs, Some x)"

definition never :: "'a outcome" where
  "never = ([], None)"

definition and_then :: "'a outcome \<Rightarrow> ('a \<Rightarrow> 'b outcome) \<Rightarrow> 'b outcome" where
  "and_then r f = (case r of (evs, None) \<Rightarrow> (evs, None)
                   | (evs, Some x) \<Rightarrow> (case f x of (evs', y) \<Rightarrow> (evs @ evs', y)))"

text \<open>The TCP client with the callbacks the engine installs.\<close>

definition engine_tcp :: "engine_config \<Rightarrow> tcp_client" where
  "engine_tcp config =
     tcp_setDisconnectCallback True (tcp_setDataCallback True
       (TcpClient_new \<lparr>tcf_connect_timeout_ms = 10000, tcf_keepalive_interval_s = keepalive_interval_s config,
          tcf_keepalive_max_probes = keepalive_max_probes config\<rparr>))"

definition engine_new :: "engine_config \<Rightarrow> 'd option \<Rightarrow> 'd engine" where
  "engine_new config opus =
     \<lparr>en_config = config, en_tcp = engine_tcp config, en_protocol = setFrameCallback True Protocol_new,
      en_radio = setChangeCallback True RadioState_new, en_opus = opus, en_sidetone = SidetoneGenerator_new,
      en_reconnect = ReconnectPolicy_new \<lparr>max_attempts = reconnect_max_attempts config,
        initial_delay_ms = 1000, max_delay_ms = 60000\<rparr>,
      en_audioBuffer = RingBuffer_new (48000 * 2 * 200 div 1000), en_running = False,
      en_connState = QK4_CONN_DISCONNECTED, en_lastHost = [], en_lastPort = 0, en_lastPsk = [],
      en_lastUseTls = False,
      en_callbacks = \<lparr>m_stateCb = False, m_spectrumCb = False, m_audioCb = False, m_errorCb = False,
        m_connectionCb = False, m_spotCb = False, m_kpaStatusCb = False\<rparr>,
      en_cbLocks = 0, en_retryReady = 0, en_retrySleeping = 0, en_retryResults = []\<rparr>"

section \<open>Callbacks under the mutex\<close>

definition cb_lock :: "'d platform \<Rightarrow> 'd engine \<Rightarrow> 'd engine outcome" where
  "cb_lock pf e = (if en_cbLocks e = 0 \<or> pf_relock pf then emit [] (e\<lparr>en_cbLocks := en_cbLocks e + 1\<rparr>) else never)"

definition cb_unlock :: "'d engine \<Rightarrow> 'd engine outcome" where
  "cb_unlock e = emit [] (e\<lparr>en_cbLocks := en_cbLocks e - 1\<rparr>)"

definition with_lock :: "'d platform \<Rightarrow> ('d engine \<Rightarrow> 'd engine outcome) \<Rightarrow> 'd engine \<Rightarrow> 'd engine outcome" where
  "with_lock pf body e = and_then (and_then (cb_lock pf e) body) cb_unlock"

definition state_change :: "'d platform \<Rightarrow> string \<Rightarrow> 'd engine \<Rightarrow> 'd engine outcome" where
  "state_change pf key =
     with_lock pf (\<lambda>e. emit (if m_stateCb (en_callbacks e) then [StateCb key] else []) e)"

primrec state_changes :: "'d platform \<Rightarrow> string list \<Rightarrow> 'd engine \<Rightarrow> 'd engine outcome" where
  "state_changes pf [] e = emit [] e"
| "state_changes pf (key # keys) e = and_then (state_change pf key e) (state_changes pf keys)"

text \<open>An operation of the radio state, with the callbacks it makes.\<close>

definition on_radio ::
  "'d platform \<Rightarrow> (radio_state \<Rightarrow> radio_state \<times> string list) \<Rightarrow> 'd engine \<Rightarrow> 'd engine outcome" where
  "on_radio pf oper e = (case oper (en_radio e) of (r, keys) \<Rightarrow> state_changes pf keys (e\<lparr>en_radio := r\<rparr>))"

definition notifyError :: "'d platform \<Rightarrow> int \<Rightarrow> string \<Rightarrow> 'd engine \<Rightarrow> 'd engine outcome" where
  "notifyError pf code message =
     with_lock pf (\<lambda>e. emit (if m_errorCb (en_callbacks e) then [ErrorCb code message] else []) e)"

definition notifyConnectionState :: "'d platform \<Rightarrow> int \<Rightarrow> int \<Rightarrow> 'd engine \<Rightarrow> 'd engine outcome" where
  "notifyConnectionState pf st attempt =
     with_lock pf (\<lambda>e. and_then (emit (if m_connectionCb (en_callbacks e) then [ConnectionCb st attempt] else []) e)
                           (on_radio pf (setConnectionState st attempt)))"

section \<open>From the radio\<close>

text \<open>
  \<open>frames * 2\<close> is converted to \<open>size_t\<close>; the spectrum's bins are the payload's bytes, four each.
\<close>

definition onProtocolFrame :: "'d platform \<Rightarrow> byte \<Rightarrow> byte list \<Rightarrow> 'd engine \<Rightarrow> 'd engine outcome" where
  "onProtocolFrame pf ty payload e =
     (if ty = TYPE_CAT_RESPONSE then on_radio pf (parseCatCommand (bytes_string payload)) e
      else if ty = TYPE_AUDIO_DATA then
        (case en_opus e of
           None \<Rightarrow> emit [] e
         | Some d \<Rightarrow>
             (if payload = [] then emit [] e
              else
                (case pf_opus pf d payload of (d', frames, pcm) \<Rightarrow>
                   (let e = e\<lparr>en_opus := Some d'\<rparr>
                    in if frames > 0 then
                         with_lock pf (\<lambda>e. emit (if m_audioCb (en_callbacks e) then [AudioCb pcm frames 12000] else []) e)
                           (e\<lparr>en_audioBuffer := fst (rb_write (en_audioBuffer e) pcm (word_of_int (frames * 2)))\<rparr>)
                       else emit [] e))))
      else if ty = TYPE_SPECTRUM then
        (if length payload \<ge> 4 then
           (let binCount = length payload div 4
            in and_then (on_radio pf (setBinCount (to_i32 (int binCount))) e)
                 (with_lock pf (\<lambda>e. emit (if m_spectrumCb (en_callbacks e) then [SpectrumCb payload binCount 0] else []) e)))
         else emit [] e)
      else if ty = TYPE_MINI_PAN then
        (if length payload \<ge> 4 then
           (let binCount = length payload div 4
            in with_lock pf (\<lambda>e. emit (if m_spectrumCb (en_callbacks e) then [SpectrumCb payload binCount 1] else []) e) e)
         else emit [] e)
      else emit [] e)"

primrec on_frames :: "'d platform \<Rightarrow> frame list \<Rightarrow> 'd engine \<Rightarrow> 'd engine outcome" where
  "on_frames pf [] e = emit [] e"
| "on_frames pf (f # fs) e = and_then (onProtocolFrame pf (fst f) (snd f) e) (on_frames pf fs)"

text \<open>The TCP client's data callback; the frames of one chunk are delivered in order.\<close>

definition data_callback :: "'d platform \<Rightarrow> byte list \<Rightarrow> 'd engine \<Rightarrow> 'd engine outcome" where
  "data_callback pf data e =
     (case feedData (en_protocol e) data of (p, fs) \<Rightarrow> on_frames pf fs (e\<lparr>en_protocol := p\<rparr>))"

section \<open>Connection\<close>

definition onDisconnected :: "'d platform \<Rightarrow> 'd engine \<Rightarrow> 'd engine outcome" where
  "onDisconnected pf e =
     and_then (notifyConnectionState pf QK4_CONN_RECONNECTING 0 (e\<lparr>en_connState := QK4_CONN_RECONNECTING\<rparr>))
       (\<lambda>e. emit [StartRetry]
          (e\<lparr>en_reconnect := rp_onDisconnected (en_reconnect e), en_retryReady := en_retryReady e + 1\<rparr>))"

text \<open>
  The callbacks and system calls of a TCP client operation. The reader's disconnect callback
  runs while the caller joins the reader and touches no field of the TCP client.
\<close>

primrec tcp_effects :: "'d platform \<Rightarrow> tcp_event list \<Rightarrow> 'd engine \<Rightarrow> 'd engine outcome" where
  "tcp_effects pf [] e = emit [] e"
| "tcp_effects pf (ev # evs) e =
     and_then (case ev of Os oe \<Rightarrow> emit [System oe] e
               | DataCb bs \<Rightarrow> data_callback pf bs e
               | DisconnectCb \<Rightarrow> onDisconnected pf e)
       (tcp_effects pf evs)"

definition engine_connect ::
  "'d platform \<Rightarrow> connect_env \<Rightarrow> string \<Rightarrow> int \<Rightarrow> byte list \<Rightarrow> bool \<Rightarrow> 'd engine \<Rightarrow> ('d engine \<times> int) outcome" where
  "engine_connect pf env host port psk use_tls e =
     and_then (notifyConnectionState pf QK4_CONN_CONNECTING 0
        (e\<lparr>en_lastHost := host, en_lastPort := port, en_lastPsk := psk, en_lastUseTls := use_tls,
           en_connState := QK4_CONN_CONNECTING\<rparr>))
     (\<lambda>e. let e = e\<lparr>en_protocol := protocol_reset (en_protocol e), en_reconnect := rp_reset (en_reconnect e)\<rparr>
      in case tcp_connect env psk use_tls (en_tcp e) of (tcp, result, evs) \<Rightarrow>
        and_then (tcp_effects pf evs (e\<lparr>en_tcp := tcp\<rparr>))
        (\<lambda>e. if result \<noteq> 0 then
              and_then (notifyConnectionState pf QK4_CONN_DISCONNECTED 0 (e\<lparr>en_connState := QK4_CONN_DISCONNECTED\<rparr>))
              (\<lambda>e. and_then (notifyError pf result (''Connection failed to '' @ host @ '':'' @ to_string port) e)
              (\<lambda>e. emit [] (e, result)))
            else
              and_then (notifyConnectionState pf QK4_CONN_CONNECTED 0 (e\<lparr>en_connState := QK4_CONN_CONNECTED\<rparr>))
              (\<lambda>e. emit [] (e\<lparr>en_running := True, en_tcp := startReadLoop (en_tcp e)\<rparr>, 0))))"

text \<open>\<open>m_tcpClient->stopReadLoop(); m_tcpClient->disconnect();\<close>\<close>

definition close_connection :: "'d platform \<Rightarrow> 'd engine \<Rightarrow> 'd engine outcome" where
  "close_connection pf e =
     (case stopReadLoop (en_tcp e) of (tcp, evs) \<Rightarrow>
        and_then (tcp_effects pf evs (e\<lparr>en_tcp := tcp\<rparr>))
        (\<lambda>e. case tcp_disconnect (en_tcp e) of (tcp, evs) \<Rightarrow> tcp_effects pf evs (e\<lparr>en_tcp := tcp\<rparr>)))"

definition engine_disconnect :: "'d platform \<Rightarrow> 'd engine \<Rightarrow> 'd engine outcome" where
  "engine_disconnect pf e =
     and_then (close_connection pf (e\<lparr>en_reconnect := rp_reset (en_reconnect e), en_running := False\<rparr>))
     (\<lambda>e. notifyConnectionState pf QK4_CONN_DISCONNECTED 0 (e\<lparr>en_connState := QK4_CONN_DISCONNECTED\<rparr>))"

definition shutdown :: "'d platform \<Rightarrow> 'd engine \<Rightarrow> 'd engine outcome" where
  "shutdown pf e = close_connection pf (e\<lparr>en_running := False\<rparr>)"

text \<open>
  The destructor, and the one of the TCP client it owns; the other components have nothing to stop.
\<close>

definition engine_delete :: "'d platform \<Rightarrow> 'd engine \<Rightarrow> 'd engine outcome" where
  "engine_delete pf e =
     and_then (shutdown pf e)
     (\<lambda>e. case tcp_delete (en_tcp e) of (tcp, evs) \<Rightarrow> tcp_effects pf evs (e\<lparr>en_tcp := tcp\<rparr>))"

definition connectionState :: "'d engine \<Rightarrow> int" where
  "connectionState e = en_connState e"

text \<open>One result of the reader's \<open>recv\<close>.\<close>

definition reader_step :: "'d platform \<Rightarrow> read_result \<Rightarrow> 'd engine \<Rightarrow> 'd engine outcome" where
  "reader_step pf r e =
     (if tc_reader (en_tcp e) then
        (case tcp_read_loop (en_tcp e) [r] of (tcp, evs) \<Rightarrow> tcp_effects pf evs (e\<lparr>en_tcp := tcp\<rparr>))
      else emit [] e)"

section \<open>The reconnection threads\<close>

definition retry_head :: "'d platform \<Rightarrow> 'd engine \<Rightarrow> 'd engine outcome" where
  "retry_head pf e =
     (if en_retryReady e = 0 then emit [] e
      else
        (let e = e\<lparr>en_retryReady := en_retryReady e - 1\<rparr>
         in if isReconnecting (en_reconnect e) \<and> \<not> isExhausted (en_reconnect e) then
              (case getNextDelayMs (en_reconnect e) of
                 None \<Rightarrow> never
               | Some delay \<Rightarrow> emit [Sleep delay] (e\<lparr>en_retrySleeping := en_retrySleeping e + 1\<rparr>))
            else emit [] e))"

definition retry_failed :: "'d platform \<Rightarrow> 'd engine \<Rightarrow> 'd engine outcome" where
  "retry_failed pf e =
     (case rp_onAttemptFailed (en_reconnect e) of
        None \<Rightarrow> never
      | Some (p, again) \<Rightarrow>
          and_then (notifyConnectionState pf QK4_CONN_RECONNECTING (currentAttempt p) (e\<lparr>en_reconnect := p\<rparr>))
          (\<lambda>e. if \<not> again then
                and_then (notifyConnectionState pf QK4_CONN_DISCONNECTED 0 (e\<lparr>en_connState := QK4_CONN_DISCONNECTED\<rparr>))
                (notifyError pf QK4_ERR_TIMEOUT (''Reconnection failed after '' @
                   to_string (reconnect_max_attempts (en_config e)) @ '' attempts''))
              else emit [] (e\<lparr>en_retryReady := en_retryReady e + 1\<rparr>)))"

text \<open>After the sleep: the attempt, which may take seconds, and what is done with its result.\<close>

definition retry_wake :: "'d platform \<Rightarrow> connect_env \<Rightarrow> 'd engine \<Rightarrow> 'd engine outcome" where
  "retry_wake pf env e =
     (if en_retrySleeping e = 0 then emit [] e
      else
        (let e = e\<lparr>en_retrySleeping := en_retrySleeping e - 1\<rparr>
         in if \<not> en_running e then emit [] e
            else
              (let e = e\<lparr>en_protocol := protocol_reset (en_protocol e)\<rparr>
               in case tcp_connect env (en_lastPsk e) (en_lastUseTls e) (en_tcp e) of (tcp, result, evs) \<Rightarrow>
                 and_then (tcp_effects pf evs (e\<lparr>en_tcp := tcp\<rparr>))
                 (\<lambda>e. emit [] (e\<lparr>en_retryResults := en_retryResults e @ [result]\<rparr>)))))"

definition retry_commit :: "'d platform \<Rightarrow> 'd engine \<Rightarrow> 'd engine outcome" where
  "retry_commit pf e =
     (case en_retryResults e of
        [] \<Rightarrow> emit [] e
      | result # results \<Rightarrow>
          (let e = e\<lparr>en_retryResults := results\<rparr>
           in if result = 0 then
                and_then (notifyConnectionState pf QK4_CONN_CONNECTED 0
                   (e\<lparr>en_reconnect := rp_onConnected (en_reconnect e), en_connState := QK4_CONN_CONNECTED\<rparr>))
                (\<lambda>e. emit [] (e\<lparr>en_tcp := startReadLoop (en_tcp e)\<rparr>))
              else retry_failed pf e))"

section \<open>Commands to the radio\<close>

text \<open>A command returns its code and the calls of \<open>TcpClient::send\<close>, whose result is not used.\<close>

definition sendCat :: "string \<Rightarrow> engine_event list" where
  "sendCat command = [SendFrame (encodeCat command)]"

definition engine_setFrequency :: "int \<Rightarrow> int \<Rightarrow> 'd engine \<Rightarrow> int \<times> engine_event list" where
  "engine_setFrequency vfo freq_hz e =
     (if \<not> isConnected (en_tcp e) then (QK4_ERR_NOT_CONNECTED, [])
      else (0, sendCat (snprintf 20 ((if vfo = 0 then ''FA'' else ''FB'') @ fmt_0d 11 freq_hz @ '';''))))"

definition engine_setMode :: "int \<Rightarrow> int \<Rightarrow> 'd engine \<Rightarrow> int \<times> engine_event list" where
  "engine_setMode vfo mode e =
     (if \<not> isConnected (en_tcp e) then (QK4_ERR_NOT_CONNECTED, [])
      else if mode < 0 \<or> mode > 7 then (QK4_ERR_INVALID_PARAM, [])
      else (0, sendCat (snprintf 8 (''MD'' @ to_string ([1, 2, 3, 7, 6, 9, 5, 4] ! nat mode) @ '';''))))"

definition engine_setPtt :: "bool \<Rightarrow> 'd engine \<Rightarrow> int \<times> engine_event list" where
  "engine_setPtt on e =
     (if \<not> isConnected (en_tcp e) then (QK4_ERR_NOT_CONNECTED, [])
      else (0, sendCat (if on then ''TX;'' else ''RX;'')))"

definition engine_setTune :: "bool \<Rightarrow> 'd engine \<Rightarrow> int \<times> engine_event list" where
  "engine_setTune on e =
     (if \<not> isConnected (en_tcp e) then (QK4_ERR_NOT_CONNECTED, [])
      else (0, sendCat (if on then ''SWH16;'' else ''SWH00;'')))"

definition engine_setPower :: "int \<Rightarrow> 'd engine \<Rightarrow> int \<times> engine_event list" where
  "engine_setPower watts e =
     (if \<not> isConnected (en_tcp e) then (QK4_ERR_NOT_CONNECTED, [])
      else (0, sendCat (snprintf 12 (''PC'' @ fmt_0d 3 watts @ '';''))))"

definition engine_setBand :: "int \<Rightarrow> 'd engine \<Rightarrow> int \<times> engine_event list" where
  "engine_setBand b_id e =
     (if \<not> isConnected (en_tcp e) then (QK4_ERR_NOT_CONNECTED, [])
      else (case getBandById b_id of
              None \<Rightarrow> (QK4_ERR_INVALID_PARAM, [])
            | Some b \<Rightarrow> engine_setFrequency 0 (tdiv (lower_hz b + upper_hz b) 2) e))"

definition engine_setAgc :: "int \<Rightarrow> int \<Rightarrow> 'd engine \<Rightarrow> int \<times> engine_event list" where
  "engine_setAgc vfo agc_mode e =
     (if \<not> isConnected (en_tcp e) then (QK4_ERR_NOT_CONNECTED, [])
      else if agc_mode < 0 \<or> agc_mode > 2 then (QK4_ERR_INVALID_PARAM, [])
      else (0, sendCat (snprintf 8 (''GT'' @ to_string ([0, 2, 4] ! nat agc_mode) @ '';''))))"

definition engine_setFilterBw :: "int \<Rightarrow> int \<Rightarrow> 'd engine \<Rightarrow> int \<times> engine_event list" where
  "engine_setFilterBw vfo bandwidth_hz e =
     (if \<not> isConnected (en_tcp e) then (QK4_ERR_NOT_CONNECTED, [])
      else (0, sendCat (snprintf 16 (''BW'' @ fmt_0d 4 (tdiv bandwidth_hz 10) @ '';''))))"

definition engine_setNotch :: "int \<Rightarrow> bool \<Rightarrow> int \<Rightarrow> 'd engine \<Rightarrow> int \<times> engine_event list" where
  "engine_setNotch vfo enabled freq_hz e =
     (if \<not> isConnected (en_tcp e) then (QK4_ERR_NOT_CONNECTED, [])
      else if enabled then (0, sendCat (snprintf 16 (''NT1;BP'' @ fmt_0d 4 (tdiv freq_hz 10) @ '';'')))
      else (0, sendCat ''NT0;''))"

definition engine_setNr :: "'d platform \<Rightarrow> int \<Rightarrow> int \<Rightarrow> bool \<Rightarrow> int \<Rightarrow> 'd engine \<Rightarrow> ('d engine \<times> int) outcome" where
  "engine_setNr pf vfo algorithm enabled level e =
     and_then (on_radio pf (setNrEnabled vfo algorithm enabled) e)
     (\<lambda>e. and_then (if enabled then on_radio pf (setNrLevel vfo algorithm level) e else emit [] e)
     (\<lambda>e. emit [] (e, 0)))"

definition cwKey :: "int \<Rightarrow> 'd engine \<Rightarrow> 'd engine outcome" where
  "cwKey element e =
     (if \<not> isConnected (en_tcp e) then emit [] e
      else emit (if element = 0 then sendCat ''KY A;'' else if element = 1 then sendCat ''KY N;'' else [])
             (e\<lparr>en_sidetone := (if element = 0 \<or> element = 1 then keyDown (en_sidetone e) else keyUp (en_sidetone e))\<rparr>))"

definition cwSetSpeed :: "'d platform \<Rightarrow> int \<Rightarrow> 'd engine \<Rightarrow> 'd engine outcome" where
  "cwSetSpeed pf wpm e =
     and_then (on_radio pf (setCwSpeed wpm) e)
     (\<lambda>e. emit (if isConnected (en_tcp e) then sendCat (snprintf 12 (''KS'' @ fmt_0d 3 wpm @ '';'')) else []) e)"

definition cwSetIambicMode :: "'d platform \<Rightarrow> int \<Rightarrow> 'd engine \<Rightarrow> 'd engine outcome" where
  "cwSetIambicMode pf mode = on_radio pf (setCwIambicMode mode)"

definition setVolume :: "'d platform \<Rightarrow> int \<Rightarrow> int \<Rightarrow> 'd engine \<Rightarrow> 'd engine outcome" where
  "setVolume pf channel level =
     (if channel = 0 then on_radio pf (setMainVolume level) else on_radio pf (setSubVolume level))"

definition engine_setSidetonePitch :: "'d platform \<Rightarrow> int \<Rightarrow> 'd engine \<Rightarrow> 'd engine outcome" where
  "engine_setSidetonePitch pf hz e =
     and_then (on_radio pf (setSidetonePitch hz) e)
     (\<lambda>e. emit [] (e\<lparr>en_sidetone := setPitch hz (en_sidetone e)\<rparr>))"

definition setSpectrumSpan :: "'d platform \<Rightarrow> int \<Rightarrow> 'd engine \<Rightarrow> 'd engine outcome" where
  "setSpectrumSpan pf span_hz e =
     (case snapToSpanTier span_hz of
        None \<Rightarrow> never
      | Some snapped \<Rightarrow>
          and_then (on_radio pf (setSpan snapped) e)
          (\<lambda>e. emit (if isConnected (en_tcp e) then sendCat (snprintf 16 (''#SPN'' @ to_string snapped @ '';'')) else []) e))"

definition setSpectrumCenter :: "'d platform \<Rightarrow> int \<Rightarrow> 'd engine \<Rightarrow> 'd engine outcome" where
  "setSpectrumCenter pf center_hz = on_radio pf (setCenter center_hz)"

definition setSpectrumRefLevel :: "'d platform \<Rightarrow> int \<Rightarrow> 'd engine \<Rightarrow> 'd engine outcome" where
  "setSpectrumRefLevel pf ref_db e =
     and_then (on_radio pf (setRefLevel ref_db) e)
     (\<lambda>e. emit (if isConnected (en_tcp e) then sendCat (snprintf 12 (''#REF'' @ to_string ref_db @ '';'')) else []) e)"

section \<open>Queries and registration\<close>

definition engine_getFrequency :: "int \<Rightarrow> 'd engine \<Rightarrow> int" where
  "engine_getFrequency vfo e = vfo_frequency_hz (getVfo (en_radio e) vfo)"

definition engine_getMode :: "int \<Rightarrow> 'd engine \<Rightarrow> int" where
  "engine_getMode vfo e = vfo_mode (getVfo (en_radio e) vfo)"

definition engine_getSmeter :: "int \<Rightarrow> 'd engine \<Rightarrow> int" where
  "engine_getSmeter vfo e = vfo_smeter (getVfo (en_radio e) vfo)"

definition engine_getTxState :: "'d engine \<Rightarrow> int" where
  "engine_getTxState e = (if tx_ptt (getTx (en_radio e)) then 1 else 0)"

definition engine_getPowerLevel :: "'d engine \<Rightarrow> int" where
  "engine_getPowerLevel e = tx_power_watts (getTx (en_radio e))"

definition engine_getTuningRate :: "int \<Rightarrow> 'd engine \<Rightarrow> int" where
  "engine_getTuningRate vfo e = vfo_tuning_rate (getVfo (en_radio e) vfo)"

definition engine_getSubOn :: "'d engine \<Rightarrow> int" where
  "engine_getSubOn e = (if vfo_sub_on (getVfo (en_radio e) 1) then 1 else 0)"

text \<open>Every \<open>set...Callback\<close> stores the pointer, null or not, under the mutex; the context is not modelled.\<close>

definition setCallback :: "'d platform \<Rightarrow> (callbacks \<Rightarrow> callbacks) \<Rightarrow> 'd engine \<Rightarrow> 'd engine outcome" where
  "setCallback pf store = with_lock pf (\<lambda>e. emit [] (e\<lparr>en_callbacks := store (en_callbacks e)\<rparr>))"

definition setStateCallback :: "'d platform \<Rightarrow> bool \<Rightarrow> 'd engine \<Rightarrow> 'd engine outcome" where
  "setStateCallback pf cb = setCallback pf (\<lambda>c. c\<lparr>m_stateCb := cb\<rparr>)"

definition setSpectrumCallback :: "'d platform \<Rightarrow> bool \<Rightarrow> 'd engine \<Rightarrow> 'd engine outcome" where
  "setSpectrumCallback pf cb = setCallback pf (\<lambda>c. c\<lparr>m_spectrumCb := cb\<rparr>)"

definition setAudioCallback :: "'d platform \<Rightarrow> bool \<Rightarrow> 'd engine \<Rightarrow> 'd engine outcome" where
  "setAudioCallback pf cb = setCallback pf (\<lambda>c. c\<lparr>m_audioCb := cb\<rparr>)"

definition setErrorCallback :: "'d platform \<Rightarrow> bool \<Rightarrow> 'd engine \<Rightarrow> 'd engine outcome" where
  "setErrorCallback pf cb = setCallback pf (\<lambda>c. c\<lparr>m_errorCb := cb\<rparr>)"

definition setConnectionCallback :: "'d platform \<Rightarrow> bool \<Rightarrow> 'd engine \<Rightarrow> 'd engine outcome" where
  "setConnectionCallback pf cb = setCallback pf (\<lambda>c. c\<lparr>m_connectionCb := cb\<rparr>)"

definition engine_setSpotCallback :: "'d platform \<Rightarrow> bool \<Rightarrow> 'd engine \<Rightarrow> 'd engine outcome" where
  "engine_setSpotCallback pf cb = setCallback pf (\<lambda>c. c\<lparr>m_spotCb := cb\<rparr>)"

definition setKpaStatusCallback :: "'d platform \<Rightarrow> bool \<Rightarrow> 'd engine \<Rightarrow> 'd engine outcome" where
  "setKpaStatusCallback pf cb = setCallback pf (\<lambda>c. c\<lparr>m_kpaStatusCb := cb\<rparr>)"

lemmas setter_callback_defs =
  setStateCallback_def setSpectrumCallback_def setAudioCallback_def setErrorCallback_def setConnectionCallback_def
  engine_setSpotCallback_def setKpaStatusCallback_def

section \<open>Services that are not implemented\<close>

text \<open>
  Stubs in the code: discovery returns a null pointer, the CAT server, DX cluster and amplifier calls
  report success, and the jitter buffer is not reconfigured.
\<close>

definition startDiscovery :: "'d engine \<Rightarrow> 'x option" where
  "startDiscovery e = None"

definition catStart :: "int \<Rightarrow> int \<Rightarrow> 'd engine \<Rightarrow> int \<times> engine_event list" where
  "catStart port max_clients e = (0, [])"

definition catStop :: "'d engine \<Rightarrow> 'd engine outcome" where
  "catStop e = emit [] e"

definition catGetClientCount :: "'d engine \<Rightarrow> int" where
  "catGetClientCount e = 0"

definition dxClusterConnect :: "string \<Rightarrow> int \<Rightarrow> string \<Rightarrow> 'd engine \<Rightarrow> int \<times> engine_event list" where
  "dxClusterConnect host port callsign e = (0, [])"

definition dxClusterDisconnect :: "'d engine \<Rightarrow> 'd engine outcome" where
  "dxClusterDisconnect e = emit [] e"

definition kpaConnect :: "'d engine \<Rightarrow> int \<times> engine_event list" where
  "kpaConnect e = (0, [])"

definition kpaDisconnect :: "'d engine \<Rightarrow> 'd engine outcome" where
  "kpaDisconnect e = emit [] e"

definition kpaSetOperate :: "bool \<Rightarrow> 'd engine \<Rightarrow> int \<times> engine_event list" where
  "kpaSetOperate operate e = (0, [])"

definition kpaSetBand :: "int \<Rightarrow> 'd engine \<Rightarrow> int \<times> engine_event list" where
  "kpaSetBand b_id e = (0, [])"

definition setJitterBuffer :: "int \<Rightarrow> 'd engine \<Rightarrow> 'd engine outcome" where
  "setJitterBuffer ms e = emit [] e"

lemmas stub_defs =
  catStart_def catStop_def catGetClientCount_def dxClusterConnect_def dxClusterDisconnect_def kpaConnect_def
  kpaDisconnect_def kpaSetOperate_def kpaSetBand_def setJitterBuffer_def

section \<open>Outcomes and locking: lemmas\<close>

lemma and_then_simps [simp]:
  "and_then (evs, None) f = (evs, None)"
  "and_then (evs, Some x) f = (evs @ fst (f x), snd (f x))"
  "and_then (emit evs x) f = (evs @ fst (f x), snd (f x))"
  by (simp_all add: and_then_def emit_def split_beta)

lemma and_then_Nil [simp]: "and_then ([], Some x) f = f x"
  by simp

lemma and_then_assoc: "and_then (and_then r f) g = and_then r (\<lambda>x. and_then (f x) g)"
  by (auto simp: and_then_def split_beta split: option.splits)

lemmas lock_defs = with_lock_def cb_lock_def cb_unlock_def emit_def never_def

lemma locks_same [simp]: "e\<lparr>en_cbLocks := en_cbLocks e\<rparr> = e"
  by (cases e) simp

text \<open>With the mutex free, or a platform that lets it be locked again, nothing waits.\<close>

definition lockable :: "'d platform \<Rightarrow> 'd engine \<Rightarrow> bool" where
  "lockable pf e \<longleftrightarrow> en_cbLocks e = 0 \<or> pf_relock pf"

definition state_keys :: "string list \<Rightarrow> 'd engine \<Rightarrow> engine_event list" where
  "state_keys keys e = (if m_stateCb (en_callbacks e) then map StateCb keys else [])"

lemma state_change_free: "lockable pf e \<Longrightarrow> state_change pf key e = (state_keys [key] e, Some e)"
  by (auto simp: state_change_def lock_defs lockable_def state_keys_def)

lemma state_changes_free: "lockable pf e \<Longrightarrow> state_changes pf keys e = (state_keys keys e, Some e)"
  by (induction keys) (simp_all add: state_change_free emit_def, auto simp: state_keys_def)

lemma on_radio_free:
  "lockable pf e \<Longrightarrow> on_radio pf oper e =
     (state_keys (snd (oper (en_radio e))) e, Some (e\<lparr>en_radio := fst (oper (en_radio e))\<rparr>))"
  by (simp add: on_radio_def split_beta state_changes_free lockable_def) (simp add: state_keys_def)

lemma notifyError_free:
  "lockable pf e \<Longrightarrow> notifyError pf code msg e = (if m_errorCb (en_callbacks e) then [ErrorCb code msg] else [], Some e)"
  by (auto simp: notifyError_def lock_defs lockable_def)

definition connection_radio :: "int \<Rightarrow> int \<Rightarrow> 'd engine \<Rightarrow> 'd engine" where
  "connection_radio st attempt e = e\<lparr>en_radio := fst (setConnectionState st attempt (en_radio e))\<rparr>"

definition connection_events :: "int \<Rightarrow> int \<Rightarrow> 'd engine \<Rightarrow> engine_event list" where
  "connection_events st attempt e =
     (if m_connectionCb (en_callbacks e) then [ConnectionCb st attempt] else []) @
     (if m_stateCb (en_callbacks e) \<and> rs_changeCb (en_radio e) then [StateCb ''connection''] else [])"

lemma notifyConnectionState_relock:
  "pf_relock pf \<Longrightarrow> notifyConnectionState pf st attempt e =
     (connection_events st attempt e, Some (connection_radio st attempt e))"
  by (simp add: notifyConnectionState_def lock_defs on_radio_free lockable_def setConnectionState_def
      connection_events_def connection_radio_def state_keys_def notify_def)

lemma notifyConnectionState_blocks:
  assumes "\<not> pf_relock pf" "rs_changeCb (en_radio e)" "en_cbLocks e = 0"
  shows "notifyConnectionState pf st attempt e =
    (if m_connectionCb (en_callbacks e) then [ConnectionCb st attempt] else [], None)"
  using assms
  by (simp add: notifyConnectionState_def lock_defs on_radio_def setConnectionState_def notify_def
      state_change_def)

section \<open>Example platforms and engines\<close>

definition posix :: "unit platform" where
  "posix = \<lparr>pf_relock = False, pf_opus = (\<lambda>d _. (d, 0, []))\<rparr>"

definition default_engine_config :: engine_config where
  "default_engine_config = \<lparr>audio_jitter_ms = 40, spectrum_max_fps = 30, keepalive_interval_s = 15, keepalive_max_probes = 3,
     reconnect_max_attempts = 10\<rparr>"

definition default_engine :: "unit engine" where
  "default_engine = engine_new default_engine_config (Some ())"

lemma default_engine_eq:
  "default_engine = engine_new \<lparr>audio_jitter_ms = 40, spectrum_max_fps = 30, keepalive_interval_s = 15,
     keepalive_max_probes = 3, reconnect_max_attempts = 10\<rparr> (Some ())"
  by (simp add: default_engine_def default_engine_config_def)

lemma engine_tcp_fields [simp]:
  "tc_dataCb (engine_tcp c)" "tc_disconnectCb (engine_tcp c)" "tc_fd (engine_tcp c) = -1" "\<not> tc_connected (engine_tcp c)"
  "\<not> tc_reader (engine_tcp c)" "\<not> tc_thread (engine_tcp c)" "\<not> tc_readLoopRunning (engine_tcp c)" "\<not> tc_ssl (engine_tcp c)"
  "\<not> tc_sslCtx (engine_tcp c)" "tc_psk_allocs (engine_tcp c) = 0"
  by (simp_all add: engine_tcp_def TcpClient_new_def tcp_setDataCallback_def tcp_setDisconnectCallback_def)

lemma engine_new_fields [simp]:
  "rs_changeCb (en_radio (engine_new c d))" "en_cbLocks (engine_new c d) = 0"
  "en_tcp (engine_new c d) = engine_tcp c" "en_config (engine_new c d) = c" "en_opus (engine_new c d) = d"
  "en_protocol (engine_new c d) = setFrameCallback True Protocol_new"
  by (simp_all add: engine_new_def setChangeCallback_def)

definition relocking :: "unit platform" where
  "relocking = \<lparr>pf_relock = True, pf_opus = (\<lambda>d p. if length p \<le> 960 then (d, int (length p), concat (map (\<lambda>b. [ucast b, 0]) p)) else (d, -4, []))\<rparr>"

definition listening_engine :: "unit engine" where
  "listening_engine = default_engine\<lparr>en_callbacks := \<lparr>m_stateCb = True, m_spectrumCb = True, m_audioCb = True,
     m_errorCb = True, m_connectionCb = True, m_spotCb = True, m_kpaStatusCb = True\<rparr>\<rparr>"

lemma listening_fields [simp]:
  "en_tcp listening_engine = engine_tcp default_engine_config" "m_connectionCb (en_callbacks listening_engine)"
  "m_audioCb (en_callbacks listening_engine)" "en_cbLocks listening_engine = 0" "en_opus listening_engine = Some ()"
  "en_protocol listening_engine = setFrameCallback True Protocol_new" "pf_relock relocking"
  by (simp_all add: listening_engine_def default_engine_def relocking_def)

end
