(* ===== verification/EngineStream.thy ===== *)
theory EngineStream
  imports Engine
begin

text \<open>
  The engine's data paths (\<open>core/src/engine/qk4_engine.cpp\<close>): the byte stream from the radio through the
  decoder to the radio state and the audio buffer, and the commands on their way to the radio.
\<close>

section \<open>The stream from the radio: lemmas\<close>

text \<open>Handling a frame neither reads nor writes the decoder.\<close>

definition put_protocol :: "protocol \<Rightarrow> 'd engine outcome \<Rightarrow> 'd engine outcome" where
  "put_protocol p r = (fst r, map_option (\<lambda>e. e\<lparr>en_protocol := p\<rparr>) (snd r))"

lemma put_protocol_simps [simp]:
  "put_protocol p (evs, Some e) = (evs, Some (e\<lparr>en_protocol := p\<rparr>))"
  "put_protocol p (evs, None) = (evs, None)"
  "put_protocol p (emit evs e) = emit evs (e\<lparr>en_protocol := p\<rparr>)"
  by (simp_all add: put_protocol_def emit_def)

lemma protocol_commutes:
  "e\<lparr>en_protocol := p, en_cbLocks := l\<rparr> = e\<lparr>en_cbLocks := l, en_protocol := p\<rparr>"
  "e\<lparr>en_protocol := p, en_radio := r\<rparr> = e\<lparr>en_radio := r, en_protocol := p\<rparr>"
  "e\<lparr>en_protocol := p, en_opus := d\<rparr> = e\<lparr>en_opus := d, en_protocol := p\<rparr>"
  "e\<lparr>en_protocol := p, en_audioBuffer := b\<rparr> = e\<lparr>en_audioBuffer := b, en_protocol := p\<rparr>"
  by (cases e, simp)+

lemma put_protocol_and_then:
  assumes "\<And>e. f (e\<lparr>en_protocol := p\<rparr>) = put_protocol p (f e)"
  shows "and_then (put_protocol p r) f = put_protocol p (and_then r f)"
  using assms by (cases r; cases "snd r") (auto simp: put_protocol_def and_then_def split_beta)

lemma with_lock_protocol:
  assumes "\<And>e. body (e\<lparr>en_protocol := p\<rparr>) = put_protocol p (body e)"
  shows "with_lock pf body (e\<lparr>en_protocol := p\<rparr>) = put_protocol p (with_lock pf body e)"
proof -
  have "cb_lock pf (e\<lparr>en_protocol := p\<rparr>) = put_protocol p (cb_lock pf e)"
    by (simp add: cb_lock_def emit_def never_def protocol_commutes)
  moreover have "cb_unlock (e\<lparr>en_protocol := p\<rparr>) = put_protocol p (cb_unlock e)" for e :: "'a engine"
    by (simp add: cb_unlock_def protocol_commutes)
  ultimately show ?thesis by (simp add: with_lock_def put_protocol_and_then assms)
qed

lemma state_changes_protocol:
  "state_changes pf keys (e\<lparr>en_protocol := p\<rparr>) = put_protocol p (state_changes pf keys e)"
proof (induction keys arbitrary: e)
  case (Cons key keys)
  have "state_change pf key (e\<lparr>en_protocol := p\<rparr>) = put_protocol p (state_change pf key e)"
    unfolding state_change_def by (rule with_lock_protocol) simp
  then show ?case by (simp add: put_protocol_and_then Cons.IH)
qed simp

lemma on_radio_protocol:
  "on_radio pf oper (e\<lparr>en_protocol := p\<rparr>) = put_protocol p (on_radio pf oper e)"
  by (simp add: on_radio_def split_beta protocol_commutes state_changes_protocol)

lemma onProtocolFrame_protocol:
  "onProtocolFrame pf ty pl (e\<lparr>en_protocol := p\<rparr>) = put_protocol p (onProtocolFrame pf ty pl e)"
  by (simp add: onProtocolFrame_def Let_def on_radio_protocol put_protocol_and_then with_lock_protocol
      protocol_commutes split_beta split: option.split)

lemma on_frames_protocol:
  "on_frames pf fs (e\<lparr>en_protocol := p\<rparr>) = put_protocol p (on_frames pf fs e)"
  by (induction fs arbitrary: e) (simp_all add: onProtocolFrame_protocol put_protocol_and_then)

lemma on_frames_append: "on_frames pf (fs @ gs) = (\<lambda>e. and_then (on_frames pf fs e) (on_frames pf gs))"
  by (induction fs) (simp_all add: and_then_assoc)

primrec data_callbacks :: "'d platform \<Rightarrow> byte list list \<Rightarrow> 'd engine \<Rightarrow> 'd engine outcome" where
  "data_callbacks pf [] e = emit [] e"
| "data_callbacks pf (c # cs) e = and_then (data_callback pf c e) (data_callbacks pf cs)"

lemma put_protocol_twice [simp]: "put_protocol p (put_protocol q r) = put_protocol p r"
  by (cases "snd r") (simp_all add: put_protocol_def)

lemma data_callbacks_frames:
  "data_callbacks pf cs e =
     put_protocol (fst (feed_all feedData (en_protocol e) cs)) (on_frames pf (snd (feed_all feedData (en_protocol e) cs)) e)"
proof (induction cs arbitrary: e)
  case Nil
  then show ?case by (cases e) (simp add: emit_def)
next
  case (Cons c cs)
  let ?q = "fst (feedData (en_protocol e) c)" and ?fs = "snd (feedData (en_protocol e) c)"
  let ?p = "fst (feed_all feedData ?q cs)" and ?gs = "snd (feed_all feedData ?q cs)"
  obtain evs x where r: "on_frames pf ?fs e = (evs, x)" by (cases "on_frames pf ?fs e")
  have c: "data_callback pf c e = put_protocol ?q (evs, x)"
    by (simp add: data_callback_def split_beta on_frames_protocol r)
  show ?case
  proof (cases x)
    case None
    then show ?thesis by (simp add: c r split_beta on_frames_append)
  next
    case (Some e1)
    have "data_callbacks pf cs (e1\<lparr>en_protocol := ?q\<rparr>) = put_protocol ?p (on_frames pf ?gs e1)"
      using Cons.IH [of "e1\<lparr>en_protocol := ?q\<rparr>"] by (simp add: on_frames_protocol)
    then show ?thesis by (simp add: c r Some split_beta on_frames_append put_protocol_def)
  qed
qed

text \<open>What a frame does to the radio state.\<close>

definition frame_radio :: "radio_state \<Rightarrow> frame \<Rightarrow> radio_state" where
  "frame_radio r f =
     (if fst f = TYPE_CAT_RESPONSE then fst (parseCatCommand (bytes_string (snd f)) r)
      else if fst f = TYPE_SPECTRUM \<and> 4 \<le> length (snd f) then fst (setBinCount (to_i32 (int (length (snd f) div 4))) r)
      else r)"

lemma type_codes: "TYPE_AUDIO_DATA \<noteq> TYPE_CAT_RESPONSE" "TYPE_SPECTRUM \<noteq> TYPE_CAT_RESPONSE" "TYPE_SPECTRUM \<noteq> TYPE_AUDIO_DATA"
  by (simp_all add: TYPE_AUDIO_DATA_def TYPE_CAT_RESPONSE_def TYPE_SPECTRUM_def)

lemma onProtocolFrame_radio:
  assumes "lockable pf e"
  shows "\<exists>evs e'. onProtocolFrame pf ty pl e = (evs, Some e') \<and> lockable pf e' \<and>
           en_radio e' = frame_radio (en_radio e) (ty, pl)"
proof -
  have locks: "en_cbLocks e = 0 \<or> pf_relock pf" using assms by (simp add: lockable_def)
  consider "ty = TYPE_CAT_RESPONSE" | "ty = TYPE_AUDIO_DATA" | "ty = TYPE_SPECTRUM"
    | "ty \<notin> {TYPE_CAT_RESPONSE, TYPE_AUDIO_DATA, TYPE_SPECTRUM}" by blast
  then show ?thesis
  proof cases
    case 1
    then show ?thesis using assms by (simp add: onProtocolFrame_def on_radio_free frame_radio_def lockable_def)
  next
    case 2
    with type_codes show ?thesis using locks
      by (auto simp: onProtocolFrame_def frame_radio_def lock_defs lockable_def Let_def split_beta split: option.splits)
  next
    case 3
    with type_codes show ?thesis using locks
      by (auto simp: onProtocolFrame_def frame_radio_def lock_defs lockable_def Let_def on_radio_free)
  next
    case 4
    then show ?thesis using locks
      by (auto simp: onProtocolFrame_def frame_radio_def lock_defs lockable_def Let_def)
  qed
qed

lemma on_frames_radio:
  "lockable pf e \<Longrightarrow> \<exists>evs e'. on_frames pf fs e = (evs, Some e') \<and> lockable pf e' \<and>
     en_radio e' = foldl frame_radio (en_radio e) fs"
proof (induction fs arbitrary: e)
  case Nil
  then show ?case by (simp add: emit_def)
next
  case (Cons f fs)
  from onProtocolFrame_radio [OF Cons.prems, of "fst f" "snd f"] obtain evs e1 where
    e1: "onProtocolFrame pf (fst f) (snd f) e = (evs, Some e1)" "lockable pf e1"
      "en_radio e1 = frame_radio (en_radio e) f" by auto
  from Cons.IH [OF e1(2)] obtain evs' e2 where
    "on_frames pf fs e1 = (evs', Some e2)" "lockable pf e2" "en_radio e2 = foldl frame_radio (en_radio e1) fs"
    by blast
  with e1 show ?case by simp
qed

section \<open>Audio: lemmas\<close>

text \<open>The packets decoded in order, as Opus does it; a packet in error gives no samples.\<close>

primrec decoded :: "('d \<Rightarrow> byte list \<Rightarrow> 'd \<times> int \<times> sample list) \<Rightarrow> 'd \<Rightarrow> byte list list \<Rightarrow> sample list" where
  "decoded opus d [] = []"
| "decoded opus d (p # ps) =
     (case opus d p of (d', frames, pcm) \<Rightarrow> (if frames > 0 then pcm else []) @ decoded opus d' ps)"

text \<open>
  The documented behaviour of \<open>opus_decode\<close> with room for 960 frames of two channels: it returns at
  most 960 and has then written two samples for each.
\<close>

definition opus_contract :: "('d \<Rightarrow> byte list \<Rightarrow> 'd \<times> int \<times> sample list) \<Rightarrow> bool" where
  "opus_contract opus \<longleftrightarrow> (\<forall>d p d' frames pcm. opus d p = (d', frames, pcm) \<longrightarrow>
     frames \<le> 960 \<and> (frames > 0 \<longrightarrow> int (length pcm) = frames * 2))"

lemma write_fills:
  assumes "ring_ok rb" "length pcm < 2 ^ 64"
  shows "ring_ok (fst (rb_write rb pcm (word_of_int (int (length pcm)))))"
    and "rb_cap (fst (rb_write rb pcm (word_of_int (int (length pcm))))) = rb_cap rb"
    and "contents (fst (rb_write rb pcm (word_of_int (int (length pcm))))) = take (rb_cap rb) (contents rb @ pcm)"
proof -
  have w: "rb_write rb pcm (word_of_int (int (length pcm))) = rb_write rb pcm (of_nat (length pcm))" by simp
  have eq: "fst (rb_write rb pcm (of_nat (length pcm))) = fst (rb_enq rb pcm)" by (simp add: rb_enq_def split_beta)
  show "ring_ok (fst (rb_write rb pcm (word_of_int (int (length pcm)))))"
    "rb_cap (fst (rb_write rb pcm (word_of_int (int (length pcm))))) = rb_cap rb"
    unfolding w eq by (rule audio.inv_enq [OF assms], rule audio.cap_enq [OF assms])
  have "take (snd (rb_enq rb pcm)) pcm = take (rb_cap rb - length (contents rb)) pcm"
    by (simp add: audio.count_enq [OF assms] min_def)
  then show "contents (fst (rb_write rb pcm (word_of_int (int (length pcm))))) = take (rb_cap rb) (contents rb @ pcm)"
    unfolding w eq using audio.items_enq [OF assms] audio.bounded [OF assms(1)] by simp
qed

lemma audio_frame:
  assumes "opus_contract (pf_opus pf)" "lockable pf e" "en_opus e = Some d" "pl \<noteq> []" "ring_ok (en_audioBuffer e)"
    and "pf_opus pf d pl = (d', frames, pcm)"
  shows "\<exists>e'. onProtocolFrame pf TYPE_AUDIO_DATA pl e =
      (if frames > 0 \<and> m_audioCb (en_callbacks e) then [AudioCb pcm frames 12000] else [], Some e') \<and>
    lockable pf e' \<and> en_opus e' = Some d' \<and> en_callbacks e' = en_callbacks e \<and> ring_ok (en_audioBuffer e') \<and>
    rb_cap (en_audioBuffer e') = rb_cap (en_audioBuffer e) \<and>
    contents (en_audioBuffer e') = take (rb_cap (en_audioBuffer e))
      (contents (en_audioBuffer e) @ (if frames > 0 then pcm else []))"
proof (cases "frames > 0")
  case True
  then have len: "frames * 2 = int (length pcm)" "length pcm < 2 ^ 64"
    using assms(1,6) unfolding opus_contract_def by fastforce+
  from arg_cong [OF len(1), of word_of_int]
  have count: "(word_of_int frames * 2 :: u64) = word_of_nat (length pcm)" by simp
  note w = write_fills [OF assms(5) len(2)]
  have locks: "en_cbLocks e = 0 \<or> pf_relock pf" using assms(2) by (simp add: lockable_def)
  show ?thesis using True assms(3,4,6) locks w unfolding onProtocolFrame_def
    by (auto simp: count type_codes lock_defs lockable_def Let_def)
next
  case False
  then show ?thesis using assms audio.bounded [OF assms(5)]
    by (auto simp: onProtocolFrame_def type_codes lockable_def Let_def emit_def)
qed

lemma audio_frames:
  assumes "opus_contract (pf_opus pf)" "lockable pf e" "en_opus e = Some d" "ring_ok (en_audioBuffer e)"
    and "[] \<notin> set ps"
  shows "\<exists>evs e'. on_frames pf (map (Pair TYPE_AUDIO_DATA) ps) e = (evs, Some e') \<and>
    contents (en_audioBuffer e') = take (rb_cap (en_audioBuffer e))
      (contents (en_audioBuffer e) @ decoded (pf_opus pf) d ps) \<and>
    (m_audioCb (en_callbacks e) \<longrightarrow> concat (map (\<lambda>ev. case ev of AudioCb pcm _ _ \<Rightarrow> pcm | _ \<Rightarrow> []) evs) = decoded (pf_opus pf) d ps)"
  using assms(2-)
proof (induction ps arbitrary: e d)
  case Nil
  then show ?case using audio.bounded [of "en_audioBuffer e"] by (simp add: emit_def)
next
  case (Cons p ps)
  obtain d' frames pcm where dec: "pf_opus pf d p = (d', frames, pcm)" by (cases "pf_opus pf d p")
  from audio_frame [OF assms(1) Cons.prems(1,2) _ Cons.prems(3) dec] Cons.prems(4) obtain e1 where e1:
    "onProtocolFrame pf TYPE_AUDIO_DATA p e =
      (if frames > 0 \<and> m_audioCb (en_callbacks e) then [AudioCb pcm frames 12000] else [], Some e1)"
    "lockable pf e1" "en_opus e1 = Some d'" "en_callbacks e1 = en_callbacks e" "ring_ok (en_audioBuffer e1)"
    "rb_cap (en_audioBuffer e1) = rb_cap (en_audioBuffer e)"
    "contents (en_audioBuffer e1) = take (rb_cap (en_audioBuffer e))
      (contents (en_audioBuffer e) @ (if frames > 0 then pcm else []))" by auto
  have take_take_append: "take n (take n xs @ ys) = take n (xs @ ys)" for n and xs ys :: "sample list"
    by (simp add: min_def)
  have "[] \<notin> set ps" using Cons.prems(4) by simp
  from Cons.IH [OF e1(2,3,5) this] obtain evs e2 where e2:
    "on_frames pf (map (Pair TYPE_AUDIO_DATA) ps) e1 = (evs, Some e2)"
    "contents (en_audioBuffer e2) = take (rb_cap (en_audioBuffer e))
      (contents (en_audioBuffer e1) @ decoded (pf_opus pf) d' ps)"
    "m_audioCb (en_callbacks e) \<longrightarrow>
      concat (map (\<lambda>ev. case ev of AudioCb pcm _ _ \<Rightarrow> pcm | _ \<Rightarrow> []) evs) = decoded (pf_opus pf) d' ps"
    unfolding e1(4,6) by blast
  have "contents (en_audioBuffer e2) = take (rb_cap (en_audioBuffer e))
      (contents (en_audioBuffer e) @ decoded (pf_opus pf) d (p # ps))"
    unfolding e2(2) e1(7) take_take_append by (simp add: dec)
  with e1(1) e2(1,3) show ?case by (auto simp: dec)
qed

section \<open>Commands over the wire\<close>

lemma bytes_string_string [simp]: "bytes_string (string_bytes s) = s"
proof -
  have "char_of (unat (word_of_nat (of_char c) :: byte)) = c" for c
    by (simp add: unat_of_nat)
  then show ?thesis by (simp add: bytes_string_def string_bytes_def comp_def)
qed

lemma string_bytes_length [simp]: "length (string_bytes s) = length s"
  by (simp add: string_bytes_def)

datatype radio_command = Frequency int int | Mode int int | Power int

primrec perform :: "'d engine \<Rightarrow> radio_command \<Rightarrow> int \<times> engine_event list" where
  "perform e (Frequency vfo f) = engine_setFrequency vfo f e"
| "perform e (Mode vfo m) = engine_setMode vfo m e"
| "perform e (Power w) = engine_setPower w e"

primrec command_ok :: "radio_command \<Rightarrow> bool" where
  "command_ok (Frequency vfo f) \<longleftrightarrow> 0 \<le> f \<and> f < 10 ^ 16"
| "command_ok (Mode vfo m) \<longleftrightarrow> 0 \<le> m \<and> m \<le> 7"
| "command_ok (Power w) \<longleftrightarrow> 0 \<le> w \<and> w < 10 ^ 8"

text \<open>What the command does: the mode command has no VFO in it and always means VFO A.\<close>

primrec command_effect :: "radio_state \<Rightarrow> radio_command \<Rightarrow> radio_state" where
  "command_effect r (Frequency vfo f) = fst (setFrequency (if vfo = 0 then 0 else 1) f r)"
| "command_effect r (Mode vfo m) = fst (setMode 0 m r)"
| "command_effect r (Power w) = fst (setPower w r)"

text \<open>The bytes the commands hand to the socket.\<close>

definition sent_bytes :: "engine_event list \<Rightarrow> byte list" where
  "sent_bytes evs = concat (map (\<lambda>ev. case ev of SendFrame bs \<Rightarrow> bs | _ \<Rightarrow> []) evs)"

lemma perform_frame:
  assumes "tc_connected (en_tcp e)" "command_ok c"
  shows "\<exists>s. perform e c = (0, sendCat s) \<and> length s < MAX_FRAME_SIZE \<and> (\<forall>r. fst (parseCatCommand s r) = command_effect r c)"
proof (cases c)
  case (Frequency vfo f)
  then have f: "0 \<le> f" "f < 10 ^ 16" using assms(2) by simp_all
  note op = frequency_op [OF f]
  let ?s = "(if vfo = 0 then ''FA'' else ''FB'') @ fmt_0d 11 f @ '';''"
  have "length (fmt_0d 11 f) \<le> 16" by (rule length_fmt_le) (use f in simp_all)
  then have "length ?s < MAX_FRAME_SIZE" by (simp add: MAX_FRAME_SIZE_def)
  moreover have "perform e c = (0, sendCat ?s)"
    using assms(1) op(3,4) Frequency by (simp add: engine_setFrequency_def isConnected_def)
  moreover have "parseCatCommand ?s r = setFrequency (if vfo = 0 then 0 else 1) f r" for r
    using parse_reply [OF op(1), of r] parse_reply [OF op(2), of r] by simp
  ultimately show ?thesis using Frequency by (intro exI [of _ ?s]) simp
next
  case (Mode vfo m)
  then have m: "0 \<le> m" "m \<le> 7" using assms(2) by simp_all
  note op = mode_op [OF m]
  let ?s = "''MD'' @ to_string (k4Mode m) @ '';''"
  have "perform e c = (0, sendCat ?s)"
    using assms(1) op(2) m Mode by (simp add: engine_setMode_def isConnected_def k4Mode_def modeMap_def)
  moreover have "length ?s < MAX_FRAME_SIZE" using op(2) by (simp add: MAX_FRAME_SIZE_def)
  moreover have "parseCatCommand ?s r = setMode 0 m r" for r using parse_reply [OF op(1), of r] by simp
  ultimately show ?thesis using Mode by (intro exI [of _ ?s]) simp
next
  case (Power w)
  then have w: "0 \<le> w" "w < 10 ^ 8" using assms(2) by simp_all
  note op = power_op [OF w]
  let ?s = "''PC'' @ fmt_0d 3 w @ '';''"
  have "perform e c = (0, sendCat ?s)"
    using assms(1) op(2) Power by (simp add: engine_setPower_def isConnected_def)
  moreover have "length ?s < MAX_FRAME_SIZE" using op(2) by (simp add: MAX_FRAME_SIZE_def)
  moreover have "parseCatCommand ?s r = setPower w r" for r using parse_reply [OF op(1), of r] by simp
  ultimately show ?thesis using Power by (intro exI [of _ ?s]) simp
qed

text \<open>The commands as segments of a stream.\<close>

lemma commands_stream:
  assumes "tc_connected (en_tcp e)" "\<forall>c \<in> set cmds. command_ok c"
  shows "\<exists>ss. list_all segment_ok ss \<and> sent_bytes (concat (map (\<lambda>c. snd (perform e c)) cmds)) = stream_bytes ss \<and>
    (\<forall>r. foldl (\<lambda>r f. fst (parseCatCommand (bytes_string (snd f)) r)) r (map snd ss) = foldl command_effect r cmds)"
  using assms(2)
proof (induction cmds)
  case Nil
  show ?case by (rule exI [of _ "[]"]) (simp add: sent_bytes_def stream_bytes_def)
next
  case (Cons c cmds)
  then obtain ss where ss: "list_all segment_ok ss"
    "sent_bytes (concat (map (\<lambda>c. snd (perform e c)) cmds)) = stream_bytes ss"
    "\<forall>r. foldl (\<lambda>r f. fst (parseCatCommand (bytes_string (snd f)) r)) r (map snd ss) = foldl command_effect r cmds"
    by auto
  from perform_frame [OF assms(1), of c] Cons.prems obtain s where s:
    "perform e c = (0, sendCat s)" "length s < MAX_FRAME_SIZE" "\<forall>r. fst (parseCatCommand s r) = command_effect r c"
    by auto
  have "segment_ok ([], TYPE_CAT_COMMAND, string_bytes s)" using s(2) by (simp add: segment_ok_def fits_def)
  then show ?case
    by (intro exI [of _ "([], TYPE_CAT_COMMAND, string_bytes s) # ss"])
      (use ss s in \<open>simp add: sent_bytes_def sendCat_def stream_bytes_def
        segment_bytes_def encodeCat_def\<close>)
qed

section \<open>Properties\<close>

text \<open>
  C2. What comes from the radio drives the engine whatever its fragmentation: chunks of at most
  1 MB that carry encoded frames, with garbage between them, have the effect of handling exactly
  those frames in order, never wait, and leave the radio state that the CAT responses and spectrum
  frames give.
\<close>

theorem stream_drives_engine:
  assumes "en_cbLocks e = 0" and "m_frameCb (en_protocol e)"
    and "m_state (en_protocol e) = SEEKING_START" and "m_buffer (en_protocol e) = []"
    and "list_all segment_ok ss" and "no_marker g"
    and "concat cs = stream_bytes ss @ g" and "\<forall>c \<in> set cs. length c \<le> MAX_FRAME_SIZE"
  shows "(\<exists>p. data_callbacks pf cs e = put_protocol p (on_frames pf (map snd ss) e)) \<and>
         (\<exists>evs e'. data_callbacks pf cs e = (evs, Some e') \<and> en_radio e' = foldl frame_radio (en_radio e) (map snd ss))"
proof -
  have frames: "snd (feed_all feedData (en_protocol e) cs) = map snd ss"
    using processBuffer_stream [OF assms(5,6,2)] feedData_at_start [OF assms(3,4,8)] assms(7) by simp
  have "lockable pf e" using assms(1) by (simp add: lockable_def)
  from on_frames_radio [OF this, of "map snd ss"] obtain evs e' where
    "on_frames pf (map snd ss) e = (evs, Some e')" "en_radio e' = foldl frame_radio (en_radio e) (map snd ss)"
    by blast
  with data_callbacks_frames [of pf cs e] frames show ?thesis by auto
qed

theorem stream_drives_engine_witness:
  "\<exists>evs e'. data_callbacks posix [[0, 0xFE, 0xFD, 0xFC], [0xFB, 0, 0, 0, 7, 2, 0x50, 0x43, 0x30], [0x35, 0x30, 0x3B, 0, 0, 0, 0]]
      default_engine = (evs, Some e') \<and> getTx (en_radio e') = (getTx (en_radio default_engine))\<lparr>tx_power_watts := 50\<rparr>"
proof -
  let ?cs = "[[0, 0xFE, 0xFD, 0xFC], [0xFB, 0, 0, 0, 7, 2, 0x50, 0x43, 0x30], [0x35, 0x30, 0x3B, 0, 0, 0, 0 :: byte]]"
  let ?f = "(TYPE_CAT_RESPONSE, [0x50, 0x43, 0x30, 0x35, 0x30, 0x3B])"
  have seg: "list_all segment_ok [([0], ?f)]" "no_marker []" "concat ?cs = stream_bytes [([0], ?f)] @ []"
    by (simp_all add: segment_ok_def no_marker_def findStartMarker_def fits_def MAX_FRAME_SIZE_def
      stream_bytes_def segment_bytes_def encode_def START_MARKER_def END_MARKER_def length_bytes_def TYPE_CAT_RESPONSE_def)
  from stream_drives_engine [OF _ _ _ _ seg, of default_engine posix] obtain evs e' where
    "data_callbacks posix ?cs default_engine = (evs, Some e')"
    "en_radio e' = foldl frame_radio (en_radio default_engine) [?f]"
    by (auto simp: default_engine_def setFrameCallback_def Protocol_new_def MAX_FRAME_SIZE_def)
  moreover have "getTx (foldl frame_radio (setChangeCallback True RadioState_new) [?f]) =
      (getTx (setChangeCallback True RadioState_new))\<lparr>tx_power_watts := 50\<rparr>" by code_simp
  moreover have "en_radio default_engine = setChangeCallback True RadioState_new"
    by (simp add: default_engine_def engine_new_def)
  ultimately show ?thesis by metis
qed

text \<open>
  C27. Every packet the radio sends is decoded once and in order and the audio callback gets all
  samples, but the engine's audio buffer, which nothing in the engine reads, keeps only the first
  32768 of them, about 1.4 s at the decoder's 12 kHz, and loses everything that follows.
\<close>

theorem audio_buffer_fills_up:
  assumes "opus_contract (pf_opus pf)" and "en_cbLocks e = 0" and "en_opus e = Some d" and "[] \<notin> set ps"
    and "en_audioBuffer e = RingBuffer_new (48000 * 2 * 200 div 1000)" and "m_audioCb (en_callbacks e)"
  shows "\<exists>evs e'. on_frames pf (map (Pair TYPE_AUDIO_DATA) ps) e = (evs, Some e') \<and>
    concat (map (\<lambda>ev. case ev of AudioCb pcm _ _ \<Rightarrow> pcm | _ \<Rightarrow> []) evs) = decoded (pf_opus pf) d ps \<and>
    contents (en_audioBuffer e') = take 32768 (decoded (pf_opus pf) d ps)"
proof -
  have n: "unat (48000 * 2 * 200 div 1000 :: u64) = 19200" by simp
  have "ring_ok (en_audioBuffer e)" "contents (en_audioBuffer e) = []"
    using RingBuffer_new_ok [of "48000 * 2 * 200 div 1000"] n by (simp_all add: assms(5))
  moreover have "nextPowerOf2 (48000 * 2 * 200 div 1000) = 32768" by code_simp
  then have "rb_cap (en_audioBuffer e) = 32768" by (simp add: assms(5) rb_cap_def RingBuffer_new_def Let_def)
  moreover have "lockable pf e" using assms(2) by (simp add: lockable_def)
  ultimately show ?thesis using audio_frames [OF assms(1) _ assms(3) _ assms(4)] assms(6) by fastforce
qed

theorem audio_buffer_fills_up_witness:
  "\<exists>evs e'. on_frames relocking (map (Pair TYPE_AUDIO_DATA) [[1, 2], [3]]) listening_engine = (evs, Some e') \<and>
     contents (en_audioBuffer e') = [1, 0, 2, 0, 3, 0]"
proof -
  have len: "length (concat (map (\<lambda>b. [f b, 0]) p)) = length p * 2" for f :: "byte \<Rightarrow> sample" and p
    by (induction p) simp_all
  have "opus_contract (pf_opus relocking)" by (auto simp: opus_contract_def relocking_def len)
  moreover have "en_audioBuffer listening_engine = RingBuffer_new (48000 * 2 * 200 div 1000)"
    by (simp add: listening_engine_def default_engine_def engine_new_def)
  moreover have "decoded (pf_opus relocking) () [[1, 2], [3]] = [1, 0, 2, 0, 3, 0]" by (simp add: relocking_def)
  ultimately show ?thesis using audio_buffer_fills_up [of relocking listening_engine "()" "[[1, 2], [3]]"] by auto
qed

text \<open>
  C3. The frequency, mode and power commands arrive: a receiver that uses the code's own decoder and
  CAT parser, fed the bytes of any sequence of them in any fragmentation, has applied exactly
  those commands in order. The VFO given to a mode command is lost; it sets VFO A's mode.
\<close>

theorem commands_arrive:
  assumes "tc_connected (en_tcp e)" and "\<forall>c \<in> set cmds. command_ok c"
    and "concat cs = sent_bytes (concat (map (\<lambda>c. snd (perform e c)) cmds))" and "\<forall>c \<in> set cs. length c \<le> MAX_FRAME_SIZE"
  shows "foldl (\<lambda>r f. fst (parseCatCommand (bytes_string (snd f)) r)) r
           (snd (feed_all feedData (setFrameCallback True Protocol_new) cs)) = foldl command_effect r cmds \<and>
         (\<forall>c \<in> set cmds. fst (perform e c) = 0)"
proof -
  from commands_stream [OF assms(1,2)] obtain ss where ss: "list_all segment_ok ss"
    "sent_bytes (concat (map (\<lambda>c. snd (perform e c)) cmds)) = stream_bytes ss"
    "foldl (\<lambda>r f. fst (parseCatCommand (bytes_string (snd f)) r)) r (map snd ss) = foldl command_effect r cmds"
    by blast
  let ?p = "setFrameCallback True Protocol_new"
  have p: "m_state ?p = SEEKING_START" "m_buffer ?p = []" "m_frameCb ?p"
    by (simp_all add: setFrameCallback_def Protocol_new_def)
  have "snd (feed_all feedData ?p cs) = map snd ss"
    using processBuffer_stream [OF ss(1) no_marker_Nil p(3)] feedData_at_start [OF p(1,2) assms(4)] assms(3) ss(2) by simp
  moreover have "fst (perform e c) = 0" if "c \<in> set cmds" for c
    using perform_frame [OF assms(1), of c] assms(2) that by auto
  ultimately show ?thesis using ss(3) by simp
qed

theorem commands_arrive_witness:
  "foldl (\<lambda>r f. fst (parseCatCommand (bytes_string (snd f)) r)) RadioState_new
     (snd (feed_all feedData (setFrameCallback True Protocol_new)
        [sent_bytes (snd (perform (default_engine\<lparr>en_tcp := (engine_tcp default_engine_config)\<lparr>tc_connected := True\<rparr>\<rparr>) (Mode 1 6)))])) =
   fst (setMode 0 6 RadioState_new)"
proof -
  let ?e = "default_engine\<lparr>en_tcp := (engine_tcp default_engine_config)\<lparr>tc_connected := True\<rparr>\<rparr>"
  let ?b = "sent_bytes (snd (perform ?e (Mode 1 6)))"
  have b: "?b = encodeCat ''MD5;''"
    by (simp add: sent_bytes_def engine_setMode_def isConnected_def sendCat_def to_string_def, subst digits.simps)
      (simp add: digit_char_def)
  have "length ?b \<le> MAX_FRAME_SIZE"
    unfolding b by (simp add: encodeCat_def encode_def START_MARKER_def END_MARKER_def length_bytes_def MAX_FRAME_SIZE_def)
  then show ?thesis using commands_arrive [of ?e "[Mode 1 6]" "[?b]" RadioState_new] by simp
qed

text \<open>
  The band buttons: for every band the code knows, \<open>setBand\<close> sends the frequency command for a
  frequency inside that band, and for any other band number nothing but an error code.
\<close>

theorem band_button:
  assumes "tc_connected (en_tcp e)"
  shows "case getBandById i of
           None \<Rightarrow> engine_setBand i e = (QK4_ERR_INVALID_PARAM, [])
         | Some b \<Rightarrow> \<exists>f. engine_setBand i e = engine_setFrequency 0 f e \<and> freqToBand f = i \<and> command_ok (Frequency 0 f)"
proof (cases "getBandById i")
  case (Some b)
  have all: "\<forall>b \<in> set s_bands. let f = tdiv (lower_hz b + upper_hz b) 2 in freqToBand f = band_id b \<and> command_ok (Frequency 0 f)"
    by code_simp
  have "b \<in> set s_bands" "band_id b = i" using Some by (auto simp: getBandById_def find_Some_iff)
  with all Some assms show ?thesis by (auto simp: engine_setBand_def isConnected_def Let_def)
qed (use assms in \<open>simp add: engine_setBand_def isConnected_def\<close>)

theorem band_button_witness:
  "\<exists>f. engine_setBand 4 (default_engine\<lparr>en_tcp := (engine_tcp default_engine_config)\<lparr>tc_connected := True\<rparr>\<rparr>) =
         engine_setFrequency 0 f (default_engine\<lparr>en_tcp := (engine_tcp default_engine_config)\<lparr>tc_connected := True\<rparr>\<rparr>) \<and> freqToBand f = 4"
proof -
  let ?e = "default_engine\<lparr>en_tcp := (engine_tcp default_engine_config)\<lparr>tc_connected := True\<rparr>\<rparr>"
  obtain b where b: "getBandById 4 = Some b" by (simp add: getBandById_def s_bands_def band_def)
  have "tc_connected (en_tcp ?e)" by simp
  from band_button [OF this, of 4] show ?thesis unfolding b by auto
qed

end
