(* ===== verification/EngineConnection.thy ===== *)
theory EngineConnection
  imports Engine
begin

text \<open>
  The engine's connection (\<open>core/src/engine/qk4_engine.cpp\<close>): connecting, disconnecting, losing the
  connection and the detached threads that reconnect, as interleaved steps.
\<close>

section \<open>Connecting: lemmas\<close>

lemma tcp_effects_append: "tcp_effects pf (evs @ evs') = (\<lambda>e. and_then (tcp_effects pf evs e) (tcp_effects pf evs'))"
  by (induction evs) (simp_all add: and_then_assoc)

lemma tcp_effects_os: "tcp_effects pf (map Os evs) e = (map System evs, Some e)"
  by (induction evs) (simp_all add: emit_def)

text \<open>The events of the TCP client's operations.\<close>

lemma tcp_try_os: "snd (tcp_try as) = map Os (os_events (snd (tcp_try as)))"
  by (induction as) (simp_all add: split_beta)

lemma connectPlain_os: "connectPlain env s = (s', r, evs) \<Longrightarrow> evs = map Os (os_events evs)"
  using tcp_try_os by (auto simp: connectPlain_def split_beta split: option.splits if_splits)

lemma closeSocket_os: "snd (closeSocket s) = map Os (os_events (snd (closeSocket s)))"
  by (simp add: closeSocket_def)

lemma connectTls_os: "connectTls env s = (s', r, evs) \<Longrightarrow> evs = map Os (os_events evs)"
proof -
  assume c: "connectTls env s = (s', r, evs)"
  obtain t q evs1 where p: "connectPlain env s = (t, q, evs1)" by (cases "connectPlain env s")
  from connectPlain_os [OF p] closeSocket_os show ?thesis
    using c by (auto simp: connectTls_def p Let_def tls_fail_def split_beta split: if_splits)
qed

lemma tcp_connect_os:
  "tcp_connect env psk use_tls s = (s', r, evs) \<Longrightarrow> \<not> tc_connected s \<Longrightarrow> evs = map Os (os_events evs)"
  by (auto simp: tcp_connect_def Let_def split: prod.splits if_splits dest: connectTls_os connectPlain_os)

lemma effects_block:
  assumes "\<not> pf_relock pf" "rs_changeCb (en_radio e)" "en_cbLocks e = 0" "\<forall>bs. DataCb bs \<notin> set evs"
  shows "snd (tcp_effects pf evs e) = None \<or> snd (tcp_effects pf evs e) = Some e"
  using assms
proof (induction evs)
  case (Cons ev evs)
  then show ?case
    by (cases ev) (auto simp: onDisconnected_def notifyConnectionState_blocks emit_def)
qed (simp add: emit_def)

lemma stopReadLoop_data: "DataCb bs \<notin> set (snd (stopReadLoop s))"
  by (simp add: stopReadLoop_def reader_ends_def Let_def)

lemma tcp_disconnect_data: "DataCb bs \<notin> set (snd (tcp_disconnect s))"
  using stopReadLoop_data by (simp add: tcp_disconnect_def closeSocket_def split_beta)

lemma close_blocks:
  assumes "\<not> pf_relock pf" "rs_changeCb (en_radio e)" "en_cbLocks e = 0"
  shows "snd (close_connection pf e) = None \<or>
    (\<exists>e'. snd (close_connection pf e) = Some e' \<and> rs_changeCb (en_radio e') \<and> en_cbLocks e' = 0)"
proof -
  obtain t evs where s: "stopReadLoop (en_tcp e) = (t, evs)" by (cases "stopReadLoop (en_tcp e)")
  let ?e = "e\<lparr>en_tcp := t\<rparr>"
  have "\<forall>bs. DataCb bs \<notin> set evs" using stopReadLoop_data [of _ "en_tcp e"] s by simp
  with effects_block [of pf ?e evs] assms
  consider evs1 where "tcp_effects pf evs ?e = (evs1, None)" | evs1 where "tcp_effects pf evs ?e = (evs1, Some ?e)"
    by (cases "tcp_effects pf evs ?e") auto
  then show ?thesis
  proof cases
    case 1
    then show ?thesis by (simp add: close_connection_def s)
  next
    case 2
    let ?d = "tcp_disconnect t"
    from effects_block [of pf "?e\<lparr>en_tcp := fst ?d\<rparr>" "snd ?d"] tcp_disconnect_data assms 2 show ?thesis
      by (auto simp: close_connection_def s split_beta)
  qed
qed

section \<open>Reconnection\<close>

text \<open>Every address refuses, or there is none.\<close>

definition env_fails :: "connect_env \<Rightarrow> bool" where
  "env_fails env = (case env_addrs env of None \<Rightarrow> True | Some as \<Rightarrow> fst (tcp_try as) < 0)"

lemma tcp_connect_fails:
  assumes "env_fails env" "\<not> tc_connected s"
  shows "\<exists>evs. tcp_connect env psk use_tls s = (s\<lparr>tc_useTls := use_tls\<rparr>, -3, map Os evs)"
proof -
  obtain s' r evs where c: "tcp_connect env psk use_tls s = (s', r, evs)" by (cases "tcp_connect env psk use_tls s")
  have "s' = s\<lparr>tc_useTls := use_tls\<rparr> \<and> r = -3"
    using c assms by (auto simp: tcp_connect_def connectTls_def connectPlain_def env_fails_def Let_def
      split: prod.splits option.splits if_splits)
  with c tcp_connect_os [OF c assms(2)] show ?thesis by metis
qed

primrec is_sleep :: "engine_event \<Rightarrow> bool" where
  "is_sleep (Sleep d) = True" | "is_sleep (SendFrame bs) = False" | "is_sleep (System os) = False"
| "is_sleep (StateCb k) = False" | "is_sleep (SpectrumCb b n v) = False" | "is_sleep (AudioCb p n r) = False"
| "is_sleep (ErrorCb c m) = False" | "is_sleep (ConnectionCb s n) = False" | "is_sleep StartRetry = False"

lemma filter_sleep [simp]: "filter is_sleep (map System evs) = []" "filter is_sleep (connection_events st n e) = []"
  by (induction evs) (simp_all add: connection_events_def)

text \<open>One reconnection thread is running and there is no connection.\<close>

definition retrying :: "'d engine \<Rightarrow> bool" where
  "retrying e \<longleftrightarrow> en_running e \<and> \<not> tc_connected (en_tcp e) \<and> m_reconnecting (en_reconnect e) \<and>
     en_retryReady e = 1 \<and> en_retrySleeping e = 0 \<and> en_retryResults e = []"

definition gave_up :: "'d engine \<Rightarrow> bool" where
  "gave_up e \<longleftrightarrow> en_retryReady e = 0 \<and> en_retrySleeping e = 0 \<and> en_retryResults e = [] \<and> connectionState e = QK4_CONN_DISCONNECTED \<and>
     conn_state (getConnection (en_radio e)) = QK4_CONN_DISCONNECTED"

definition retry_round :: "'d platform \<Rightarrow> connect_env \<Rightarrow> 'd engine \<Rightarrow> 'd engine outcome" where
  "retry_round pf env e = and_then (and_then (retry_head pf e) (retry_wake pf env)) (retry_commit pf)"

primrec retry_rounds :: "'d platform \<Rightarrow> connect_env list \<Rightarrow> 'd engine \<Rightarrow> 'd engine outcome" where
  "retry_rounds pf [] e = emit [] e"
| "retry_rounds pf (env # envs) e = and_then (retry_round pf env e) (retry_rounds pf envs)"

lemma retry_rounds_stopped: "en_retryReady e = 0 \<Longrightarrow> en_retrySleeping e = 0 \<Longrightarrow> en_retryResults e = [] \<Longrightarrow> retry_rounds pf envs e = ([], Some e)"
  by (induction envs) (simp_all add: emit_def retry_round_def retry_head_def retry_wake_def retry_commit_def)

lemma onAttemptFailed_reconnecting: "rp_onAttemptFailed p = Some (p', again) \<Longrightarrow> m_reconnecting p' = m_reconnecting p"
  by (auto simp: rp_onAttemptFailed_def Let_def split: option.splits)

lemma failed_round:
  assumes "pf_relock pf" "retrying e" "env_fails env" "\<not> isExhausted (en_reconnect e)"
    and "getNextDelayMs (en_reconnect e) = Some d" "rp_onAttemptFailed (en_reconnect e) = Some (p, again)"
  shows "\<exists>evs e'. retry_round pf env e = (evs, Some e') \<and> filter is_sleep evs = [Sleep d] \<and> en_reconnect e' = p \<and>
    (if again then retrying e' else gave_up e')"
proof -
  obtain oevs where c: "tcp_connect env (en_lastPsk e) (en_lastUseTls e) (en_tcp e) =
      ((en_tcp e)\<lparr>tc_useTls := en_lastUseTls e\<rparr>, -3, map Os oevs)"
    using tcp_connect_fails [OF assms(3)] assms(2) unfolding retrying_def by blast
  have free: "lockable pf e'" for e' using assms(1) by (simp add: lockable_def)
  have errs: "filter is_sleep (if b then [ErrorCb code msg] else []) = []" for b code msg by simp
  note r = onAttemptFailed_reconnecting [OF assms(6)]
  show ?thesis
    using assms(2,4,5,6) r
    by (cases again)
      (simp_all add: retry_round_def retry_head_def retry_wake_def retry_commit_def retrying_def gave_up_def isReconnecting_def Let_def
        emit_def c tcp_effects_os retry_failed_def notifyConnectionState_relock [OF assms(1)] notifyError_free [OF free]
        connection_radio_def errs connectionState_def getConnection_def setConnectionState_def)
qed

lemma failed_rounds:
  assumes "pf_relock pf" "retrying e" "\<forall>env \<in> set envs. env_fails env" "policy_ok (en_reconnect e)"
    and "0 < attempts_left (en_reconnect e)"
    and "retry_failures getNextDelayMs rp_onAttemptFailed (length envs) (en_reconnect e) = Some (p, ds, False)"
  shows "\<exists>evs e'. retry_rounds pf envs e = (evs, Some e') \<and> filter is_sleep evs = map Sleep ds \<and>
    en_reconnect e' = p \<and> gave_up e'"
  using assms(2-)
proof (induction envs arbitrary: e ds)
  case (Cons env envs)
  let ?p = "en_reconnect e"
  obtain d where d: "getNextDelayMs ?p = Some d" using backoff.delay_defined [OF Cons.prems(3,4)] by blast
  obtain q where q: "rp_onAttemptFailed ?p = Some (q, 0 < attempts_left q)" "policy_ok q"
    using backoff.fail_counts [OF Cons.prems(3,4)] by blast
  have "\<not> isExhausted ?p" using Cons.prems(4) by (simp add: isExhausted_left)
  moreover have "env_fails env" using Cons.prems(2) by simp
  ultimately obtain evs e1 where e1:
    "retry_round pf env e = (evs, Some e1)" "filter is_sleep evs = [Sleep d]" "en_reconnect e1 = q"
    "if 0 < attempts_left q then retrying e1 else gave_up e1"
    using failed_round [OF assms(1) Cons.prems(1) _ _ d q(1)] by blast
  show ?case
  proof (cases "0 < attempts_left q")
    case True
    with Cons.prems(5) d q(1) obtain ds' where ds: "ds = d # ds'"
      "retry_failures getNextDelayMs rp_onAttemptFailed (length envs) q = Some (p, ds', False)"
      by (auto split: option.splits prod.splits)
    have "\<exists>evs e'. retry_rounds pf envs e1 = (evs, Some e') \<and> filter is_sleep evs = map Sleep ds' \<and>
        en_reconnect e' = p \<and> gave_up e'"
      by (rule Cons.IH) (use True e1 q(2) ds Cons.prems(2) in simp_all)
    with e1(1,2) ds(1) show ?thesis by auto
  next
    case False
    with Cons.prems(5) d q(1) have "ds = [d]" "p = q" by auto
    moreover have "retry_rounds pf envs e1 = ([], Some e1)"
      using False e1(4) by (intro retry_rounds_stopped) (simp_all add: gave_up_def)
    ultimately show ?thesis using e1 False by auto
  qed
qed simp

text \<open>A working connection, with no reconnection going on.\<close>

definition established :: "'d engine \<Rightarrow> bool" where
  "established e \<longleftrightarrow> en_running e \<and> en_connState e = QK4_CONN_CONNECTED \<and> tc_connected (en_tcp e) \<and>
     tc_readLoopRunning (en_tcp e) \<and> tc_thread (en_tcp e) \<and> tc_reader (en_tcp e) \<and> 0 \<le> tc_fd (en_tcp e) \<and>
     tc_disconnectCb (en_tcp e) \<and>
     \<not> m_reconnecting (en_reconnect e) \<and> en_retryReady e = 0 \<and> en_retrySleeping e = 0 \<and> en_retryResults e = [] \<and>
     policy_ok (en_reconnect e) \<and> 0 < max_attempts (rp_config (en_reconnect e))"

definition lost_tcp :: "tcp_client \<Rightarrow> tcp_client" where
  "lost_tcp s = s\<lparr>tc_connected := False, tc_reader := False\<rparr>"

lemma connection_lost:
  assumes "pf_relock pf" "established e"
  shows "\<exists>evs e'. reader_step pf Closed e = (evs, Some e') \<and> filter is_sleep evs = [] \<and> retrying e' \<and>
    en_tcp e' = lost_tcp (en_tcp e) \<and> en_reconnect e' = rp_onDisconnected (en_reconnect e) \<and>
    en_lastPsk e' = en_lastPsk e \<and> en_lastUseTls e' = en_lastUseTls e"
  using assms(2)
  by (simp add: established_def reader_step_def reader_ends_def onDisconnected_def lost_tcp_def retrying_def
      notifyConnectionState_relock [OF assms(1)] connection_radio_def emit_def rp_onDisconnected_def)

lemma lost_attempts:
  "established e \<Longrightarrow> attempts_left (rp_onDisconnected (en_reconnect e)) = nat (max_attempts (rp_config (en_reconnect e)))"
  by (simp add: established_def attempts_left_def rp_onDisconnected_def)

lemma lost_policy: "established e \<Longrightarrow> policy_ok (rp_onDisconnected (en_reconnect e))"
  by (simp add: established_def policy_ok_onDisconnected)

section \<open>Properties\<close>

text \<open>
  On a platform where a thread cannot lock a \<open>std::mutex\<close> it already holds, \<open>connect\<close> never
  returns: it waits for \<open>m_cbMutex\<close>, which it holds, before it calls the TCP client. The handling of
  a lost connection and \<open>disconnect\<close> never return either.
\<close>

theorem connect_never_returns:
  assumes "\<not> pf_relock pf" and "rs_changeCb (en_radio e)" and "en_cbLocks e = 0"
  shows "engine_connect pf env host port psk use_tls e =
           (if m_connectionCb (en_callbacks e) then [ConnectionCb QK4_CONN_CONNECTING 0] else [], None) \<and>
         snd (onDisconnected pf e) = None \<and> snd (engine_disconnect pf e) = None"
proof (intro conjI)
  show "engine_connect pf env host port psk use_tls e =
      (if m_connectionCb (en_callbacks e) then [ConnectionCb QK4_CONN_CONNECTING 0] else [], None)"
    using assms by (simp add: engine_connect_def notifyConnectionState_blocks)
  show "snd (onDisconnected pf e) = None"
    using assms by (simp add: onDisconnected_def notifyConnectionState_blocks)
  let ?e = "e\<lparr>en_reconnect := rp_reset (en_reconnect e), en_running := False\<rparr>"
  show "snd (engine_disconnect pf e) = None"
    using close_blocks [of pf ?e] assms
    by (cases "close_connection pf ?e") (auto simp: engine_disconnect_def notifyConnectionState_blocks)
qed


theorem connect_never_returns_witness:
  "engine_connect posix radio_env ''k4'' 9205 [] False default_engine = ([], None)"
  using connect_never_returns [of posix default_engine radio_env "''k4''" 9205 "[]" False]
  by (simp add: posix_def default_engine_def, simp add: engine_new_def)





definition no_route :: connect_env where
  "no_route = \<lparr>env_addrs = None, env_ssl_ctx = True, env_ssl_new = True, env_ssl_connect = 1\<rparr>"

definition working_engine :: "unit engine" where
  "working_engine = listening_engine\<lparr>en_tcp := (engine_tcp default_engine_config)\<lparr>tc_fd := 3, tc_connected := True, tc_readLoopRunning := True,
     tc_thread := True, tc_reader := True\<rparr>, en_running := True, en_connState := QK4_CONN_CONNECTED\<rparr>"

lemma working_established:
  "established working_engine" "max_attempts (rp_config (en_reconnect working_engine)) = 10"
  "m_connectionCb (en_callbacks working_engine)"
  by (simp_all add: working_engine_def listening_engine_def default_engine_def default_engine_config_def engine_new_def established_def
      ReconnectPolicy_new_def policy_ok_def config_ok_def in_i32_def)




section \<open>A stale reconnection thread\<close>

definition env_connects :: "connect_env \<Rightarrow> bool" where
  "env_connects env \<longleftrightarrow> (case env_addrs env of None \<Rightarrow> False | Some as \<Rightarrow> 0 \<le> fst (tcp_try as)) \<and>
     env_ssl_ctx env \<and> env_ssl_new env \<and> env_ssl_connect env = 1"

lemma tcp_connect_works:
  assumes "env_connects env" "\<not> tc_connected s"
  shows "\<exists>t oevs. tcp_connect env psk use_tls s = (t, 0, map Os oevs) \<and> tc_connected t \<and> 0 \<le> tc_fd t \<and>
    tc_readLoopRunning t = tc_readLoopRunning s \<and> tc_reader t = tc_reader s"
proof -
  obtain t r evs where c: "tcp_connect env psk use_tls s = (t, r, evs)" by (cases "tcp_connect env psk use_tls s")
  obtain as where as: "env_addrs env = Some as" "0 \<le> fst (tcp_try as)"
    using assms(1) by (auto simp: env_connects_def split: option.splits)
  have r: "r = 0" using c as assms
    by (auto simp: tcp_connect_def connectTls_def connectPlain_def env_connects_def Let_def split: prod.splits if_splits)
  note s = tcp_connect_success [OF c [unfolded r] assms(2) as(1)]
  show ?thesis using c s as(2) r tcp_connect_os [OF c assms(2)] by (intro exI [of _ t] exI [of _ "os_events evs"]) simp
qed

lemma tcp_connect_again:
  assumes "tc_connected s" "tcp_disconnect s = (s1, evs1)" "\<not> tc_connected s1"
    and "tcp_connect env psk use_tls s1 = (t, r, evs)"
  shows "tcp_connect env psk use_tls s = (t, r, evs1 @ evs)"
proof -
  obtain u q us where "(if use_tls \<and> psk \<noteq> [] then connectTls env (s1\<lparr>tc_useTls := use_tls\<rparr>)
      else connectPlain env (s1\<lparr>tc_useTls := use_tls\<rparr>)) = (u, q, us)" by (rule prod_cases3)
  with assms show ?thesis by (auto simp add: tcp_connect_def Let_def)
qed

text \<open>Connecting while connected first tears the connection down, reader and all.\<close>

lemma teardown:
  assumes "env_connects env" "tc_connected s" "tc_thread s" "tc_reader s" "0 \<le> tc_fd s" "tc_disconnectCb s"
  shows "\<exists>t oevs. tcp_connect env psk use_tls s =
      (t, 0, [Os (Shutdown (tc_fd s)), DisconnectCb, Os (Close (tc_fd s))] @ map Os oevs) \<and>
    tc_connected t \<and> 0 \<le> tc_fd t \<and> \<not> tc_readLoopRunning t \<and> \<not> tc_reader t \<and> tc_disconnectCb t"
proof -
  obtain s1 where d: "tcp_disconnect s = (s1, [Os (Shutdown (tc_fd s)), DisconnectCb, Os (Close (tc_fd s))])"
    and s1: "\<not> tc_connected s1" "\<not> tc_readLoopRunning s1" "\<not> tc_reader s1"
    using assms by (simp add: tcp_disconnect_def stopReadLoop_def reader_ends_def closeSocket_def Let_def)
  from tcp_connect_works [OF assms(1) s1(1)] obtain t oevs where
    t: "tcp_connect env psk use_tls s1 = (t, 0, map Os oevs)" "tc_connected t" "0 \<le> tc_fd t"
      "tc_readLoopRunning t = tc_readLoopRunning s1" "tc_reader t = tc_reader s1" by blast
  have "tcp_connect env psk use_tls s = (t, 0, [Os (Shutdown (tc_fd s)), DisconnectCb, Os (Close (tc_fd s))] @ map Os oevs)"
    by (rule tcp_connect_again [OF assms(2) d s1(1) t(1)])
  moreover from this have "tc_disconnectCb t" using tcp_connect_callbacks assms(6) by blast
  ultimately show ?thesis using t s1 by auto
qed

text \<open>A working connection, and one reconnection thread from an earlier one still in its sleep.\<close>

definition haunted :: "'d engine \<Rightarrow> bool" where
  "haunted e \<longleftrightarrow> en_running e \<and> en_connState e = QK4_CONN_CONNECTED \<and> tc_connected (en_tcp e) \<and>
     tc_readLoopRunning (en_tcp e) \<and> tc_thread (en_tcp e) \<and> tc_reader (en_tcp e) \<and> 0 \<le> tc_fd (en_tcp e) \<and>
     tc_disconnectCb (en_tcp e) \<and>
     \<not> m_reconnecting (en_reconnect e) \<and> en_retryReady e = 0 \<and> en_retrySleeping e = 1 \<and> en_retryResults e = [] \<and>
     m_connectionCb (en_callbacks e) \<and> 0 < max_attempts (rp_config (en_reconnect e))"

text \<open>The thread wakes, another that its teardown has started goes to sleep, the first one finishes.\<close>

definition stale_cycle :: "'d platform \<Rightarrow> connect_env \<Rightarrow> 'd engine \<Rightarrow> 'd engine outcome" where
  "stale_cycle pf env e = and_then (and_then (retry_wake pf env e) (retry_head pf)) (retry_commit pf)"

primrec stale_cycles :: "'d platform \<Rightarrow> connect_env list \<Rightarrow> 'd engine \<Rightarrow> 'd engine outcome" where
  "stale_cycles pf [] e = emit [] e"
| "stale_cycles pf (env # envs) e = and_then (stale_cycle pf env e) (stale_cycles pf envs)"

definition lost_again :: "engine_event list \<Rightarrow> nat" where
  "lost_again evs = length (filter (\<lambda>ev. ev = ConnectionCb QK4_CONN_RECONNECTING 0) evs)"

lemma lost_again_simps [simp]:
  "lost_again [] = 0" "lost_again (xs @ ys) = lost_again xs + lost_again ys" "lost_again (map System oevs) = 0"
  "lost_again (ev # xs) = (if ev = ConnectionCb QK4_CONN_RECONNECTING 0 then 1 else 0) + lost_again xs"
  by (simp_all add: lost_again_def)

lemma lost_again_connection:
  "m_connectionCb (en_callbacks e) \<Longrightarrow> lost_again (connection_events st 0 e) = (if st = QK4_CONN_RECONNECTING then 1 else 0)"
  by (simp add: connection_events_def)

lemma haunted_cycle:
  assumes "pf_relock pf" "haunted e" "env_connects env"
  shows "\<exists>evs e'. stale_cycle pf env e = (evs, Some e') \<and> haunted e' \<and> lost_again evs = 1 \<and>
    filter is_sleep evs = [Sleep (initial_delay_ms (rp_config (en_reconnect e)))] \<and>
    rp_config (en_reconnect e') = rp_config (en_reconnect e)"
proof -
  have h: "tc_connected (en_tcp e)" "tc_thread (en_tcp e)" "tc_reader (en_tcp e)" "0 \<le> tc_fd (en_tcp e)"
    "tc_disconnectCb (en_tcp e)" using assms(2) by (simp_all add: haunted_def)
  obtain t oevs where t: "tcp_connect env (en_lastPsk e) (en_lastUseTls e) (en_tcp e) =
      (t, 0, [Os (Shutdown (tc_fd (en_tcp e))), DisconnectCb, Os (Close (tc_fd (en_tcp e)))] @ map Os oevs)"
    "tc_connected t" "0 \<le> tc_fd t" "\<not> tc_readLoopRunning t" "\<not> tc_reader t" "tc_disconnectCb t"
    using teardown [OF assms(3) h] by blast
  show ?thesis
    using assms(2) t
    by (simp add: stale_cycle_def retry_wake_def retry_head_def retry_commit_def haunted_def Let_def emit_def
        tcp_effects_os onDisconnected_def notifyConnectionState_relock [OF assms(1)] connection_radio_def
        rp_onDisconnected_def rp_onConnected_def rp_reset_def isReconnecting_def isExhausted_def getNextDelayMs_def
        startReadLoop_def lost_again_connection)
qed

lemma haunted_cycles:
  assumes "pf_relock pf" "haunted e" "\<forall>env \<in> set envs. env_connects env"
  shows "\<exists>evs e'. stale_cycles pf envs e = (evs, Some e') \<and> haunted e' \<and> lost_again evs = length envs \<and>
    filter is_sleep evs = replicate (length envs) (Sleep (initial_delay_ms (rp_config (en_reconnect e))))"
  using assms(2-)
proof (induction envs arbitrary: e)
  case (Cons env envs)
  have "env_connects env" using Cons.prems(2) by simp
  then obtain evs e1 where e1: "stale_cycle pf env e = (evs, Some e1)" "haunted e1" "lost_again evs = 1"
    "filter is_sleep evs = [Sleep (initial_delay_ms (rp_config (en_reconnect e)))]"
    "rp_config (en_reconnect e1) = rp_config (en_reconnect e)"
    using haunted_cycle [OF assms(1) Cons.prems(1)] by blast
  obtain evs' e2 where "stale_cycles pf envs e1 = (evs', Some e2)" "haunted e2" "lost_again evs' = length envs"
    "filter is_sleep evs' = replicate (length envs) (Sleep (initial_delay_ms (rp_config (en_reconnect e))))"
    using Cons.IH [OF e1(2)] Cons.prems(2) e1(5) by auto
  with e1 show ?case by simp
qed (simp add: emit_def)

text \<open>The user disconnects and, within the first delay of the thread this starts, connects again.\<close>

definition quick_reconnect ::
  "'d platform \<Rightarrow> connect_env \<Rightarrow> string \<Rightarrow> int \<Rightarrow> byte list \<Rightarrow> bool \<Rightarrow> 'd engine \<Rightarrow> ('d engine \<times> int) outcome" where
  "quick_reconnect pf env host port psk use_tls e =
     and_then (and_then (engine_disconnect pf e) (retry_head pf)) (engine_connect pf env host port psk use_tls)"

lemma quick_reconnect_haunts:
  assumes "pf_relock pf" "established e" "env_connects env" "m_connectionCb (en_callbacks e)"
  shows "\<exists>evs e'. quick_reconnect pf env host port psk use_tls e = (evs, Some (e', 0)) \<and> haunted e' \<and>
    rp_config (en_reconnect e') = rp_config (en_reconnect e)"
proof -
  let ?s = "(en_tcp e)\<lparr>tc_readLoopRunning := False, tc_connected := False, tc_reader := False, tc_thread := False\<rparr>"
  have stop: "stopReadLoop (en_tcp e) = (?s, [Os (Shutdown (tc_fd (en_tcp e))), DisconnectCb])"
    using assms(2) by (simp add: established_def stopReadLoop_def reader_ends_def Let_def)
  let ?d = "?s\<lparr>tc_ssl := False, tc_sslCtx := False, tc_fd := -1\<rparr>"
  have disc: "tcp_disconnect ?s = (?d, [Os (Close (tc_fd (en_tcp e)))])"
    using assms(2) by (simp add: established_def tcp_disconnect_def stopReadLoop_def closeSocket_def Let_def)
  obtain t oevs where t: "tcp_connect env psk use_tls ?d = (t, 0, map Os oevs)" "tc_connected t" "0 \<le> tc_fd t"
    "tc_readLoopRunning t = tc_readLoopRunning ?d" "tc_reader t = tc_reader ?d"
    using tcp_connect_works [OF assms(3), of ?d psk use_tls] by auto
  have cb: "tc_disconnectCb t" using tcp_connect_callbacks [OF t(1)] assms(2) by (simp add: established_def)
  have "\<exists>evs e1. and_then (engine_disconnect pf e) (retry_head pf) = (evs, Some e1) \<and> en_tcp e1 = ?d \<and>
      en_retryReady e1 = 0 \<and> en_retrySleeping e1 = 1 \<and> en_retryResults e1 = [] \<and>
      m_connectionCb (en_callbacks e1) \<and> rp_config (en_reconnect e1) = rp_config (en_reconnect e)"
    using assms(2,4) stop disc
    by (simp add: engine_disconnect_def close_connection_def established_def retry_head_def Let_def emit_def
        onDisconnected_def notifyConnectionState_relock [OF assms(1)] connection_radio_def
        rp_onDisconnected_def rp_reset_def isReconnecting_def isExhausted_def getNextDelayMs_def)
  then obtain evs e1 where e1: "and_then (engine_disconnect pf e) (retry_head pf) = (evs, Some e1)" "en_tcp e1 = ?d"
    "en_retryReady e1 = 0" "en_retrySleeping e1 = 1" "en_retryResults e1 = []" "m_connectionCb (en_callbacks e1)"
    "rp_config (en_reconnect e1) = rp_config (en_reconnect e)" by blast
  have "0 < max_attempts (rp_config (en_reconnect e))" using assms(2) by (simp add: established_def)
  with e1 t cb show ?thesis
    by (simp add: quick_reconnect_def engine_connect_def Let_def emit_def tcp_effects_os haunted_def
        notifyConnectionState_relock [OF assms(1)] connection_radio_def rp_reset_def startReadLoop_def)
qed



end
