(* ===== verification/EngineInvariant.thy ===== *)
theory EngineInvariant
  imports EngineConnection EngineStream
begin

text \<open>
  A logic of outcomes: what every operation of the engine ensures of the state it returns and of the
  events on the way, whether or not it returns. With it the invariant of the engine that all its
  operations keep, the steps of its threads included.
\<close>

section \<open>Outcomes\<close>

definition ensures :: "(engine_event \<Rightarrow> bool) \<Rightarrow> ('a \<Rightarrow> bool) \<Rightarrow> 'a outcome \<Rightarrow> bool" where
  "ensures E P r \<longleftrightarrow> (\<forall>ev \<in> set (fst r). E ev) \<and> (\<forall>x. snd r = Some x \<longrightarrow> P x)"

named_theorems ensures_rules

lemma ensures_emit [ensures_rules]: "(\<And>ev. ev \<in> set evs \<Longrightarrow> E ev) \<Longrightarrow> P x \<Longrightarrow> ensures E P (emit evs x)"
  by (simp add: ensures_def emit_def)

lemma ensures_never [ensures_rules]: "ensures E P never"
  by (simp add: ensures_def never_def)

lemma ensures_and_then:
  "ensures E P r \<Longrightarrow> (\<And>x. P x \<Longrightarrow> ensures E Q (f x)) \<Longrightarrow> ensures E Q (and_then r f)"
  by (cases r; cases "snd r") (auto simp: ensures_def)

lemma ensures_weaken: "ensures E P r \<Longrightarrow> (\<And>x. P x \<Longrightarrow> Q x) \<Longrightarrow> ensures E Q r"
  by (simp add: ensures_def)

lemma ensures_if [ensures_rules]:
  "(b \<Longrightarrow> ensures E P r) \<Longrightarrow> (\<not> b \<Longrightarrow> ensures E P s) \<Longrightarrow> ensures E P (if b then r else s)"
  by simp

section \<open>Operations of the radio state\<close>

lemma radio_step_callback: "rs_changeCb (fst (radio_step oper s)) = rs_changeCb s"
proof (cases "\<exists>c. oper = ParseCat c")
  case True
  then obtain c where c: "oper = ParseCat c" by blast
  have plain: "rs_changeCb (fst (radio_step o' s)) = rs_changeCb s" if "plain_setter o'" for o'
    using that by (cases o') (simp_all add: plain_setter_def setter_defs)
  show ?thesis
    by (cases "cat_op (take 2 c) (cat_value c)") (auto simp: c parse_cat_op dest!: cat_op_plain plain)
next
  case False
  then show ?thesis
    by (cases oper) (simp_all add: setter_defs
      setKpaState_def setConnectionState_def setCatState_def setDxClusterState_def)
qed

text \<open>
  The operations the engine uses. It sets a mode only from a CAT response, which names no VFO, and no
  tuning rate or subreceiver; so these parts of the state stay as they were made.
\<close>

definition engine_op :: "radio_op \<Rightarrow> bool" where
  "engine_op oper = (case oper of SetMode vfo m \<Rightarrow> vfo = 0 \<and> m \<in> {0..7}
     | SetTuningRate vfo rate \<Rightarrow> False | SetSubOn on \<Rightarrow> False | _ \<Rightarrow> True)"

definition display_ok :: "radio_data \<Rightarrow> bool" where
  "display_ok d \<longleftrightarrow> vfo_mode (fst (rd_vfo d)) \<in> {0..7} \<and> vfo_mode (snd (rd_vfo d)) = 2 \<and>
     vfo_tuning_rate (fst (rd_vfo d)) = 100 \<and> vfo_tuning_rate (snd (rd_vfo d)) = 100 \<and> \<not> vfo_sub_on (snd (rd_vfo d))"

lemma display_ok_new: "display_ok (rs_data RadioState_new)"
  by (simp add: display_ok_def RadioState_new_def VfoState_init_def)

lemma cat_op_engine: "cat_op p v = Some oper \<Longrightarrow> engine_op oper"
  by (auto simp: cat_op_def engine_op_def Let_def k4_mode_def split: if_splits bind_splits)

lemma display_ok_plain:
  assumes "display_ok (rs_data s)" "engine_op oper" "\<forall>c. oper \<noteq> ParseCat c"
  shows "display_ok (rs_data (fst (radio_step oper s)))"
  using assms
  by (cases oper) (simp_all add: setter_defs display_ok_def engine_op_def arr2_get_def arr2_put_def setKpaState_def
    setConnectionState_def setCatState_def setDxClusterState_def)

lemma display_ok_step:
  assumes "display_ok (rs_data s)" "engine_op oper"
  shows "display_ok (rs_data (fst (radio_step oper s)))"
proof (cases "\<exists>c. oper = ParseCat c")
  case True
  then obtain c where c: "oper = ParseCat c" by blast
  show ?thesis
  proof (cases "cat_op (take 2 c) (cat_value c)")
    case None
    with assms show ?thesis by (simp add: c parse_cat_op)
  next
    case (Some o')
    from cat_op_plain [OF this] have "\<forall>c. o' \<noteq> ParseCat c" by (simp add: plain_setter_def)
    with assms(1) Some cat_op_engine [OF Some] show ?thesis by (simp add: c parse_cat_op display_ok_plain)
  qed
qed (use assms in \<open>simp add: display_ok_plain\<close>)

text \<open>\<open>keeps oper\<close>: the operation keeps the radio state's invariants and its callback.\<close>

definition keeps :: "(radio_state \<Rightarrow> radio_state \<times> string list) \<Rightarrow> bool" where
  "keeps oper \<longleftrightarrow> (\<forall>s. rs_changeCb (fst (oper s)) = rs_changeCb s \<and>
     (radio_ok (rs_data s) \<longrightarrow> radio_ok (rs_data (fst (oper s)))) \<and>
     (display_ok (rs_data s) \<longrightarrow> display_ok (rs_data (fst (oper s)))))"

lemma keeps_step: "engine_op oper \<Longrightarrow> keeps (radio_step oper)"
  by (simp add: keeps_def radio_step_callback radio_ok_step display_ok_step)

lemma keeps_ops [simp]:
  "keeps (setConnectionState st n)" "keeps (setBinCount b)" "keeps (setNrEnabled r a on)" "keeps (setNrLevel r a l)"
  "keeps (setCwSpeed w)" "keeps (setCwIambicMode m)" "keeps (setMainVolume v)" "keeps (setSubVolume v)"
  "keeps (setSidetonePitch hz)" "keeps (setSpan hz)" "keeps (setCenter hz)" "keeps (setRefLevel db)" "keeps (parseCatCommand c)"
  using keeps_step [of "SetConnectionState st n"] keeps_step [of "SetBinCount b"] keeps_step [of "SetNrEnabled r a on"]
    keeps_step [of "SetNrLevel r a l"] keeps_step [of "SetCwSpeed w"] keeps_step [of "SetCwIambicMode m"]
    keeps_step [of "SetMainVolume v"] keeps_step [of "SetSubVolume v"] keeps_step [of "SetSidetonePitch hz"]
    keeps_step [of "SetSpan hz"] keeps_step [of "SetCenter hz"] keeps_step [of "SetRefLevel db"] keeps_step [of "ParseCat c"]
  by (simp_all add: engine_op_def)

section \<open>The invariant\<close>

text \<open>
  Between operations the mutex is free, and every component satisfies its own invariant. The number
  of failed attempts may exceed the limit, since two reconnection threads may both see one left.
\<close>

definition engine_ok :: "'d engine \<Rightarrow> bool" where
  "engine_ok e \<longleftrightarrow> en_cbLocks e = 0 \<and> rs_changeCb (en_radio e) \<and> radio_ok (rs_data (en_radio e)) \<and>
     display_ok (rs_data (en_radio e)) \<and> resting (en_protocol e) \<and> ring_ok (en_audioBuffer e) \<and> config_ok (rp_config (en_reconnect e)) \<and>
     0 \<le> m_attempt (en_reconnect e) \<and> en_connState e \<in> {0..3} \<and> sidetone_ok (en_sidetone e)"

abbreviation safe :: "'d engine outcome \<Rightarrow> bool" where
  "safe \<equiv> ensures (\<lambda>_. True) engine_ok"

lemma engine_ok_lockable: "engine_ok e \<Longrightarrow> lockable pf e"
  by (simp add: engine_ok_def lockable_def)

text \<open>The parts of the state an operation stores to without a callback.\<close>

lemma engine_ok_updates [simp]:
  "engine_ok (e\<lparr>en_tcp := t\<rparr>) = engine_ok e" "engine_ok (e\<lparr>en_running := b\<rparr>) = engine_ok e"
  "engine_ok (e\<lparr>en_lastHost := h\<rparr>) = engine_ok e" "engine_ok (e\<lparr>en_lastPort := n\<rparr>) = engine_ok e"
  "engine_ok (e\<lparr>en_lastPsk := k\<rparr>) = engine_ok e" "engine_ok (e\<lparr>en_lastUseTls := b\<rparr>) = engine_ok e"
  "engine_ok (e\<lparr>en_opus := d\<rparr>) = engine_ok e" "engine_ok (e\<lparr>en_callbacks := c\<rparr>) = engine_ok e"
  "engine_ok (e\<lparr>en_retryReady := k1\<rparr>) = engine_ok e" "engine_ok (e\<lparr>en_retrySleeping := k1\<rparr>) = engine_ok e"
  "engine_ok (e\<lparr>en_retryResults := rs\<rparr>) = engine_ok e"
  by (simp_all add: engine_ok_def)

lemma engine_ok_stores:
  "engine_ok e \<Longrightarrow> st \<in> {0..3} \<Longrightarrow> engine_ok (e\<lparr>en_connState := st\<rparr>)"
  "engine_ok e \<Longrightarrow> resting p \<Longrightarrow> engine_ok (e\<lparr>en_protocol := p\<rparr>)"
  "engine_ok e \<Longrightarrow> ring_ok b \<Longrightarrow> engine_ok (e\<lparr>en_audioBuffer := b\<rparr>)"
  "engine_ok e \<Longrightarrow> sidetone_ok s \<Longrightarrow> engine_ok (e\<lparr>en_sidetone := s\<rparr>)"
  "engine_ok e \<Longrightarrow> config_ok (rp_config q) \<Longrightarrow> 0 \<le> m_attempt q \<Longrightarrow> engine_ok (e\<lparr>en_reconnect := q\<rparr>)"
  by (simp_all add: engine_ok_def)

lemma engine_ok_reconnect:
  assumes "engine_ok e"
  shows "engine_ok (e\<lparr>en_reconnect := rp_reset (en_reconnect e)\<rparr>)"
    "engine_ok (e\<lparr>en_reconnect := rp_onConnected (en_reconnect e)\<rparr>)"
    "engine_ok (e\<lparr>en_reconnect := rp_onDisconnected (en_reconnect e)\<rparr>)"
  using assms by (simp_all add: engine_ok_def rp_reset_def rp_onConnected_def rp_onDisconnected_def)

lemma engine_ok_policy:
  assumes "engine_ok e"
  shows "config_ok (rp_config (rp_reset (en_reconnect e)))" "0 \<le> m_attempt (rp_reset (en_reconnect e))"
    "config_ok (rp_config (rp_onConnected (en_reconnect e)))" "0 \<le> m_attempt (rp_onConnected (en_reconnect e))"
  using assms by (simp_all add: engine_ok_def rp_reset_def rp_onConnected_def)

lemma on_radio_safe [ensures_rules]:
  assumes "engine_ok e" "keeps oper"
  shows "safe (on_radio pf oper e)"
proof -
  have "engine_ok (e\<lparr>en_radio := fst (oper (en_radio e))\<rparr>)"
    using assms by (simp add: engine_ok_def keeps_def)
  then show ?thesis by (simp add: ensures_def on_radio_free [OF engine_ok_lockable [OF assms(1)]])
qed

lemma announce_safe [ensures_rules]:
  assumes "engine_ok e"
  shows "safe (with_lock pf (\<lambda>e. emit (f e) e) e)"
  using assms by (auto simp: ensures_def lock_defs engine_ok_def)

lemma notifyError_safe [ensures_rules]: "engine_ok e \<Longrightarrow> safe (notifyError pf code msg e)"
  unfolding notifyError_def by (rule announce_safe)

lemma notifyConnectionState_safe [ensures_rules]:
  assumes "engine_ok e"
  shows "safe (notifyConnectionState pf st n e)"
proof (cases "pf_relock pf")
  case True
  have "engine_ok (connection_radio st n e)"
    using assms keeps_ops(1) [of st n] by (simp add: engine_ok_def connection_radio_def keeps_def)
  with True show ?thesis by (simp add: ensures_def notifyConnectionState_relock)
next
  case False
  with assms show ?thesis by (simp add: ensures_def notifyConnectionState_blocks engine_ok_def)
qed

section \<open>Every operation keeps the invariant\<close>

lemma audio_write_ok:
  assumes "ring_ok rb" "opus_contract opus" "opus d pl = (d', frames, pcm)" "frames > 0"
  shows "ring_ok (fst (rb_write rb pcm (word_of_int (frames * 2))))"
proof -
  have len: "frames * 2 = int (length pcm)" "length pcm < 2 ^ 64"
    using assms(2-4) unfolding opus_contract_def by fastforce+
  show ?thesis unfolding len(1) by (rule write_fills(1) [OF assms(1) len(2)])
qed

lemma onProtocolFrame_safe [ensures_rules]:
  assumes "engine_ok e" "opus_contract (pf_opus pf)"
  shows "safe (onProtocolFrame pf ty pl e)"
proof -
  have ring: "ring_ok (en_audioBuffer e)" using assms(1) by (simp add: engine_ok_def)
  have audio: "safe (with_lock pf (\<lambda>e. emit (f e) e)
      (e\<lparr>en_opus := d, en_audioBuffer := fst (rb_write (en_audioBuffer e) pcm (word_of_int (frames * 2)))\<rparr>))"
    if "pf_opus pf x pl = (d', frames, pcm)" "frames > 0" for f x d d' frames pcm
    using assms(1) audio_write_ok [OF ring assms(2) that]
    by (intro announce_safe engine_ok_stores) simp_all
  show ?thesis
    unfolding onProtocolFrame_def Let_def
    using assms(1) audio
    by (auto intro!: ensures_rules ensures_and_then [where P = engine_ok] split: option.split prod.split)
qed

lemma on_frames_safe: "engine_ok e \<Longrightarrow> opus_contract (pf_opus pf) \<Longrightarrow> safe (on_frames pf fs e)"
  by (induction fs arbitrary: e) (auto intro!: ensures_rules ensures_and_then [where P = engine_ok])

lemma data_callback_safe [ensures_rules]:
  assumes "engine_ok e" "opus_contract (pf_opus pf)"
  shows "safe (data_callback pf data e)"
proof -
  have "resting (fst (feedData (en_protocol e) data))" using assms(1) by (simp add: engine_ok_def feedData_resting)
  with assms show ?thesis by (simp add: data_callback_def split_beta on_frames_safe engine_ok_stores)
qed

lemma onDisconnected_safe [ensures_rules]: "engine_ok e \<Longrightarrow> safe (onDisconnected pf e)"
  unfolding onDisconnected_def
  by (auto intro!: ensures_rules ensures_and_then [where P = engine_ok] engine_ok_stores engine_ok_reconnect)

lemma tcp_effects_safe [ensures_rules]:
  "engine_ok e \<Longrightarrow> opus_contract (pf_opus pf) \<Longrightarrow> safe (tcp_effects pf evs e)"
proof (induction evs arbitrary: e)
  case (Cons ev evs)
  have "safe (case ev of Os oe \<Rightarrow> emit [System oe] e | DataCb bs \<Rightarrow> data_callback pf bs e | DisconnectCb \<Rightarrow> onDisconnected pf e)"
    using Cons.prems by (auto intro!: ensures_rules split: tcp_event.split)
  then show ?case using Cons by (auto intro: ensures_and_then [where P = engine_ok] simp del: and_then_simps)
qed (auto intro!: ensures_rules)

lemma close_connection_safe [ensures_rules]:
  "engine_ok e \<Longrightarrow> opus_contract (pf_opus pf) \<Longrightarrow> safe (close_connection pf e)"
  unfolding close_connection_def
  by (auto intro!: ensures_rules ensures_and_then [where P = engine_ok] split: prod.split)

lemma engine_disconnect_safe: "engine_ok e \<Longrightarrow> opus_contract (pf_opus pf) \<Longrightarrow> safe (engine_disconnect pf e)"
  unfolding engine_disconnect_def
  by (auto intro!: ensures_rules ensures_and_then [where P = engine_ok] engine_ok_stores engine_ok_reconnect)

lemma shutdown_safe: "engine_ok e \<Longrightarrow> opus_contract (pf_opus pf) \<Longrightarrow> safe (shutdown pf e)"
  unfolding shutdown_def by (auto intro!: ensures_rules)

lemma engine_connect_safe:
  assumes "engine_ok e" "opus_contract (pf_opus pf)"
  shows "ensures (\<lambda>_. True) (\<lambda>x. engine_ok (fst x)) (engine_connect pf env host port psk use_tls e)"
  unfolding engine_connect_def Let_def using assms
  by (auto intro!: ensures_rules ensures_and_then [where P = engine_ok] engine_ok_stores engine_ok_policy engine_ok_reconnect live_new
      split: prod.split)

lemma reader_step_safe: "engine_ok e \<Longrightarrow> opus_contract (pf_opus pf) \<Longrightarrow> safe (reader_step pf r e)"
  unfolding reader_step_def by (auto intro!: ensures_rules split: prod.split)

lemma retry_head_safe: "engine_ok e \<Longrightarrow> safe (retry_head pf e)"
  unfolding retry_head_def Let_def by (auto intro!: ensures_rules split: option.split)

lemma retry_wake_safe: "engine_ok e \<Longrightarrow> opus_contract (pf_opus pf) \<Longrightarrow> safe (retry_wake pf env e)"
  unfolding retry_wake_def Let_def
  by (auto intro!: ensures_rules ensures_and_then [where P = engine_ok] engine_ok_stores live_new split: prod.split)

lemma retry_failed_safe [ensures_rules]:
  assumes "engine_ok e"
  shows "safe (retry_failed pf e)"
proof -
  have ok: "engine_ok (e\<lparr>en_reconnect := q\<rparr>)" if "rp_onAttemptFailed (en_reconnect e) = Some (q, again)" for q again
    using that assms
    by (auto simp: rp_onAttemptFailed_def checked_i32_def engine_ok_def Let_def split: if_splits)
  show ?thesis
    unfolding retry_failed_def
    by (auto intro!: ensures_rules ensures_and_then [where P = engine_ok] engine_ok_stores(1) ok split: option.split prod.split)
qed

lemma retry_commit_safe: "engine_ok e \<Longrightarrow> safe (retry_commit pf e)"
  unfolding retry_commit_def Let_def
  by (auto intro!: ensures_rules ensures_and_then [where P = engine_ok] engine_ok_stores engine_ok_policy engine_ok_reconnect
      split: list.split)

lemma engine_setNr_safe: "engine_ok e \<Longrightarrow> ensures (\<lambda>_. True) (\<lambda>x. engine_ok (fst x)) (engine_setNr pf vfo a on l e)"
  unfolding engine_setNr_def by (auto intro!: ensures_rules ensures_and_then [where P = engine_ok])

lemma cwKey_safe: "engine_ok e \<Longrightarrow> safe (cwKey element e)"
  unfolding cwKey_def by (auto intro!: ensures_rules engine_ok_stores simp: engine_ok_def)

lemma control_safe:
  assumes "engine_ok e"
  shows "safe (cwSetSpeed pf wpm e)" "safe (cwSetIambicMode pf mode e)" "safe (setVolume pf channel level e)"
    "safe (engine_setSidetonePitch pf hz e)" "safe (setSpectrumSpan pf hz e)" "safe (setSpectrumCenter pf hz e)"
    "safe (setSpectrumRefLevel pf db e)"
  using assms
  unfolding cwSetSpeed_def cwSetIambicMode_def setVolume_def engine_setSidetonePitch_def setSpectrumSpan_def
    setSpectrumCenter_def setSpectrumRefLevel_def
  by (auto intro!: ensures_rules ensures_and_then [where P = engine_ok] engine_ok_stores simp: engine_ok_def split: option.split)

lemma setCallback_safe: "engine_ok e \<Longrightarrow> safe (setCallback pf store e)"
  by (auto simp: setCallback_def ensures_def lock_defs engine_ok_def)

lemma engine_new_ok:
  assumes "0 \<le> reconnect_max_attempts c" "in_i32 (reconnect_max_attempts c)"
  shows "engine_ok (engine_new c d)"
proof -
  have "ring_ok (RingBuffer_new 19200)" using RingBuffer_new_ok [of 19200] by simp
  with assms radio_ok_new display_ok_new show ?thesis
    by (simp add: engine_ok_def engine_new_def setChangeCallback_def live_new resting_setFrameCallback config_ok_def
      in_i32_def ReconnectPolicy_new_def sidetone_new_ok)
qed

end
