(* ===== verification/Api.thy ===== *)
theory Api
  imports EngineInvariant
begin

text \<open>
  The public C interface of \<open>core/src/qk4_api.cpp\<close>: every function checks its handle and calls the
  engine. A handle is \<open>None\<close> for \<open>NULL\<close>; pointers that may be \<open>NULL\<close> are options. With it the whole
  system as the application and the network drive it: calls of the interface, results of \<open>recv\<close> and
  steps of the reconnection threads in any order.
\<close>

section \<open>Lifecycle\<close>

text \<open>\<open>alloc\<close> tells whether \<open>new (std::nothrow)\<close> succeeds, \<open>opus\<close> is the decoder \<open>init\<close> gets.\<close>

definition positive_or :: "int \<Rightarrow> int \<Rightarrow> int" where
  "positive_or v default_value = (if v > 0 then v else default_value)"

definition qk4_create :: "qk4_config option \<Rightarrow> bool \<Rightarrow> 'd option \<Rightarrow> 'd engine option" where
  "qk4_create config alloc opus =
     (let cfg = (case config of
          Some c \<Rightarrow> \<lparr>audio_jitter_ms = positive_or (cfg_audio_jitter_ms c) 40,
                     spectrum_max_fps = positive_or (cfg_spectrum_max_fps c) 30,
                     keepalive_interval_s = positive_or (cfg_keepalive_interval_s c) 15,
                     keepalive_max_probes = positive_or (cfg_keepalive_max_probes c) 3,
                     reconnect_max_attempts = positive_or (cfg_reconnect_max_attempts c) 10\<rparr>
        | None \<Rightarrow> \<lparr>audio_jitter_ms = 40, spectrum_max_fps = 30, keepalive_interval_s = 15,
                    keepalive_max_probes = 3, reconnect_max_attempts = 10\<rparr>)
      in if alloc then Some (engine_new cfg opus) else None)"

text \<open>
  \<open>engine->shutdown()\<close> and the one of the destructor. The engine that is left is freed memory; it is
  returned to say which threads still use it.
\<close>

definition qk4_destroy :: "'d platform \<Rightarrow> 'd engine option \<Rightarrow> 'd engine option outcome" where
  "qk4_destroy pf handle =
     (case handle of
        None \<Rightarrow> emit [] None
      | Some e \<Rightarrow> and_then (and_then (shutdown pf e) (engine_delete pf)) (\<lambda>e. emit [] (Some e)))"

section \<open>Calls\<close>

text \<open>\<open>VALIDATE_HANDLE\<close> before a call that returns a code, and \<open>VALIDATE_HANDLE_VOID\<close>.\<close>

definition validate :: "'d engine option \<Rightarrow> ('d engine \<Rightarrow> int \<times> engine_event list) \<Rightarrow> int \<times> engine_event list" where
  "validate handle call = (case handle of None \<Rightarrow> (QK4_ERR_INVALID_HANDLE, []) | Some e \<Rightarrow> call e)"

definition validate_void :: "'d engine option \<Rightarrow> ('d engine \<Rightarrow> 'd engine outcome) \<Rightarrow> 'd engine option outcome" where
  "validate_void handle call =
     (case handle of None \<Rightarrow> emit [] None | Some e \<Rightarrow> and_then (call e) (\<lambda>e. emit [] (Some e)))"

definition validate_code ::
  "'d engine option \<Rightarrow> ('d engine \<Rightarrow> ('d engine \<times> int) outcome) \<Rightarrow> ('d engine option \<times> int) outcome" where
  "validate_code handle call =
     (case handle of None \<Rightarrow> emit [] (None, QK4_ERR_INVALID_HANDLE)
                   | Some e \<Rightarrow> and_then (call e) (\<lambda>(e, code). emit [] (Some e, code)))"

definition validate_query :: "'d engine option \<Rightarrow> int \<Rightarrow> ('d engine \<Rightarrow> int) \<Rightarrow> int" where
  "validate_query handle default_value query = (case handle of None \<Rightarrow> default_value | Some e \<Rightarrow> query e)"

definition qk4_connect ::
  "'d platform \<Rightarrow> connect_env \<Rightarrow> 'd engine option \<Rightarrow> string option \<Rightarrow> int \<Rightarrow> byte list option \<Rightarrow> nat \<Rightarrow> int \<Rightarrow>
     ('d engine option \<times> int) outcome" where
  "qk4_connect pf env handle host port psk psk_len use_tls =
     validate_code handle (\<lambda>e. case host of
         None \<Rightarrow> emit [] (e, QK4_ERR_INVALID_PARAM)
       | Some h \<Rightarrow> engine_connect pf env h port (case psk of None \<Rightarrow> [] | Some bytes \<Rightarrow> take psk_len bytes) (use_tls \<noteq> 0) e)"

definition qk4_disconnect :: "'d platform \<Rightarrow> 'd engine option \<Rightarrow> 'd engine option outcome" where
  "qk4_disconnect pf handle = validate_void handle (engine_disconnect pf)"

definition qk4_get_connection_state :: "'d engine option \<Rightarrow> int" where
  "qk4_get_connection_state handle = validate_query handle QK4_CONN_DISCONNECTED connectionState"

definition qk4_set_frequency :: "'d engine option \<Rightarrow> int \<Rightarrow> int \<Rightarrow> int \<times> engine_event list" where
  "qk4_set_frequency handle vfo freq_hz = validate handle (engine_setFrequency vfo freq_hz)"

definition qk4_set_mode :: "'d engine option \<Rightarrow> int \<Rightarrow> int \<Rightarrow> int \<times> engine_event list" where
  "qk4_set_mode handle vfo mode = validate handle (engine_setMode vfo mode)"

definition qk4_set_ptt :: "'d engine option \<Rightarrow> int \<Rightarrow> int \<times> engine_event list" where
  "qk4_set_ptt handle on = validate handle (engine_setPtt (on \<noteq> 0))"

definition qk4_set_tune :: "'d engine option \<Rightarrow> int \<Rightarrow> int \<times> engine_event list" where
  "qk4_set_tune handle on = validate handle (engine_setTune (on \<noteq> 0))"

definition qk4_set_power :: "'d engine option \<Rightarrow> int \<Rightarrow> int \<times> engine_event list" where
  "qk4_set_power handle watts = validate handle (engine_setPower watts)"

definition qk4_set_band :: "'d engine option \<Rightarrow> int \<Rightarrow> int \<times> engine_event list" where
  "qk4_set_band handle b_id = validate handle (engine_setBand b_id)"

definition qk4_set_agc :: "'d engine option \<Rightarrow> int \<Rightarrow> int \<Rightarrow> int \<times> engine_event list" where
  "qk4_set_agc handle vfo agc_mode = validate handle (engine_setAgc vfo agc_mode)"

definition qk4_set_filter_bw :: "'d engine option \<Rightarrow> int \<Rightarrow> int \<Rightarrow> int \<times> engine_event list" where
  "qk4_set_filter_bw handle vfo bandwidth_hz = validate handle (engine_setFilterBw vfo bandwidth_hz)"

definition qk4_set_notch :: "'d engine option \<Rightarrow> int \<Rightarrow> int \<Rightarrow> int \<Rightarrow> int \<times> engine_event list" where
  "qk4_set_notch handle vfo enabled freq_hz = validate handle (engine_setNotch vfo (enabled \<noteq> 0) freq_hz)"

definition qk4_set_nr ::
  "'d platform \<Rightarrow> 'd engine option \<Rightarrow> int \<Rightarrow> int \<Rightarrow> int \<Rightarrow> int \<Rightarrow> ('d engine option \<times> int) outcome" where
  "qk4_set_nr pf handle vfo algorithm enabled level =
     validate_code handle (engine_setNr pf vfo algorithm (enabled \<noteq> 0) level)"

definition qk4_get_frequency :: "'d engine option \<Rightarrow> int \<Rightarrow> int" where
  "qk4_get_frequency handle vfo = validate_query handle 0 (engine_getFrequency vfo)"

definition qk4_get_mode :: "'d engine option \<Rightarrow> int \<Rightarrow> int" where
  "qk4_get_mode handle vfo = validate_query handle 0 (engine_getMode vfo)"

definition qk4_get_smeter :: "'d engine option \<Rightarrow> int \<Rightarrow> int" where
  "qk4_get_smeter handle vfo = validate_query handle 0 (engine_getSmeter vfo)"

definition qk4_get_tx_state :: "'d engine option \<Rightarrow> int" where
  "qk4_get_tx_state handle = validate_query handle 0 engine_getTxState"

definition qk4_get_power_level :: "'d engine option \<Rightarrow> int" where
  "qk4_get_power_level handle = validate_query handle 0 engine_getPowerLevel"

definition qk4_get_tuning_rate :: "'d engine option \<Rightarrow> int \<Rightarrow> int" where
  "qk4_get_tuning_rate handle vfo = validate_query handle 0 (engine_getTuningRate vfo)"

definition qk4_get_sub_on :: "'d engine option \<Rightarrow> int" where
  "qk4_get_sub_on handle = validate_query handle 0 engine_getSubOn"

definition qk4_set_state_callback :: "'d platform \<Rightarrow> 'd engine option \<Rightarrow> bool \<Rightarrow> 'd engine option outcome" where
  "qk4_set_state_callback pf handle cb = validate_void handle (setStateCallback pf cb)"

definition qk4_set_spectrum_callback :: "'d platform \<Rightarrow> 'd engine option \<Rightarrow> bool \<Rightarrow> 'd engine option outcome" where
  "qk4_set_spectrum_callback pf handle cb = validate_void handle (setSpectrumCallback pf cb)"

definition qk4_set_audio_callback :: "'d platform \<Rightarrow> 'd engine option \<Rightarrow> bool \<Rightarrow> 'd engine option outcome" where
  "qk4_set_audio_callback pf handle cb = validate_void handle (setAudioCallback pf cb)"

definition qk4_set_error_callback :: "'d platform \<Rightarrow> 'd engine option \<Rightarrow> bool \<Rightarrow> 'd engine option outcome" where
  "qk4_set_error_callback pf handle cb = validate_void handle (setErrorCallback pf cb)"

definition qk4_set_connection_callback :: "'d platform \<Rightarrow> 'd engine option \<Rightarrow> bool \<Rightarrow> 'd engine option outcome" where
  "qk4_set_connection_callback pf handle cb = validate_void handle (setConnectionCallback pf cb)"

definition qk4_cw_key :: "'d engine option \<Rightarrow> int \<Rightarrow> 'd engine option outcome" where
  "qk4_cw_key handle element = validate_void handle (cwKey element)"

definition qk4_cw_set_speed :: "'d platform \<Rightarrow> 'd engine option \<Rightarrow> int \<Rightarrow> 'd engine option outcome" where
  "qk4_cw_set_speed pf handle wpm = validate_void handle (cwSetSpeed pf wpm)"

definition qk4_cw_set_iambic_mode :: "'d platform \<Rightarrow> 'd engine option \<Rightarrow> int \<Rightarrow> 'd engine option outcome" where
  "qk4_cw_set_iambic_mode pf handle mode = validate_void handle (cwSetIambicMode pf mode)"

definition qk4_audio_set_volume :: "'d platform \<Rightarrow> 'd engine option \<Rightarrow> int \<Rightarrow> int \<Rightarrow> 'd engine option outcome" where
  "qk4_audio_set_volume pf handle channel level = validate_void handle (setVolume pf channel level)"

definition qk4_audio_set_sidetone_pitch :: "'d platform \<Rightarrow> 'd engine option \<Rightarrow> int \<Rightarrow> 'd engine option outcome" where
  "qk4_audio_set_sidetone_pitch pf handle hz = validate_void handle (engine_setSidetonePitch pf hz)"

definition qk4_spectrum_set_span :: "'d platform \<Rightarrow> 'd engine option \<Rightarrow> int \<Rightarrow> 'd engine option outcome" where
  "qk4_spectrum_set_span pf handle span_hz = validate_void handle (setSpectrumSpan pf span_hz)"

definition qk4_spectrum_set_center :: "'d platform \<Rightarrow> 'd engine option \<Rightarrow> int \<Rightarrow> 'd engine option outcome" where
  "qk4_spectrum_set_center pf handle center_hz = validate_void handle (setSpectrumCenter pf center_hz)"

definition qk4_spectrum_set_ref_level :: "'d platform \<Rightarrow> 'd engine option \<Rightarrow> int \<Rightarrow> 'd engine option outcome" where
  "qk4_spectrum_set_ref_level pf handle ref_db = validate_void handle (setSpectrumRefLevel pf ref_db)"

section \<open>Services that are not wired up\<close>

definition qk4_discovery_start :: "'d engine option \<Rightarrow> 'x option" where
  "qk4_discovery_start handle = (case handle of None \<Rightarrow> None | Some e \<Rightarrow> startDiscovery e)"

text \<open>\<open>stop\<close> is \<open>Discovery::stop\<close>, a method of a class the repository does not have.\<close>

definition qk4_discovery_stop :: "('x \<Rightarrow> engine_event list) \<Rightarrow> 'x option \<Rightarrow> engine_event list" where
  "qk4_discovery_stop stop discovery = (case discovery of None \<Rightarrow> [] | Some disc \<Rightarrow> stop disc)"

definition qk4_cat_start :: "'d engine option \<Rightarrow> int \<Rightarrow> int \<Rightarrow> int \<times> engine_event list" where
  "qk4_cat_start handle port max_clients = validate handle (catStart port max_clients)"

definition qk4_cat_stop :: "'d engine option \<Rightarrow> 'd engine option outcome" where
  "qk4_cat_stop handle = validate_void handle catStop"

definition qk4_cat_get_client_count :: "'d engine option \<Rightarrow> int" where
  "qk4_cat_get_client_count handle = validate_query handle 0 catGetClientCount"

definition qk4_dxcluster_connect :: "'d engine option \<Rightarrow> string option \<Rightarrow> int \<Rightarrow> string option \<Rightarrow> int \<times> engine_event list" where
  "qk4_dxcluster_connect handle host port callsign =
     validate handle (\<lambda>e. case (host, callsign) of
         (Some h, Some c) \<Rightarrow> dxClusterConnect h port c e
       | _ \<Rightarrow> (QK4_ERR_INVALID_PARAM, []))"

definition qk4_dxcluster_disconnect :: "'d engine option \<Rightarrow> 'd engine option outcome" where
  "qk4_dxcluster_disconnect handle = validate_void handle dxClusterDisconnect"

definition qk4_dxcluster_set_spot_callback :: "'d platform \<Rightarrow> 'd engine option \<Rightarrow> bool \<Rightarrow> 'd engine option outcome" where
  "qk4_dxcluster_set_spot_callback pf handle cb = validate_void handle (engine_setSpotCallback pf cb)"

definition qk4_kpa_connect :: "'d engine option \<Rightarrow> int \<times> engine_event list" where
  "qk4_kpa_connect handle = validate handle kpaConnect"

definition qk4_kpa_disconnect :: "'d engine option \<Rightarrow> 'd engine option outcome" where
  "qk4_kpa_disconnect handle = validate_void handle kpaDisconnect"

definition qk4_kpa_set_operate :: "'d engine option \<Rightarrow> int \<Rightarrow> int \<times> engine_event list" where
  "qk4_kpa_set_operate handle operate = validate handle (kpaSetOperate (operate \<noteq> 0))"

definition qk4_kpa_set_band :: "'d engine option \<Rightarrow> int \<Rightarrow> int \<times> engine_event list" where
  "qk4_kpa_set_band handle b_id = validate handle (kpaSetBand b_id)"

definition qk4_kpa_set_status_callback :: "'d platform \<Rightarrow> 'd engine option \<Rightarrow> bool \<Rightarrow> 'd engine option outcome" where
  "qk4_kpa_set_status_callback pf handle cb = validate_void handle (setKpaStatusCallback pf cb)"

definition qk4_audio_set_jitter_buffer :: "'d engine option \<Rightarrow> int \<Rightarrow> 'd engine option outcome" where
  "qk4_audio_set_jitter_buffer handle ms = validate_void handle (setJitterBuffer ms)"

section \<open>The system\<close>

text \<open>The calls that return a code and change nothing, as one type.\<close>

datatype command =
    Set_frequency int int | Set_mode int int | Set_ptt int | Set_tune int | Set_power int | Set_band int
  | Set_agc int int | Set_filter_bw int int | Set_notch int int int
  | Cat_start int int | Dxcluster_connect "string option" int "string option"
  | Kpa_connect | Kpa_set_operate int | Kpa_set_band int

primrec api_command :: "command \<Rightarrow> 'd engine option \<Rightarrow> int \<times> engine_event list" where
  "api_command (Set_frequency vfo f) h = qk4_set_frequency h vfo f"
| "api_command (Set_mode vfo m) h = qk4_set_mode h vfo m"
| "api_command (Set_ptt on) h = qk4_set_ptt h on"
| "api_command (Set_tune on) h = qk4_set_tune h on"
| "api_command (Set_power w) h = qk4_set_power h w"
| "api_command (Set_band b) h = qk4_set_band h b"
| "api_command (Set_agc vfo a) h = qk4_set_agc h vfo a"
| "api_command (Set_filter_bw vfo w) h = qk4_set_filter_bw h vfo w"
| "api_command (Set_notch vfo on f) h = qk4_set_notch h vfo on f"
| "api_command (Cat_start p n) h = qk4_cat_start h p n"
| "api_command (Dxcluster_connect host p call) h = qk4_dxcluster_connect h host p call"
| "api_command Kpa_connect h = qk4_kpa_connect h"
| "api_command (Kpa_set_operate on) h = qk4_kpa_set_operate h on"
| "api_command (Kpa_set_band b) h = qk4_kpa_set_band h b"

datatype callback_kind = State_callback | Spectrum_callback | Audio_callback | Error_callback | Connection_callback
  | Spot_callback | Kpa_status_callback

primrec api_set_callback :: "'d platform \<Rightarrow> callback_kind \<Rightarrow> bool \<Rightarrow> 'd engine option \<Rightarrow> 'd engine option outcome" where
  "api_set_callback pf State_callback cb h = qk4_set_state_callback pf h cb"
| "api_set_callback pf Spectrum_callback cb h = qk4_set_spectrum_callback pf h cb"
| "api_set_callback pf Audio_callback cb h = qk4_set_audio_callback pf h cb"
| "api_set_callback pf Error_callback cb h = qk4_set_error_callback pf h cb"
| "api_set_callback pf Connection_callback cb h = qk4_set_connection_callback pf h cb"
| "api_set_callback pf Spot_callback cb h = qk4_dxcluster_set_spot_callback pf h cb"
| "api_set_callback pf Kpa_status_callback cb h = qk4_kpa_set_status_callback pf h cb"

text \<open>
  One step: a call of the interface with the results of its system calls, a result of the reader's
  \<open>recv\<close>, or a step of a reconnection thread.
\<close>

datatype step =
    Connect connect_env "string option" int "byte list option" nat int | Disconnect | Command command
  | Set_nr int int int int | Set_callback callback_kind bool
  | Cw_key int | Cw_set_speed int | Cw_set_iambic_mode int
  | Set_volume int int | Set_sidetone_pitch int | Set_jitter_buffer int
  | Set_span int | Set_center int | Set_ref_level int
  | Cat_stop | Dxcluster_disconnect | Kpa_disconnect
  | Receive read_result | Retry_head | Retry_wake connect_env | Retry_commit

definition drop_code :: "('h \<times> int) outcome \<Rightarrow> 'h outcome" where
  "drop_code r = and_then r (\<lambda>(h, code). emit [] h)"

primrec system_step :: "'d platform \<Rightarrow> step \<Rightarrow> 'd engine option \<Rightarrow> 'd engine option outcome" where
  "system_step pf (Connect env host port psk n tls) h = drop_code (qk4_connect pf env h host port psk n tls)"
| "system_step pf Disconnect h = qk4_disconnect pf h"
| "system_step pf (Command c) h = emit (snd (api_command c h)) h"
| "system_step pf (Set_nr vfo a on l) h = drop_code (qk4_set_nr pf h vfo a on l)"
| "system_step pf (Set_callback kind cb) h = api_set_callback pf kind cb h"
| "system_step pf (Cw_key k) h = qk4_cw_key h k"
| "system_step pf (Cw_set_speed w) h = qk4_cw_set_speed pf h w"
| "system_step pf (Cw_set_iambic_mode m) h = qk4_cw_set_iambic_mode pf h m"
| "system_step pf (Set_volume c l) h = qk4_audio_set_volume pf h c l"
| "system_step pf (Set_sidetone_pitch hz) h = qk4_audio_set_sidetone_pitch pf h hz"
| "system_step pf (Set_jitter_buffer ms) h = qk4_audio_set_jitter_buffer h ms"
| "system_step pf (Set_span hz) h = qk4_spectrum_set_span pf h hz"
| "system_step pf (Set_center hz) h = qk4_spectrum_set_center pf h hz"
| "system_step pf (Set_ref_level db) h = qk4_spectrum_set_ref_level pf h db"
| "system_step pf Cat_stop h = qk4_cat_stop h"
| "system_step pf Dxcluster_disconnect h = qk4_dxcluster_disconnect h"
| "system_step pf Kpa_disconnect h = qk4_kpa_disconnect h"
| "system_step pf (Receive r) h = validate_void h (reader_step pf r)"
| "system_step pf Retry_head h = validate_void h (retry_head pf)"
| "system_step pf (Retry_wake env) h = validate_void h (retry_wake pf env)"
| "system_step pf Retry_commit h = validate_void h (retry_commit pf)"

primrec run :: "'d platform \<Rightarrow> step list \<Rightarrow> 'd engine option \<Rightarrow> 'd engine option outcome" where
  "run pf [] h = emit [] h"
| "run pf (s # steps) h = and_then (system_step pf s h) (run pf steps)"

section \<open>Lemmas\<close>

lemmas api_defs =
  qk4_disconnect_def qk4_cat_stop_def qk4_dxcluster_disconnect_def qk4_kpa_disconnect_def qk4_cw_key_def qk4_cw_set_speed_def qk4_cw_set_iambic_mode_def
  qk4_audio_set_volume_def qk4_audio_set_sidetone_pitch_def qk4_audio_set_jitter_buffer_def
  qk4_spectrum_set_span_def qk4_spectrum_set_center_def qk4_spectrum_set_ref_level_def

lemmas callback_defs =
  qk4_set_state_callback_def qk4_set_spectrum_callback_def qk4_set_audio_callback_def qk4_set_error_callback_def
  qk4_set_connection_callback_def qk4_dxcluster_set_spot_callback_def qk4_kpa_set_status_callback_def setter_callback_defs

lemmas command_defs =
  qk4_set_frequency_def qk4_set_mode_def qk4_set_ptt_def qk4_set_tune_def qk4_set_power_def qk4_set_band_def
  qk4_set_agc_def qk4_set_filter_bw_def qk4_set_notch_def qk4_cat_start_def qk4_dxcluster_connect_def
  qk4_kpa_connect_def qk4_kpa_set_operate_def qk4_kpa_set_band_def

text \<open>What a registration stores.\<close>

primrec store_callback :: "callback_kind \<Rightarrow> bool \<Rightarrow> callbacks \<Rightarrow> callbacks" where
  "store_callback State_callback cb c = c\<lparr>m_stateCb := cb\<rparr>"
| "store_callback Spectrum_callback cb c = c\<lparr>m_spectrumCb := cb\<rparr>"
| "store_callback Audio_callback cb c = c\<lparr>m_audioCb := cb\<rparr>"
| "store_callback Error_callback cb c = c\<lparr>m_errorCb := cb\<rparr>"
| "store_callback Connection_callback cb c = c\<lparr>m_connectionCb := cb\<rparr>"
| "store_callback Spot_callback cb c = c\<lparr>m_spotCb := cb\<rparr>"
| "store_callback Kpa_status_callback cb c = c\<lparr>m_kpaStatusCb := cb\<rparr>"

lemma store_callback_funs:
  "store_callback State_callback cb = (\<lambda>c. c\<lparr>m_stateCb := cb\<rparr>)"
  "store_callback Spectrum_callback cb = (\<lambda>c. c\<lparr>m_spectrumCb := cb\<rparr>)"
  "store_callback Audio_callback cb = (\<lambda>c. c\<lparr>m_audioCb := cb\<rparr>)"
  "store_callback Error_callback cb = (\<lambda>c. c\<lparr>m_errorCb := cb\<rparr>)"
  "store_callback Connection_callback cb = (\<lambda>c. c\<lparr>m_connectionCb := cb\<rparr>)"
  "store_callback Spot_callback cb = (\<lambda>c. c\<lparr>m_spotCb := cb\<rparr>)"
  "store_callback Kpa_status_callback cb = (\<lambda>c. c\<lparr>m_kpaStatusCb := cb\<rparr>)"
  by (simp_all add: fun_eq_iff)

lemma api_set_callback_eq: "api_set_callback pf kind cb h = validate_void h (setCallback pf (store_callback kind cb))"
  by (cases kind) (simp_all only: store_callback_funs api_set_callback.simps callback_defs)

text \<open>A property of engines, of the engine behind a handle.\<close>

definition behind :: "('d engine \<Rightarrow> bool) \<Rightarrow> 'd engine option \<Rightarrow> bool" where
  "behind P h \<longleftrightarrow> (\<forall>e. h = Some e \<longrightarrow> P e)"

lemma validate_void_ensures:
  "behind P h \<Longrightarrow> (\<And>e. P e \<Longrightarrow> ensures E P (f e)) \<Longrightarrow> ensures E (behind P) (validate_void h f)"
  unfolding validate_void_def
  by (cases h) (auto simp: behind_def intro!: ensures_and_then [where P = P] ensures_emit)

lemma validate_code_ensures:
  "behind P h \<Longrightarrow> (\<And>e. P e \<Longrightarrow> ensures E (\<lambda>x. P (fst x)) (f e)) \<Longrightarrow> ensures E (behind P) (drop_code (validate_code h f))"
  unfolding validate_code_def drop_code_def
  by (cases h) (auto simp: behind_def and_then_assoc intro!: ensures_and_then [where P = "\<lambda>x. P (fst x)"] ensures_emit)

lemma run_ensures:
  "behind P h \<Longrightarrow> (\<And>s h. behind P h \<Longrightarrow> ensures E (behind P) (system_step pf s h)) \<Longrightarrow> ensures E (behind P) (run pf steps h)"
  by (induction steps arbitrary: h) (auto intro: ensures_emit ensures_and_then [where P = "behind P"])

lemma system_step_safe:
  assumes "behind engine_ok h" "opus_contract (pf_opus pf)"
  shows "ensures (\<lambda>_. True) (behind engine_ok) (system_step pf s h)"
proof (cases s)
  case (Connect env host port psk n tls)
  show ?thesis
    unfolding Connect system_step.simps qk4_connect_def
    by (rule validate_code_ensures [OF assms(1)])
      (use assms(2) in \<open>auto intro!: engine_connect_safe ensures_emit split: option.split\<close>)
next
  case (Set_nr vfo a on l)
  show ?thesis
    unfolding Set_nr system_step.simps qk4_set_nr_def
    by (rule validate_code_ensures [OF assms(1)]) (rule engine_setNr_safe)
next
  case (Command c)
  show ?thesis unfolding Command system_step.simps by (rule ensures_emit) (use assms(1) in simp_all)
qed (use assms in \<open>auto simp: api_defs api_set_callback_eq stub_defs intro!: validate_void_ensures engine_disconnect_safe setCallback_safe cwKey_safe
      control_safe reader_step_safe retry_head_safe retry_wake_safe retry_commit_safe ensures_emit\<close>)

text \<open>An engine that has never been connected.\<close>

definition pristine :: "'d engine \<Rightarrow> bool" where
  "pristine e \<longleftrightarrow> en_tcp e = engine_tcp (en_config e) \<and> rs_changeCb (en_radio e) \<and> en_cbLocks e = 0 \<and>
     en_retryReady e = 0 \<and> en_retrySleeping e = 0 \<and> en_retryResults e = []"

text \<open>Neither a system call on a socket nor anything sent.\<close>

primrec local_event :: "engine_event \<Rightarrow> bool" where
  "local_event (SendFrame bs) = False" | "local_event (System os) = False"
| "local_event (StateCb k) = True" | "local_event (SpectrumCb b n v) = True" | "local_event (AudioCb p n r) = True"
| "local_event (ErrorCb c m) = True" | "local_event (ConnectionCb s n) = True" | "local_event StartRetry = True"
| "local_event (Sleep d) = True"

lemma on_radio_pristine:
  assumes "pristine e" "keeps oper"
  shows "ensures local_event pristine (on_radio pf oper e)"
proof -
  have "lockable pf e" using assms(1) by (simp add: pristine_def lockable_def)
  then show ?thesis using assms
    by (auto simp: ensures_def on_radio_free pristine_def keeps_def state_keys_def)
qed

lemma notify_never:
  assumes "\<not> pf_relock pf" "pristine e"
  shows "ensures local_event P (notifyConnectionState pf st n e)"
  using assms by (simp add: ensures_def notifyConnectionState_blocks pristine_def)

lemma connect_offline:
  assumes "\<not> pf_relock pf" "pristine e"
  shows "ensures local_event P (engine_connect pf env host port psk tls e)"
  using assms by (simp add: ensures_def engine_connect_def notifyConnectionState_blocks pristine_def)

lemma disconnect_offline:
  assumes "\<not> pf_relock pf" "pristine e"
  shows "ensures local_event P (engine_disconnect pf e)"
  using assms
  by (simp add: ensures_def engine_disconnect_def close_connection_def stopReadLoop_def tcp_disconnect_def closeSocket_def
      notifyConnectionState_blocks pristine_def emit_def Let_def)

lemma command_null: "api_command c None = (QK4_ERR_INVALID_HANDLE, [])"
  by (cases c) (simp_all add: command_defs validate_def)

lemma command_offline: "pristine e \<Longrightarrow> snd (api_command c (Some e)) = []"
  by (cases c)
    (auto split: option.split simp: command_defs validate_def stub_defs pristine_def isConnected_def engine_setFrequency_def
      engine_setMode_def engine_setPtt_def engine_setTune_def engine_setPower_def engine_setBand_def engine_setAgc_def
      engine_setFilterBw_def engine_setNotch_def)

lemma control_offline:
  assumes "pristine e"
  shows "ensures local_event pristine (cwSetSpeed pf w e)" "ensures local_event pristine (cwSetIambicMode pf m e)"
    "ensures local_event pristine (setVolume pf channel l e)" "ensures local_event pristine (engine_setSidetonePitch pf hz e)"
    "ensures local_event pristine (setSpectrumSpan pf hz e)" "ensures local_event pristine (setSpectrumCenter pf hz e)"
    "ensures local_event pristine (setSpectrumRefLevel pf db e)" "ensures local_event pristine (cwKey k e)"
    "ensures local_event (\<lambda>x. pristine (fst x)) (engine_setNr pf vfo a on l e)" "ensures local_event pristine (setCallback pf store e)"
  using assms
  unfolding cwSetSpeed_def cwSetIambicMode_def setVolume_def engine_setSidetonePitch_def setSpectrumSpan_def
    setSpectrumCenter_def setSpectrumRefLevel_def cwKey_def engine_setNr_def setCallback_def
  by (auto intro!: ensures_rules ensures_and_then [where P = pristine] on_radio_pristine
      simp: isConnected_def lock_defs split: option.split) (auto simp: pristine_def ensures_def)

lemma thread_offline:
  assumes "pristine e"
  shows "ensures local_event pristine (reader_step pf r e)" "ensures local_event pristine (retry_head pf e)"
    "ensures local_event pristine (retry_wake pf env e)" "ensures local_event pristine (retry_commit pf e)"
  using assms
  by (simp_all add: ensures_def pristine_def reader_step_def retry_head_def retry_wake_def retry_commit_def emit_def)

lemma system_step_offline:
  assumes "\<not> pf_relock pf" "behind pristine h"
  shows "ensures local_event (behind pristine) (system_step pf s h)"
proof (cases s)
  case (Connect env host port psk n tls)
  show ?thesis
    unfolding Connect system_step.simps qk4_connect_def
    by (rule validate_code_ensures [OF assms(2)])
      (auto intro!: connect_offline [OF assms(1)] ensures_emit split: option.split)
next
  case (Set_nr vfo a on l)
  show ?thesis
    unfolding Set_nr system_step.simps qk4_set_nr_def
    by (rule validate_code_ensures [OF assms(2)]) (rule control_offline)
next
  case (Command c)
  have "snd (api_command c h) = []"
    using assms(2) by (cases h) (simp_all add: behind_def command_null command_offline)
  then show ?thesis unfolding Command system_step.simps by (intro ensures_emit) (use assms(2) in simp_all)
qed (use assms in \<open>auto simp: api_defs api_set_callback_eq stub_defs intro!: validate_void_ensures disconnect_offline control_offline thread_offline ensures_emit\<close>)

lemma step_null: "system_step pf s None = ([], Some None)"
  by (cases s)
    (simp_all add: api_defs api_set_callback_eq validate_void_def emit_def drop_code_def qk4_connect_def qk4_set_nr_def validate_code_def command_null)

section \<open>Values that cross the interface\<close>

lemma tcp_connect_codes: "fst (snd (tcp_connect env psk use_tls s)) \<in> range error_code"
  by (auto simp: tcp_connect_def connectTls_def connectPlain_def tls_fail_def Let_def split_beta split: option.split)

lemma command_codes: "fst (api_command c h) \<in> range error_code"
proof (cases h)
  case None
  then show ?thesis by (simp add: command_null)
next
  case (Some e)
  then show ?thesis
    by (cases c)
      (auto simp: command_defs validate_def stub_defs engine_setFrequency_def engine_setMode_def engine_setPtt_def
        engine_setTune_def engine_setPower_def engine_setBand_def engine_setAgc_def engine_setFilterBw_def
        engine_setNotch_def split: option.split)
qed

lemma ensures_code:
  "ensures (\<lambda>_. True) P r \<Longrightarrow> (\<And>x. P x \<Longrightarrow> Q x) \<Longrightarrow> pred_option Q (snd r)"
  by (cases "snd r") (simp_all add: ensures_def)

lemma connect_codes:
  "ensures (\<lambda>_. True) (\<lambda>x. snd x \<in> range error_code) (qk4_connect pf env h host port psk n tls)"
proof -
  have any: "ensures (\<lambda>_. True) (\<lambda>_. True) r" for r :: "'x outcome" by (simp add: ensures_def)
  have "ensures (\<lambda>_. True) (\<lambda>x. snd x \<in> range error_code) (engine_connect pf env hst port key b e)" for hst key b e
    unfolding engine_connect_def Let_def split_beta
    by (intro ensures_and_then [OF any])
      (use tcp_connect_codes [of env key b] in \<open>auto intro!: ensures_and_then [OF any] ensures_rules\<close>)
  then show ?thesis
    unfolding qk4_connect_def validate_code_def
    by (cases h) (auto intro!: ensures_rules ensures_and_then [where P = "\<lambda>x. snd x \<in> range error_code"] split: option.split)
qed

lemma reachable_ok:
  assumes "opus_contract (pf_opus pf)" "config = None \<or> (\<exists>c. config = Some c \<and> in_i32 (cfg_reconnect_max_attempts c))"
    "snd (run pf steps (qk4_create config alloc opus)) = Some (Some e)"
  shows "engine_ok e"
proof -
  have "behind engine_ok (qk4_create config alloc opus)"
    using assms(2) by (auto simp: behind_def qk4_create_def Let_def positive_or_def in_i32_def intro!: engine_new_ok)
  from run_ensures [OF this system_step_safe [OF _ assms(1)]] assms(3) show ?thesis
    by (simp add: ensures_def behind_def)
qed

text \<open>A run that returns, for the witnesses.\<close>

lemma example_run:
  obtains e where "snd (run posix [Set_volume 0 200] (qk4_create None True (Some ()))) = Some (Some e)" "opus_contract (pf_opus posix)"
proof -
  have "lockable posix (default_engine)" by (simp add: default_engine_def lockable_def)
  moreover have "opus_contract (pf_opus posix)" by (simp add: posix_def opus_contract_def)
  ultimately show ?thesis using that
    by (simp add: qk4_create_def default_engine_eq [symmetric] api_defs validate_void_def emit_def setVolume_def on_radio_free)
qed

section \<open>Properties\<close>

text \<open>
  C5. On a platform where a thread cannot lock a \<open>std::mutex\<close> it already holds, an application can
  never reach the radio: whatever it calls, in whatever order and whatever the network does, no
  socket is ever opened and no command ever sent, and an engine whose calls all returned is not
  connected.
\<close>

theorem never_reaches_the_radio:
  assumes "\<not> pf_relock pf"
  shows "list_all local_event (fst (run pf steps (qk4_create config alloc opus))) \<and>
         (\<forall>e. snd (run pf steps (qk4_create config alloc opus)) = Some (Some e) \<longrightarrow> \<not> isConnected (en_tcp e))"
proof -
  have "behind pristine (qk4_create config alloc opus)"
    by (auto simp: behind_def qk4_create_def pristine_def Let_def engine_new_def setChangeCallback_def)
  from run_ensures [OF this system_step_offline [OF assms]]
  have "ensures local_event (behind pristine) (run pf steps (qk4_create config alloc opus))" .
  then show ?thesis by (auto simp: ensures_def behind_def pristine_def isConnected_def list_all_iff)
qed

theorem never_reaches_the_radio_witness:
  "list_all local_event (fst (run posix [Set_span 60000, Connect radio_env (Some ''k4'') 9205 None 0 0, Command (Set_ptt 1)]
      (qk4_create None True (Some ()))))"
  using never_reaches_the_radio [of posix "[Set_span 60000, Connect radio_env (Some ''k4'') 9205 None 0 0, Command (Set_ptt 1)]"
      None True "Some ()"]
  by (simp add: posix_def)



text \<open>
  A \<open>NULL\<close> handle is harmless: no sequence of steps on it has any effect, every call that returns
  a code returns \<open>INVALID_HANDLE\<close>, and the connection state is \<open>DISCONNECTED\<close>. A \<open>NULL\<close> host is refused
  without touching the engine.
\<close>

theorem null_arguments:
  "run pf steps (None :: 'd engine option) = ([], Some None) \<and>
   qk4_connect pf env (None :: 'd engine option) host port psk n tls = ([], Some (None, QK4_ERR_INVALID_HANDLE)) \<and>
   api_command c (None :: 'd engine option) = (QK4_ERR_INVALID_HANDLE, []) \<and>
   qk4_get_connection_state (None :: 'd engine option) = QK4_CONN_DISCONNECTED \<and>
   qk4_connect pf env (Some e) None port psk n tls = ([], Some (Some e, QK4_ERR_INVALID_PARAM))"
proof -
  have "run pf steps (None :: 'd engine option) = ([], Some None)"
    by (induction steps) (simp_all add: emit_def step_null)
  then show ?thesis
    by (simp add: qk4_connect_def validate_code_def emit_def command_null qk4_get_connection_state_def validate_query_def)
qed



text \<open>
  C30. Every integer the interface hands out where its header promises an enumeration is one of its
  enumerators, on every engine an application can get to: the modes and the connection state, the
  code of every command, and the code of a connect that returns, whatever the network did.
\<close>

theorem interface_values:
  assumes "opus_contract (pf_opus pf)" and "config = None \<or> (\<exists>c. config = Some c \<and> in_i32 (cfg_reconnect_max_attempts c))"
    and "snd (run pf steps (qk4_create config alloc opus)) = Some (Some e)"
  shows "(\<exists>m. qk4_get_mode (Some e) vfo = mode_code m) \<and> (\<exists>st. qk4_get_connection_state (Some e) = connection_code st) \<and>
    (\<exists>err. fst (api_command c (Some e)) = error_code err) \<and>
    pred_option (\<lambda>x. \<exists>err. snd x = error_code err) (snd (qk4_connect pf' env (Some e) host port psk n tls))"
proof -
  have display: "display_ok (rs_data (en_radio e))" "en_connState e \<in> {0..3}"
    using reachable_ok [OF assms] by (simp_all add: engine_ok_def)
  have "qk4_get_mode (Some e) vfo \<in> range mode_code"
    using display(1) unfolding mode_codes
    by (auto simp: qk4_get_mode_def validate_query_def engine_getMode_def getVfo_def display_ok_def arr2_get_def)
  moreover have "qk4_get_connection_state (Some e) \<in> range connection_code"
    using display(2) unfolding connection_codes
    by (simp add: qk4_get_connection_state_def validate_query_def connectionState_def)
  moreover have "pred_option (\<lambda>x. \<exists>err. snd x = error_code err) (snd (qk4_connect pf' env (Some e) host port psk n tls))"
    by (rule ensures_code [OF connect_codes]) auto
  ultimately show ?thesis using command_codes [of c "Some e"] by auto
qed

theorem interface_values_witness:
  "\<exists>e m. snd (run posix [Set_volume 0 200] (qk4_create None True (Some ()))) = Some (Some e) \<and>
     qk4_get_mode (Some e) 0 = mode_code m"
  by (rule example_run) (use interface_values [of posix None "[Set_volume 0 200]" True "Some ()"] in blast)

text \<open>
  C31. Three queries of the interface answer the same for ever: on every engine an application can get
  to, whatever the radio has reported, VFO B is in CW, the tuning rate is 100 Hz and the subreceiver off.
\<close>

theorem frozen_queries:
  assumes "opus_contract (pf_opus pf)" and "config = None \<or> (\<exists>c. config = Some c \<and> in_i32 (cfg_reconnect_max_attempts c))"
    and "snd (run pf steps (qk4_create config alloc opus)) = Some (Some e)"
  shows "qk4_get_mode (Some e) (vfo_code Vfo_B) = mode_code Mode_CW \<and> qk4_get_tuning_rate (Some e) vfo = 100 \<and>
    qk4_get_sub_on (Some e) = 0"
  using reachable_ok [OF assms]
  by (simp add: engine_ok_def qk4_get_mode_def qk4_get_tuning_rate_def qk4_get_sub_on_def validate_query_def engine_getMode_def
      engine_getTuningRate_def engine_getSubOn_def getVfo_def display_ok_def arr2_get_def)

theorem frozen_queries_witness:
  "\<exists>e. snd (run posix [Set_volume 0 200] (qk4_create None True (Some ()))) = Some (Some e) \<and>
     qk4_get_mode (Some e) (vfo_code Vfo_B) = mode_code Mode_CW"
  by (rule example_run) (use frozen_queries [of posix None "[Set_volume 0 200]" True "Some ()"] in blast)

end
