(* ===== verification/SpectrumProcessor.thy ===== *)
theory SpectrumProcessor
  imports Prelude Floats
begin

text \<open>
  The spectrum smoother (\<open>dsp/spectrum_processor.h\<close>, \<open>dsp/spectrum_processor.cpp\<close>). Each operation
  holds the one mutex from its first to its last access, so operations are atomic here. An array of
  \<open>count\<close> floats passed in is a list of that length. The facts: displayed values never exceed a power
  of two the input stays below, whatever the smoothing factor; the factor works opposite to its
  documentation; a NaN never leaves the average.
\<close>

section \<open>State and operations\<close>

definition MAX_BINS :: nat where "MAX_BINS = 4096"

definition SMOOTHING_ALPHA :: fval where "SMOOTHING_ALPHA = single (3 / 10)"

record spectrum =
  sp_current :: "fval list"
  sp_smoothed :: "fval list"
  sp_binCount :: nat
  sp_alpha :: fval
  sp_firstFrame :: bool

definition SpectrumProcessor_new :: spectrum where
  "SpectrumProcessor_new =
     \<lparr>sp_current = replicate MAX_BINS (Fin (- 120)), sp_smoothed = replicate MAX_BINS (Fin (- 120)),
      sp_binCount = 0, sp_alpha = SMOOTHING_ALPHA, sp_firstFrame = True\<rparr>"

text \<open>One step of the exponential moving average.\<close>

definition ema :: "fval \<Rightarrow> fval \<Rightarrow> fval \<Rightarrow> fval" where
  "ema alpha b old =
     add single (mul single alpha b) (mul single (sub single (Fin 1) alpha) old)"

text \<open>The reference level is not used.\<close>

definition sp_process :: "fval list \<Rightarrow> int \<Rightarrow> spectrum \<Rightarrow> spectrum" where
  "sp_process bins ref_level s0 =
     (let count = length bins in
      if count = 0 \<or> count > MAX_BINS then s0
      else
        let s = (if count \<noteq> sp_binCount s0 then s0\<lparr>sp_firstFrame := True, sp_binCount := count\<rparr> else s0);
            new = (if sp_firstFrame s then bins else map2 (ema (sp_alpha s)) bins (sp_smoothed s))
        in s\<lparr>sp_smoothed := new @ drop count (sp_smoothed s), sp_current := new @ drop count (sp_current s),
             sp_firstFrame := False\<rparr>)"

definition getProcessed :: "nat \<Rightarrow> spectrum \<Rightarrow> fval list" where
  "getProcessed max_count s = take (min (sp_binCount s) max_count) (sp_current s)"

definition getLastBinCount :: "spectrum \<Rightarrow> nat" where
  "getLastBinCount s = sp_binCount s"

definition setSmoothing :: "fval \<Rightarrow> spectrum \<Rightarrow> spectrum" where
  "setSmoothing alpha s = s\<lparr>sp_alpha := clampf alpha (Fin 0) (Fin 1)\<rparr>"

definition sp_reset :: "spectrum \<Rightarrow> spectrum" where
  "sp_reset s = s\<lparr>sp_firstFrame := True, sp_smoothed := replicate (length (sp_smoothed s)) (Fin (- 120)),
     sp_current := replicate (length (sp_current s)) (Fin (- 120))\<rparr>"

text \<open>The calls a client can make, in any order.\<close>

datatype sp_op = Process "fval list" int | Set_smoothing fval | Reset

primrec sp_step :: "sp_op \<Rightarrow> spectrum \<Rightarrow> spectrum" where
  "sp_step (Process bins ref_level) = sp_process bins ref_level"
| "sp_step (Set_smoothing alpha) = setSmoothing alpha"
| "sp_step Reset = sp_reset"

definition sp_run :: "sp_op list \<Rightarrow> spectrum \<Rightarrow> spectrum" where
  "sp_run = fold sp_step"

section \<open>The moving average\<close>

lemma rate_bound:
  assumes "single_ok a" "0 \<le> a" "a \<le> 1"
  obtains c where "sub single (Fin 1) (Fin a) = Fin c" "single_ok c" "0 \<le> c" "c \<le> 1" "a + c \<le> 1 + 1 / 2 ^ 25"
proof -
  have one: "single_ok 1" using representable_powi [of "-149" 0 128 24] by simp
  have "\<bar>1 - a\<bar> \<le> 1" using assms by simp
  from single_bound [OF this one] obtain c where
    c: "single (1 - a) = Fin c" "\<bar>c\<bar> \<le> 1" "0 \<le> 1 - a \<longrightarrow> 0 \<le> c" by metis
  have ok: "single_ok c" using c(1) unfolding single_def by (rule round_representable) simp
  have "a + c \<le> 1 + 1 / 2 ^ 25"
  proof (cases "1 - a = 0 \<or> a = 0")
    case True
    with c one show ?thesis by (auto simp: single_exact single_def round_to_def)
  next
    case False
    then have "ilog2 \<bar>1 - a\<bar> \<le> - 1" using assms by (intro ilog2_le) simp_all
    then have "last_bit 24 (- 149) (1 - a) \<le> - 24" by (simp add: last_bit_def)
    then have "(2 powi last_bit 24 (- 149) (1 - a) :: rat) \<le> 2 powi (- 24)" by (rule powi_le)
    moreover have "(2 powi (- 24) :: rat) / 2 = 1 / 2 ^ 25" by (simp add: power_int_def power_one_over)
    ultimately have "(2 powi last_bit 24 (- 149) (1 - a) :: rat) / 2 \<le> 1 / 2 ^ 25" by linarith
    moreover have "\<bar>c - (1 - a)\<bar> \<le> 2 powi last_bit 24 (- 149) (1 - a) / 2"
      using c(1) False unfolding single_def by (intro round_error) simp_all
    ultimately show ?thesis by linarith
  qed
  with c ok assms that show thesis by (simp add: sub_def)
qed

lemma ema_bound:
  assumes "single_ok a" "0 \<le> a" "a \<le> 1" "0 \<le> k" "k \<le> 127" "\<bar>b\<bar> \<le> 2 powi k" "\<bar>s\<bar> \<le> 2 powi k"
  obtains v where "ema (Fin a) (Fin b) (Fin s) = Fin v" "\<bar>v\<bar> \<le> 2 powi k"
proof -
  obtain c where c: "sub single (Fin 1) (Fin a) = Fin c" "single_ok c" "0 \<le> c" "c \<le> 1"
    "a + c \<le> 1 + 1 / 2 ^ 25"
    using rate_bound [OF assms(1-3)] by metis
  have prod: "\<exists>r. single (f * x) = Fin r \<and> \<bar>r\<bar> \<le> f * 2 powi k"
    if "single_ok f" "0 \<le> f" "f \<le> 1" "\<bar>x\<bar> \<le> 2 powi k" for f x
  proof -
    have "\<bar>f * x\<bar> \<le> f * 2 powi k" unfolding abs_mult using that by (intro mult_mono) simp_all
    moreover have "single_ok (f * 2 powi k)" using that assms(4,5) by (intro representable_mult_powi) simp_all
    ultimately show ?thesis using single_bound by metis
  qed
  from prod [OF assms(1-3,6)] prod [OF c(2-4) assms(7)] obtain r t where
    rt: "single (a * b) = Fin r" "\<bar>r\<bar> \<le> a * 2 powi k" "single (c * s) = Fin t" "\<bar>t\<bar> \<le> c * 2 powi k" by metis
  have "\<bar>r + t\<bar> \<le> a * 2 powi k + c * 2 powi k" using rt by linarith
  also have "\<dots> = 2 powi k * (a + c)" by (simp add: algebra_simps)
  also have "\<dots> \<le> 2 powi k * (1 + 1 / 2 ^ 25)" using c(5) by (intro mult_left_mono) simp_all
  finally obtain v where "single (r + t) = Fin v" "\<bar>v\<bar> \<le> 2 powi k"
    using assms(4,5) single_near_power [of "r + t" k] by auto
  with that show thesis by (simp add: ema_def c(1) rt(1,3))
qed

section \<open>What the display shows\<close>

text \<open>All stored values are finite and at most \<open>b\<close>; the factor is a float in [0, 1].\<close>

definition bounded_by :: "rat \<Rightarrow> fval \<Rightarrow> bool" where
  "bounded_by b v = (case v of Fin x \<Rightarrow> \<bar>x\<bar> \<le> b | _ \<Rightarrow> False)"

definition rate_ok :: "fval \<Rightarrow> bool" where
  "rate_ok v = (case v of Fin a \<Rightarrow> single_ok a \<and> 0 \<le> a \<and> a \<le> 1 | _ \<Rightarrow> False)"

definition spectrum_ok :: "rat \<Rightarrow> spectrum \<Rightarrow> bool" where
  "spectrum_ok b s \<longleftrightarrow>
     length (sp_smoothed s) = MAX_BINS \<and> length (sp_current s) = MAX_BINS \<and> sp_binCount s \<le> MAX_BINS \<and>
     rate_ok (sp_alpha s) \<and> list_all (bounded_by b) (sp_smoothed s) \<and> list_all (bounded_by b) (sp_current s)"

primrec op_ok :: "rat \<Rightarrow> sp_op \<Rightarrow> bool" where
  "op_ok b (Process bins ref_level) = list_all (bounded_by b) bins"
| "op_ok b (Set_smoothing alpha) = (is_single alpha \<and> alpha \<noteq> NaN)"
| "op_ok b Reset = True"

lemma ema_bounded:
  assumes "rate_ok a" "0 \<le> k" "k \<le> 127" "bounded_by (2 powi k) b" "bounded_by (2 powi k) s"
  shows "bounded_by (2 powi k) (ema a b s)"
proof -
  obtain x y z where v: "a = Fin x" "b = Fin y" "s = Fin z" "single_ok x" "0 \<le> x" "x \<le> 1"
    "\<bar>y\<bar> \<le> 2 powi k" "\<bar>z\<bar> \<le> 2 powi k"
    using assms(1,4,5) by (auto simp: rate_ok_def bounded_by_def split: fval.splits)
  from ema_bound [OF v(4-6) assms(2,3) v(7,8)] show ?thesis by (metis v(1-3) bounded_by_def fval.case(1))
qed

lemma list_all_map2:
  "(\<And>x y. P x \<Longrightarrow> Q y \<Longrightarrow> R (f x y)) \<Longrightarrow> list_all P xs \<Longrightarrow> list_all Q ys \<Longrightarrow> list_all R (map2 f xs ys)"
  by (fastforce simp: list_all_iff dest: set_zip_leftD set_zip_rightD)

lemma list_all_drop: "list_all P xs \<Longrightarrow> list_all P (drop n xs)"
  by (auto simp: list_all_iff dest: in_set_dropD)

lemma rate_ok_clampf: "is_single a \<Longrightarrow> a \<noteq> NaN \<Longrightarrow> rate_ok (clampf a (Fin 0) (Fin 1))"
  using representable_powi [of "-149" 0 128 24]
  by (cases a) (auto simp: clampf_def rate_ok_def is_single_def)

lemma spectrum_ok_process:
  assumes "spectrum_ok (2 powi k) s" "0 \<le> k" "k \<le> 127" "list_all (bounded_by (2 powi k)) bins"
  shows "spectrum_ok (2 powi k) (sp_process bins ref_level s)"
  using assms unfolding spectrum_ok_def sp_process_def
  by (auto simp: Let_def list_all_drop intro!: list_all_map2 [of "bounded_by (2 powi k)" "bounded_by (2 powi k)"] ema_bounded)

lemma spectrum_ok_step:
  assumes "spectrum_ok (2 powi k) s" "7 \<le> k" "k \<le> 127" "op_ok (2 powi k) c"
  shows "spectrum_ok (2 powi k) (sp_step c s)"
proof (cases c)
  case (Process bins ref_level)
  then show ?thesis using assms spectrum_ok_process by simp
next
  case (Set_smoothing alpha)
  then show ?thesis using assms by (simp add: spectrum_ok_def setSmoothing_def rate_ok_clampf)
next
  case Reset
  have "(2 powi 7 :: rat) \<le> 2 powi k" using assms(2) by (rule powi_le)
  then have "bounded_by (2 powi k) (Fin (- 120))" by (simp add: bounded_by_def power_int_def split: if_splits)
  then show ?thesis using Reset assms by (simp add: spectrum_ok_def sp_reset_def list_all_iff)
qed

lemma spectrum_ok_new:
  assumes "7 \<le> k"
  shows "spectrum_ok (2 powi k) SpectrumProcessor_new"
proof -
  have "(2 powi 7 :: rat) \<le> 2 powi k" using assms by (rule powi_le)
  then have "bounded_by (2 powi k) (Fin (- 120))" by (simp add: bounded_by_def power_int_def split: if_splits)
  moreover have "rate_ok SMOOTHING_ALPHA"
  proof -
    have "single (3 / 10) = Fin (5033165 / 2 ^ 24)" by code_simp
    moreover have "single_ok (5033165 / 2 ^ 24)"
      by (rule representableI [of _ 5033165 "-24"]) (simp_all add: power_int_def power_one_over)
    ultimately show ?thesis by (simp add: rate_ok_def SMOOTHING_ALPHA_def)
  qed
  ultimately show ?thesis by (simp add: spectrum_ok_def SpectrumProcessor_new_def list_all_iff)
qed

lemma spectrum_ok_run:
  "spectrum_ok (2 powi k) s \<Longrightarrow> 7 \<le> k \<Longrightarrow> k \<le> 127 \<Longrightarrow> list_all (op_ok (2 powi k)) ops \<Longrightarrow>
   spectrum_ok (2 powi k) (sp_run ops s)"
  by (induction ops arbitrary: s) (simp_all add: sp_run_def spectrum_ok_step)



section \<open>The smoothing factor and NaN\<close>

text \<open>The state while frames of \<open>n\<close> bins arrive and \<open>shown\<close> is displayed.\<close>

definition showing :: "fval list \<Rightarrow> spectrum \<Rightarrow> bool" where
  "showing shown s \<longleftrightarrow>
     \<not> sp_firstFrame s \<and> sp_binCount s = length shown \<and> length shown \<le> MAX_BINS \<and>
     length (sp_smoothed s) = MAX_BINS \<and> length (sp_current s) = MAX_BINS \<and>
     take (length shown) (sp_smoothed s) = shown \<and> take (length shown) (sp_current s) = shown"

lemma showing_getProcessed: "showing shown s \<Longrightarrow> getProcessed n s = take n shown"
  by (metis getProcessed_def min.commute showing_def take_take)

lemma showing_setSmoothing [simp]: "showing shown (setSmoothing a s) = showing shown s"
  by (simp add: showing_def setSmoothing_def)

lemma first_frame_shown:
  assumes "sp_firstFrame s \<or> length bins \<noteq> sp_binCount s" "bins \<noteq> []" "length bins \<le> MAX_BINS"
    "length (sp_smoothed s) = MAX_BINS" "length (sp_current s) = MAX_BINS"
  shows "showing bins (sp_process bins r s)" "sp_alpha (sp_process bins r s) = sp_alpha s"
  using assms by (auto simp: showing_def sp_process_def Let_def)

lemma map2_take: "length xs \<le> length ys \<Longrightarrow> map2 f xs ys = map2 f xs (take (length xs) ys)"
  by (intro nth_equalityI) simp_all

lemma frame_averaged:
  assumes "showing shown s" "length bins = length shown" "bins \<noteq> []"
  shows "showing (map2 (ema (sp_alpha s)) bins shown) (sp_process bins r s)"
    "sp_alpha (sp_process bins r s) = sp_alpha s"
proof -
  have "map2 (ema (sp_alpha s)) bins (sp_smoothed s) = map2 (ema (sp_alpha s)) bins shown"
    using assms map2_take [of bins "sp_smoothed s"] by (simp add: showing_def)
  with assms show "showing (map2 (ema (sp_alpha s)) bins shown) (sp_process bins r s)"
    by (simp add: showing_def sp_process_def Let_def)
  show "sp_alpha (sp_process bins r s) = sp_alpha s"
    using assms by (simp add: showing_def sp_process_def Let_def)
qed

lemma ema_extremes:
  assumes "finite_float b" "finite_float old"
  shows "ema (Fin 1) b old = b" "ema (Fin 0) b old = old"
  using assms by (auto simp: ema_def sub_def single_exact elim!: finite_floatE)

lemma map2_fst_snd:
  "length xs = length ys \<Longrightarrow> \<forall>x\<in>set xs. \<forall>y\<in>set ys. f x y = x \<Longrightarrow> map2 f xs ys = xs"
  "length xs = length ys \<Longrightarrow> \<forall>x\<in>set xs. \<forall>y\<in>set ys. f x y = y \<Longrightarrow> map2 f xs ys = ys"
  by (auto intro!: nth_equalityI)

lemma frames_at_one:
  assumes "showing shown s" "shown \<noteq> []" "list_all finite_float shown"
    "list_all (\<lambda>f. length f = length shown \<and> list_all finite_float f) fs" "sp_alpha s = Fin 1"
  shows "showing (last (shown # fs)) (sp_run (map (\<lambda>f. Process f r) fs) s)"
  using assms
proof (induction fs arbitrary: shown s)
  case (Cons f fs)
  have f: "length f = length shown" "f \<noteq> []" "list_all finite_float f" using Cons.prems(2,4) by auto
  have "map2 (ema (sp_alpha s)) f shown = f"
    using f Cons.prems(3,5) by (intro map2_fst_snd) (auto simp: list_all_iff ema_extremes)
  with frame_averaged [OF Cons.prems(1) f(1,2), of r] Cons.IH [of f "sp_process f r s"] f Cons.prems(4,5)
  show ?case by (simp add: sp_run_def)
qed (simp add: sp_run_def)

lemma frames_at_zero:
  assumes "showing shown s" "shown \<noteq> []" "list_all finite_float shown"
    "list_all (\<lambda>f. length f = length shown \<and> list_all finite_float f) fs" "sp_alpha s = Fin 0"
  shows "showing shown (sp_run (map (\<lambda>f. Process f r) fs) s)"
  using assms
proof (induction fs arbitrary: s)
  case (Cons f fs)
  have f: "length f = length shown" "f \<noteq> []" "list_all finite_float f" using Cons.prems(2,4) by auto
  have "map2 (ema (sp_alpha s)) f shown = shown"
    using f Cons.prems(3,5) by (intro map2_fst_snd) (auto simp: list_all_iff ema_extremes)
  with frame_averaged [OF Cons.prems(1) f(1,2), of r] Cons.IH [of "sp_process f r s"] Cons.prems(2-5)
  show ?case by (simp add: sp_run_def)
qed (simp add: sp_run_def)

text \<open>
  The smoothing factor works opposite to its documentation: with 1, documented as the maximum
  smoothing, every frame is shown exactly as it arrived; with 0, documented as no smoothing, the first
  frame stays on the display for ever.
\<close>

theorem smoothing_factor_reversed:
  assumes "list_all (\<lambda>g. length g = length f \<and> list_all finite_float g) (f # fs)"
    and "f \<noteq> []" and "length f \<le> MAX_BINS"
  shows "getProcessed n (sp_run (Set_smoothing (Fin 1) # map (\<lambda>g. Process g r) (f # fs)) SpectrumProcessor_new) =
       take n (last (f # fs)) \<and>
     getProcessed n (sp_run (Set_smoothing (Fin 0) # map (\<lambda>g. Process g r) (f # fs)) SpectrumProcessor_new) =
       take n f"
proof -
  define s where "s a = sp_process f r (setSmoothing (Fin a) SpectrumProcessor_new)" for a
  have s: "showing f (s a)" "sp_alpha (s a) = clampf (Fin a) (Fin 0) (Fin 1)" for a
    using assms(2,3) by (simp_all add: s_def first_frame_shown setSmoothing_def SpectrumProcessor_new_def)
  have "sp_run (Set_smoothing (Fin a) # map (\<lambda>g. Process g r) (f # fs)) SpectrumProcessor_new =
      sp_run (map (\<lambda>g. Process g r) fs) (s a)" for a
    by (simp add: sp_run_def s_def)
  with frames_at_one [OF s(1) assms(2), of fs 1] frames_at_zero [OF s(1) assms(2), of fs 0] assms(1) s(2)
  show ?thesis by (simp add: clampf_def showing_getProcessed)
qed

theorem smoothing_factor_reversed_witness:
  "getProcessed 1 (sp_run [Set_smoothing (Fin 0), Process [Fin 1] 0, Process [Fin 0] 0] SpectrumProcessor_new) = [Fin 1]"
  using smoothing_factor_reversed [of "[Fin 1]" "[[Fin 0]]" 1 0] representable_powi [of "-149" 0 128 24]
  by (simp add: MAX_BINS_def)

primrec same_count :: "nat \<Rightarrow> sp_op \<Rightarrow> bool" where
  "same_count n (Process bins r) = (length bins = n)"
| "same_count n (Set_smoothing a) = True"
| "same_count n Reset = False"

lemma nan_stays:
  assumes "showing shown s" "i < length shown" "shown ! i = NaN"
    "list_all (same_count (length shown)) ops"
  shows "\<exists>shown'. showing shown' (sp_run ops s) \<and> length shown' = length shown \<and> shown' ! i = NaN"
  using assms
proof (induction ops arbitrary: s shown)
  case (Cons c ops)
  show ?case
  proof (cases c)
    case (Process bins r)
    then have b: "length bins = length shown" "bins \<noteq> []" using Cons.prems(2,4) by auto
    let ?new = "map2 (ema (sp_alpha s)) bins shown"
    have "length ?new = length shown" "?new ! i = NaN"
      using Cons.prems(2,3) b by (simp_all add: ema_def)
    with b Cons.IH [of ?new "sp_process bins r s"] frame_averaged(1) [OF Cons.prems(1) b, of r] Cons.prems(2-4) Process
    show ?thesis by (simp add: sp_run_def)
  next
    case (Set_smoothing a)
    with Cons.IH [of shown "setSmoothing a s"] Cons.prems show ?thesis by (simp add: sp_run_def)
  next
    case Reset
    with Cons.prems(4) show ?thesis by simp
  qed
qed (auto simp: sp_run_def)

text \<open>
  A NaN bin never recovers: whatever frames of the same size follow, and whatever the smoothing
  factor is set to, the bin stays NaN until the smoother is reset or the bin count changes.
\<close>

theorem nan_bin_sticks:
  assumes "i < length bins" and "bins ! i = NaN" and "length bins \<le> MAX_BINS" and "i < n"
    and "list_all (same_count (length bins)) ops"
  shows "getProcessed n (sp_run (Process bins r # ops) SpectrumProcessor_new) ! i = NaN"
proof -
  have "showing bins (sp_process bins r SpectrumProcessor_new)"
    using assms(1,3) by (intro first_frame_shown) (auto simp: SpectrumProcessor_new_def)
  from nan_stays [OF this assms(1,2,5)] obtain shown' where
    "showing shown' (sp_run (Process bins r # ops) SpectrumProcessor_new)" "shown' ! i = NaN"
    by (auto simp: sp_run_def)
  with assms(4) show ?thesis by (simp add: showing_getProcessed)
qed

theorem nan_bin_sticks_witness:
  "getProcessed 2 (sp_run [Process [Fin 0, NaN] 0, Set_smoothing (Fin 1), Process [Fin 1, Fin 1] 0] SpectrumProcessor_new) ! 1 = NaN"
  by (rule nan_bin_sticks) (simp_all add: MAX_BINS_def)

end
