(* ===== verification/NrLms.thy ===== *)
theory NrLms
  imports Prelude Floats
begin

text \<open>
  The adaptive noise filter (\<open>dsp/nr_lms.h\<close>, \<open>dsp/nr_lms.cpp\<close>) with the code's single-precision
  operations, in its order of evaluation. Index arithmetic is in \<open>nat\<close>: \<open>(i - j + taps) % taps\<close> with
  \<open>i < taps\<close> and \<open>j \<le> taps\<close> never goes below zero. The facts: indices stay in range
  and stored samples finite; a filter
  starts with half its length of silence; the filter that cancels every signal is a fixed point.
\<close>

section \<open>State and operations\<close>

record nr_lms =
  nl_enabled :: bool
  nl_level :: int
  nl_taps :: nat
  nl_mu :: fval
  nl_weights :: "fval list"
  nl_delayLine :: "fval list"
  nl_delayIndex :: nat

text \<open>40 to 112 taps; the step size is \<open>0.005f + level * 0.003f\<close>.\<close>

definition lms_taps :: "int \<Rightarrow> nat" where
  "lms_taps level = nat (32 + level * 8)"

definition lms_mu :: "int \<Rightarrow> fval" where
  "lms_mu level = add single (single (5 / 1000)) (mul single (Fin (of_int level)) (single (3 / 1000)))"

definition lms_setLevel :: "int \<Rightarrow> nr_lms \<Rightarrow> nr_lms" where
  "lms_setLevel level s =
     (let l = clamp level 1 10
      in s\<lparr>nl_level := l, nl_taps := lms_taps l, nl_mu := lms_mu l,
           nl_weights := replicate (lms_taps l) (Fin 0), nl_delayLine := replicate (lms_taps l) (Fin 0),
           nl_delayIndex := 0\<rparr>)"

definition NrLms_new :: nr_lms where
  "NrLms_new = lms_setLevel 5
     \<lparr>nl_enabled = False, nl_level = 5, nl_taps = 64, nl_mu = single (1 / 100), nl_weights = [],
      nl_delayLine = [], nl_delayIndex = 0\<rparr>"

definition lms_setEnabled :: "bool \<Rightarrow> nr_lms \<Rightarrow> nr_lms" where
  "lms_setEnabled enabled s = s\<lparr>nl_enabled := enabled\<rparr>"

definition lms_isEnabled :: "nr_lms \<Rightarrow> bool" where
  "lms_isEnabled s = nl_enabled s"

definition lms_reset :: "nr_lms \<Rightarrow> nr_lms" where
  "lms_reset s = s\<lparr>nl_weights := replicate (length (nl_weights s)) (Fin 0),
     nl_delayLine := replicate (length (nl_delayLine s)) (Fin 0), nl_delayIndex := 0\<rparr>"

text \<open>The delay line as the loops see it: its entry \<open>j\<close> is the input \<open>j\<close> samples ago.\<close>

definition tap_index :: "nat \<Rightarrow> nat \<Rightarrow> nat \<Rightarrow> nat" where
  "tap_index taps i j = (i + taps - j) mod taps"

definition estimate :: "fval list \<Rightarrow> fval list \<Rightarrow> nat \<Rightarrow> nat \<Rightarrow> fval" where
  "estimate weights line taps i =
     fold (\<lambda>j acc. add single acc (mul single (weights ! j) (line ! tap_index taps i j))) [0..<taps] (Fin 0)"

definition adapt :: "fval \<Rightarrow> fval \<Rightarrow> fval list \<Rightarrow> fval list \<Rightarrow> nat \<Rightarrow> nat \<Rightarrow> fval list" where
  "adapt normFactor err weights line taps i =
     map (\<lambda>j. add single (weights ! j) (mul single (mul single normFactor err) (line ! tap_index taps i j))) [0..<taps]"

definition norm_factor :: "fval \<Rightarrow> nat \<Rightarrow> fval" where
  "norm_factor mu taps = quot single mu (add single (Fin 1) (mul single mu (Fin (of_nat taps))))"

definition processSample :: "fval \<Rightarrow> nr_lms \<Rightarrow> nr_lms \<times> fval" where
  "processSample input s =
     (let taps = nl_taps s; i = nl_delayIndex s;
          line = (nl_delayLine s)[i := input];
          estimated = estimate (nl_weights s) line taps i;
          desired = line ! tap_index taps i (taps div 2);
          err = sub single desired estimated
      in (s\<lparr>nl_delayLine := line, nl_weights := adapt (norm_factor (nl_mu s) taps) err (nl_weights s) line taps i,
            nl_delayIndex := (i + 1) mod taps\<rparr>, err))"

primrec lms_loop :: "int list \<Rightarrow> nr_lms \<Rightarrow> (nr_lms \<times> int list) option" where
  "lms_loop [] s = Some (s, [])"
| "lms_loop (x # xs) s =
     (case processSample (pcm_to_float x) s of (s', out) \<Rightarrow>
       (case float_to_pcm out of
          None \<Rightarrow> None
        | Some y \<Rightarrow> map_option (\<lambda>(s'', ys). (s'', y # ys)) (lms_loop xs s')))"

text \<open>The samples are a list of length \<open>count\<close>.\<close>

definition lms_process :: "int list \<Rightarrow> nr_lms \<Rightarrow> (nr_lms \<times> int list) option" where
  "lms_process samples s =
     (if \<not> nl_enabled s \<or> samples = [] then Some (s, samples) else lms_loop samples s)"

section \<open>The invariant\<close>

text \<open>Buffers have the length of the filter, the index points into them, and what is stored is finite.\<close>

definition lms_ok :: "nr_lms \<Rightarrow> bool" where
  "lms_ok s \<longleftrightarrow> nl_level s \<in> {1..10} \<and> nl_taps s = lms_taps (nl_level s) \<and> nl_mu s = lms_mu (nl_level s) \<and>
     length (nl_weights s) = nl_taps s \<and> length (nl_delayLine s) = nl_taps s \<and> nl_delayIndex s < nl_taps s \<and>
     list_all finite_float (nl_delayLine s)"

lemma lms_taps_range: "l \<in> {1..10} \<Longrightarrow> 40 \<le> lms_taps l \<and> lms_taps l \<le> 112 \<and> even (lms_taps l)"
  by (auto simp: lms_taps_def even_nat_iff)

lemma tap_index_less [simp]: "0 < taps \<Longrightarrow> tap_index taps i j < taps"
  by (simp add: tap_index_def)

lemma lms_setLevel_ok [simp]: "lms_ok (lms_setLevel level s)"
proof -
  have "clamp level 1 10 \<in> {1..10}" by (simp add: clamp_def)
  then show ?thesis using lms_taps_range [of "clamp level 1 10"]
    by (simp add: lms_ok_def lms_setLevel_def Let_def list_all_iff)
qed

lemma lms_new_ok: "lms_ok NrLms_new"
  by (simp add: NrLms_new_def)

lemma lms_reset_ok [simp]: "lms_ok s \<Longrightarrow> lms_ok (lms_reset s)"
  by (auto simp: lms_ok_def lms_reset_def list_all_iff)

lemma lms_setEnabled_ok [simp]: "lms_ok (lms_setEnabled b s) = lms_ok s"
  by (simp add: lms_ok_def lms_setEnabled_def)

lemma list_all_update: "list_all P xs \<Longrightarrow> P x \<Longrightarrow> list_all P (xs[i := x])"
  by (auto simp: list_all_iff dest: set_update_subset_insert [THEN subsetD])

lemma processSample_ok:
  assumes "lms_ok s" "finite_float x"
  shows "lms_ok (fst (processSample x s))"
  using assms by (auto simp: lms_ok_def processSample_def Let_def adapt_def list_all_update)

lemma norm_factor_finite:
  assumes "l \<in> {1..10}"
  obtains r where "norm_factor (lms_mu l) (lms_taps l) = Fin r"
proof -
  have l: "0 \<le> (of_int l :: rat)" "(of_int l :: rat) \<le> 10" using assms by simp_all
  obtain a where a: "single (1 / 200) = Fin a" "0 \<le> a" "a \<le> of_nat 1" by (rule single_nat_bound [of "1 / 200" 1]) simp_all
  obtain b where b: "single (3 / 1000) = Fin b" "0 \<le> b" "b \<le> of_nat 1" by (rule single_nat_bound [of "3 / 1000" 1]) simp_all
  have "0 \<le> of_int l * b" "of_int l * b \<le> 10 * 1" using l b by (auto intro!: mult_mono simp del: mult_1_right)
  then obtain c where c: "single (of_int l * b) = Fin c" "0 \<le> c" "c \<le> of_nat 10"
    using single_nat_bound [of "of_int l * b" 10] by auto
  obtain m where m: "single (a + c) = Fin m" "0 \<le> m" "m \<le> of_nat 11"
    using single_nat_bound [of "a + c" 11] a c by auto
  define t where "t = (of_nat (lms_taps l) :: rat)"
  have t: "0 \<le> t" "t \<le> 112" using lms_taps_range [OF assms] by (simp_all add: t_def)
  have "m * t \<le> 11 * 112" using m t by (intro mult_mono) simp_all
  moreover have "0 \<le> m * t" using m t by simp
  ultimately obtain q where q: "single (m * t) = Fin q" "0 \<le> q" "q \<le> of_nat 1232"
    using single_nat_bound [of "m * t" 1232] by auto
  obtain d where d: "single (1 + q) = Fin d" "0 \<le> d" "d \<le> of_nat 1233"
    using single_nat_bound [of "1 + q" 1233] q by auto
  have d2: "1 / 2 \<le> d" using single_half [OF _ d(1)] q by simp
  have "0 \<le> m / d" "m / d \<le> 22" using m d2 by (simp_all add: divide_le_eq)
  then obtain r where "single (m / d) = Fin r" using single_nat_bound [of "m / d" 22] by auto
  then show thesis using that d2 by (simp add: norm_factor_def lms_mu_def a b c m q d t_def [symmetric])
qed

section \<open>Silence\<close>

lemma fold_zero_weights:
  assumes "\<forall>j \<in> set js. w j = Fin 0 \<and> finite_float (x j)" "finite_float acc"
  shows "fold (\<lambda>j acc. add single acc (mul single (w j) (x j))) js acc = acc"
  using assms by (induction js) simp_all

lemma adapt_zero:
  assumes "list_all finite_float line" "length line = taps" "0 < taps" "length w = taps"
    "list_all finite_float w"
  shows "adapt (Fin r) (Fin 0) w line taps i = w"
  using assms by (auto simp: adapt_def list_all_length intro!: nth_equalityI)

text \<open>A step in which the estimate equals the desired sample.\<close>

lemma processSample_cancels:
  assumes "lms_ok s" "finite_float x" "list_all finite_float (nl_weights s)"
    "estimate (nl_weights s) ((nl_delayLine s)[nl_delayIndex s := x]) (nl_taps s) (nl_delayIndex s) =
      (nl_delayLine s)[nl_delayIndex s := x] ! tap_index (nl_taps s) (nl_delayIndex s) (nl_taps s div 2)"
  shows "processSample x s = (s\<lparr>nl_delayLine := (nl_delayLine s)[nl_delayIndex s := x],
     nl_delayIndex := (nl_delayIndex s + 1) mod nl_taps s\<rparr>, Fin 0)"
proof -
  let ?line = "(nl_delayLine s)[nl_delayIndex s := x]"
  obtain r where r: "norm_factor (nl_mu s) (nl_taps s) = Fin r"
    using norm_factor_finite assms(1) unfolding lms_ok_def by metis
  have line: "list_all finite_float ?line" "length ?line = nl_taps s" "0 < nl_taps s"
    using assms(1,2) by (auto simp: lms_ok_def list_all_update)
  then have "finite_float (?line ! tap_index (nl_taps s) (nl_delayIndex s) (nl_taps s div 2))"
    by (simp add: list_all_length)
  moreover have "length (nl_weights s) = nl_taps s" using assms(1) by (simp add: lms_ok_def)
  ultimately show ?thesis using assms(3,4) line r
    by (simp add: processSample_def Let_def adapt_zero [OF line(1,2,3)])
qed

section \<open>How a filter starts\<close>

text \<open>After \<open>n\<close> samples, the first of them \<open>z\<close>: no weight has moved and the rest of the line is empty.\<close>

definition quiet :: "nat \<Rightarrow> fval \<Rightarrow> nr_lms \<Rightarrow> bool" where
  "quiet n z s \<longleftrightarrow> lms_ok s \<and> nl_weights s = replicate (nl_taps s) (Fin 0) \<and> nl_delayIndex s = n \<and>
     (\<forall>k. n \<le> k \<longrightarrow> k < nl_taps s \<longrightarrow> nl_delayLine s ! k = Fin 0) \<and> (0 < n \<longrightarrow> nl_delayLine s ! 0 = z)"

lemma estimate_zero_weights:
  assumes "list_all finite_float line" "length line = taps" "0 < taps"
  shows "estimate (replicate taps (Fin 0)) line taps i = Fin 0"
  unfolding estimate_def using assms by (intro fold_zero_weights) (auto simp: list_all_length)

lemma tap_index_half:
  assumes "even taps" "i \<le> taps div 2" "0 < taps"
  shows "tap_index taps i (taps div 2) = (if i = taps div 2 then 0 else i + taps div 2)"
  using assms by (auto elim!: evenE simp: tap_index_def)

lemma quiet_step:
  assumes "quiet n z s" "finite_float x" "n < nl_taps s div 2" "n = 0 \<longrightarrow> x = z"
  shows "snd (processSample x s) = Fin 0" "quiet (Suc n) z (fst (processSample x s))"
    "nl_taps (fst (processSample x s)) = nl_taps s"
proof -
  have ok: "lms_ok s" and w: "nl_weights s = replicate (nl_taps s) (Fin 0)" and i: "nl_delayIndex s = n"
    and line: "length (nl_delayLine s) = nl_taps s" "list_all finite_float (nl_delayLine s)"
    and taps: "even (nl_taps s)" "0 < nl_taps s"
    using assms(1) lms_taps_range unfolding quiet_def lms_ok_def by auto
  have "estimate (nl_weights s) ((nl_delayLine s)[n := x]) (nl_taps s) n = Fin 0"
    using estimate_zero_weights [of "(nl_delayLine s)[n := x]" "nl_taps s" n] line taps assms(2)
    by (simp add: w list_all_update)
  moreover have "(nl_delayLine s)[n := x] ! tap_index (nl_taps s) n (nl_taps s div 2) = Fin 0"
    using assms(1,3) taps by (simp add: tap_index_half quiet_def)
  ultimately have p: "processSample x s = (s\<lparr>nl_delayLine := (nl_delayLine s)[n := x],
      nl_delayIndex := (n + 1) mod nl_taps s\<rparr>, Fin 0)"
    using processSample_cancels [OF ok assms(2)] w i by (simp add: list_all_iff)
  have "n + 1 < nl_taps s" using assms(3) by simp
  then show "snd (processSample x s) = Fin 0" "nl_taps (fst (processSample x s)) = nl_taps s"
    "quiet (Suc n) z (fst (processSample x s))"
    using processSample_ok [OF ok assms(2)] assms w line by (auto simp: p quiet_def nth_list_update)
qed

lemma quiet_loop:
  assumes "quiet n z s" "list_all is_i16 xs" "n + length xs \<le> nl_taps s div 2"
    "n = 0 \<longrightarrow> xs \<noteq> [] \<longrightarrow> pcm_to_float (hd xs) = z"
  shows "\<exists>s'. lms_loop xs s = Some (s', replicate (length xs) 0) \<and> quiet (n + length xs) z s' \<and>
     nl_taps s' = nl_taps s"
  using assms
proof (induction xs arbitrary: n s)
  case (Cons x xs)
  have x: "finite_float (pcm_to_float x)" using Cons.prems(2) by simp
  have n: "n < nl_taps s div 2" using Cons.prems(3) by simp
  have z: "n = 0 \<longrightarrow> pcm_to_float x = z" using Cons.prems(4) by simp
  note step = quiet_step [OF Cons.prems(1) x n z]
  obtain s1 where s1: "processSample (pcm_to_float x) s = (s1, Fin 0)" "quiet (Suc n) z s1" "nl_taps s1 = nl_taps s"
    using step by (metis prod.collapse)
  with Cons.IH [OF s1(2)] Cons.prems(2,3) show ?case by auto
qed auto

lemma quiet_setLevel: "quiet 0 z (lms_setEnabled True (lms_setLevel level s))"
  using lms_setLevel_ok [of level s]
  by (simp add: quiet_def lms_setLevel_def lms_setEnabled_def lms_ok_def Let_def)

lemma lms_loop_append:
  "lms_loop (xs @ ys) s = (case lms_loop xs s of
     None \<Rightarrow> None
   | Some (s1, as) \<Rightarrow> map_option (\<lambda>(s2, bs). (s2, as @ bs)) (lms_loop ys s1))"
  by (induction xs arbitrary: s)
    (auto split: option.split prod.split simp: option.map_comp option.map_ident comp_def case_prod_unfold)

text \<open>
  A filter whose level has just been set answers its first \<open>taps / 2\<close> samples with silence and has
  learned nothing from them; the next sample it returns is the first it was given.
\<close>

theorem lms_starts_silent:
  assumes "list_all is_i16 (x # xs @ [y])" and "Suc (length xs) = lms_taps (clamp level 1 10) div 2"
  shows "\<exists>s' out. lms_process (x # xs @ [y]) (lms_setEnabled True (lms_setLevel level s)) =
       Some (s', replicate (lms_taps (clamp level 1 10) div 2) 0 @ [out]) \<and>
     float_to_pcm (pcm_to_float x) = Some out"
proof -
  let ?s = "lms_setEnabled True (lms_setLevel level s)"
  define h where "h = lms_taps (clamp level 1 10) div 2"
  have taps: "nl_taps ?s div 2 = h" by (simp add: h_def lms_setEnabled_def lms_setLevel_def Let_def)
  obtain s1 where s1: "lms_loop (x # xs) ?s = Some (s1, replicate h 0)" "quiet h (pcm_to_float x) s1"
    "nl_taps s1 = nl_taps ?s"
    using quiet_loop [OF quiet_setLevel [of "pcm_to_float x" level s], of "x # xs"] assms taps by (auto simp: h_def)
  have ok: "lms_ok s1" and w: "nl_weights s1 = replicate (nl_taps s1) (Fin 0)" and i: "nl_delayIndex s1 = h"
    and line: "length (nl_delayLine s1) = nl_taps s1" "list_all finite_float (nl_delayLine s1)"
    and even: "even (nl_taps s1)" "40 \<le> nl_taps s1"
    using s1(2) lms_taps_range unfolding quiet_def lms_ok_def by auto
  have h: "nl_taps s1 div 2 = h" "0 < h" using s1(3) taps even by auto
  have y: "finite_float (pcm_to_float y)" and x: "finite_float (pcm_to_float x)" using assms(1) by simp_all
  have "tap_index (nl_taps s1) h (nl_taps s1 div 2) = 0" using tap_index_half [of "nl_taps s1" h] even h by simp
  moreover have "nl_delayLine s1 ! 0 = pcm_to_float x" using s1(2) h by (simp add: quiet_def)
  moreover have "estimate (nl_weights s1) ((nl_delayLine s1)[h := pcm_to_float y]) (nl_taps s1) h = Fin 0"
    using estimate_zero_weights [of "(nl_delayLine s1)[h := pcm_to_float y]" "nl_taps s1" h] line even y
    by (simp add: w list_all_update)
  ultimately have out: "snd (processSample (pcm_to_float y) s1) = pcm_to_float x"
    using h x by (simp add: processSample_def Let_def i)
  have "is_i16 x" using assms(1) by simp
  then obtain out where o: "float_to_pcm (pcm_to_float x) = Some out"
    using float_to_pcm_defined [OF pcm_range] pcm_to_float_exact(1) by metis
  have "lms_loop ((x # xs) @ [y]) ?s = Some (fst (processSample (pcm_to_float y) s1), replicate h 0 @ [out])"
    unfolding lms_loop_append s1(1) using out o by (auto split: prod.split)
  then have "lms_process (x # xs @ [y]) ?s = Some (fst (processSample (pcm_to_float y) s1), replicate h 0 @ [out])"
    by (simp add: lms_process_def lms_setEnabled_def del: lms_loop.simps)
  with o show ?thesis unfolding h_def by blast
qed

theorem lms_starts_silent_witness:
  "\<exists>s'. lms_process (100 # replicate 19 7 @ [-5]) (lms_setEnabled True (lms_setLevel 0 NrLms_new)) =
     Some (s', replicate 20 0 @ [99])"
proof -
  have "float_to_pcm (pcm_to_float 100) = Some 99" by code_simp
  with lms_starts_silent [of 100 "replicate 19 7" "-5" 0 NrLms_new] show ?thesis
    by (simp add: is_i16_def lms_taps_def clamp_def list_all_iff)
qed

section \<open>The filter that hears nothing\<close>

text \<open>All weight on the tap that holds the desired sample.\<close>

definition cancelling :: "nr_lms \<Rightarrow> bool" where
  "cancelling s \<longleftrightarrow> lms_ok s \<and> nl_weights s = (replicate (nl_taps s) (Fin 0))[nl_taps s div 2 := Fin 1]"

lemma estimate_cancelling:
  assumes "list_all finite_float line" "length line = taps" "0 < taps"
  shows "estimate ((replicate taps (Fin 0))[taps div 2 := Fin 1]) line taps i = line ! tap_index taps i (taps div 2)"
proof -
  let ?w = "(replicate taps (Fin 0))[taps div 2 := Fin 1]"
  let ?step = "\<lambda>j acc. add single acc (mul single (?w ! j) (line ! tap_index taps i j))"
  have fin: "finite_float (line ! tap_index taps i j)" for j using assms by (simp add: list_all_length)
  have "[0..<taps] = [0..<taps div 2] @ (taps div 2) # [Suc (taps div 2)..<taps]"
    using upt_add_eq_append [of 0 "taps div 2" "taps - taps div 2"] assms(3)
    by (simp add: upt_conv_Cons)
  moreover have "fold ?step [0..<taps div 2] (Fin 0) = Fin 0"
    using fin by (intro fold_zero_weights) (auto simp: nth_list_update)
  moreover have "?step (taps div 2) (Fin 0) = line ! tap_index taps i (taps div 2)"
    using fin assms(3) by simp
  moreover have "fold ?step [Suc (taps div 2)..<taps] (line ! tap_index taps i (taps div 2)) =
      line ! tap_index taps i (taps div 2)"
    using fin by (intro fold_zero_weights) (auto simp: nth_list_update)
  ultimately show ?thesis by (simp add: estimate_def)
qed

lemma cancelling_step:
  assumes "cancelling s" "finite_float x"
  shows "snd (processSample x s) = Fin 0" "cancelling (fst (processSample x s))"
    "nl_enabled (fst (processSample x s)) = nl_enabled s"
proof -
  have ok: "lms_ok s" and w: "nl_weights s = (replicate (nl_taps s) (Fin 0))[nl_taps s div 2 := Fin 1]"
    using assms(1) by (simp_all add: cancelling_def)
  let ?line = "(nl_delayLine s)[nl_delayIndex s := x]"
  have "list_all finite_float ?line" "length ?line = nl_taps s" "0 < nl_taps s"
    using ok assms(2) by (auto simp: lms_ok_def list_all_update)
  moreover have "list_all finite_float (nl_weights s)"
    by (auto simp: w list_all_iff dest: set_update_subset_insert [THEN subsetD])
  ultimately have p: "processSample x s = (s\<lparr>nl_delayLine := ?line,
      nl_delayIndex := (nl_delayIndex s + 1) mod nl_taps s\<rparr>, Fin 0)"
    using processSample_cancels [OF ok assms(2)] estimate_cancelling [of ?line "nl_taps s"] w by simp
  then show "snd (processSample x s) = Fin 0" "nl_enabled (fst (processSample x s)) = nl_enabled s" by simp_all
  show "cancelling (fst (processSample x s))"
    using processSample_ok [OF ok assms(2)] w by (simp add: cancelling_def p)
qed

lemma cancelling_loop:
  assumes "cancelling s" "list_all is_i16 xs"
  shows "\<exists>s'. lms_loop xs s = Some (s', replicate (length xs) 0) \<and> cancelling s' \<and> nl_enabled s' = nl_enabled s"
  using assms
proof (induction xs arbitrary: s)
  case (Cons x xs)
  have "finite_float (pcm_to_float x)" using Cons.prems(2) by simp
  note step = cancelling_step [OF Cons.prems(1) this]
  obtain s1 where s1: "processSample (pcm_to_float x) s = (s1, Fin 0)" "cancelling s1" "nl_enabled s1 = nl_enabled s"
    using step by (metis prod.collapse)
  with Cons.IH [OF s1(2)] Cons.prems(2) show ?case by auto
qed simp

text \<open>
  C36. The sample the filter is to predict is itself among the samples it predicts from, so there is a
  setting of the weights with no error at all: from it every signal, of any length, comes out as
  silence and the weights never move again. The delay meant to decorrelate the two does not.
\<close>

theorem lms_can_cancel_everything:
  assumes "cancelling s" and "nl_enabled s" and "list_all is_i16 samples"
  shows "\<exists>s'. lms_process samples s = Some (s', replicate (length samples) 0) \<and> cancelling s' \<and> nl_enabled s'"
proof (cases "samples = []")
  case False
  then show ?thesis using cancelling_loop [OF assms(1,3)] assms(2) by (simp add: lms_process_def)
qed (use assms in \<open>simp add: lms_process_def\<close>)

definition cancelling_filter :: nr_lms where
  "cancelling_filter = (lms_setEnabled True NrLms_new)\<lparr>nl_weights := (replicate 72 (Fin 0))[36 := Fin 1]\<rparr>"

theorem lms_can_cancel_everything_witness:
  "\<exists>s'. lms_process [1000, -32768, 32767] cancelling_filter = Some (s', [0, 0, 0]) \<and> cancelling s'"
proof -
  have "nl_taps cancelling_filter = 72" "lms_ok cancelling_filter" "nl_enabled cancelling_filter"
    using lms_new_ok by (simp_all add: cancelling_filter_def lms_ok_def NrLms_new_def lms_setLevel_def
        lms_setEnabled_def Let_def lms_taps_def clamp_def)
  then show ?thesis
    using lms_can_cancel_everything [of cancelling_filter "[1000, -32768, 32767]"]
    by (simp add: cancelling_def is_i16_def numeral_3_eq_3) (auto simp: cancelling_filter_def)
qed

end
