(* ===== verification/NrSsnr.thy ===== *)
theory NrSsnr
  imports Prelude Floats
begin

text \<open>
  Spectral subtraction (\<open>dsp/nr_ssnr.h\<close>, \<open>dsp/nr_ssnr.cpp\<close>) with the code's float and double
  operations in their order; the functions of \<open><cmath>\<close> are parameters, about which nothing is assumed.
  The facts: positions and buffer lengths stay in range, and the overlap-add puts every frame at the
  same place, so that the halves of successive frames are not the ones that overlap.
\<close>

section \<open>State\<close>

definition FFT_SIZE :: nat where "FFT_SIZE = 256"
definition HOP_SIZE :: nat where "HOP_SIZE = FFT_SIZE div 2"

text \<open>\<open>std::cos\<close> for double, and the overloads for float.\<close>

record cmath =
  cos_d :: "fval \<Rightarrow> fval"
  cos_f :: "fval \<Rightarrow> fval"
  sin_f :: "fval \<Rightarrow> fval"
  sqrt_f :: "fval \<Rightarrow> fval"
  atan2_f :: "fval \<Rightarrow> fval \<Rightarrow> fval"

text \<open>\<open>m_outputBuffer\<close> is allocated and never used; it is left out.\<close>

record nr_ssnr =
  ss_enabled :: bool
  ss_level :: int
  ss_overSubtraction :: fval
  ss_noiseFloorSmoothing :: fval
  ss_spectralFloor :: fval
  ss_inputBuffer :: "fval list"
  ss_window :: "fval list"
  ss_noiseEstimate :: "fval list"
  ss_fftReal :: "fval list"
  ss_fftImag :: "fval list"
  ss_overlapAdd :: "fval list"
  ss_inputPos :: nat
  ss_outputPos :: nat
  ss_noiseEstimated :: bool
  ss_noiseFrameCount :: nat

section \<open>Set-up\<close>

text \<open>\<open>0.5f * (1.0f - cos(2.0f * M_PI * i / (FFT_SIZE - 1)))\<close>, a double stored as float.\<close>

definition hann :: "cmath \<Rightarrow> nat \<Rightarrow> fval" where
  "hann lm i = convert single (mul double (Fin (1 / 2)) (sub double (Fin 1)
     (cos_d lm (quot double (mul double (mul double (Fin 2) M_PI) (Fin (of_nat i))) (Fin (of_nat (FFT_SIZE - 1)))))))"

definition initWindow :: "cmath \<Rightarrow> nr_ssnr \<Rightarrow> nr_ssnr" where
  "initWindow lm s = s\<lparr>ss_window := map (hann lm) [0..<FFT_SIZE]\<rparr>"

definition ssnr_setLevel :: "int \<Rightarrow> nr_ssnr \<Rightarrow> nr_ssnr" where
  "ssnr_setLevel level s =
     (let l = clamp level 1 10; lf = Fin (of_int l);
          floor = sub single (single (2 / 100)) (mul single lf (single (1 / 1000)))
      in s\<lparr>ss_level := l,
           ss_overSubtraction := add single (Fin 1) (mul single lf (single (4 / 10))),
           ss_spectralFloor := (if less floor (single (5 / 1000)) then single (5 / 1000) else floor)\<rparr>)"

definition NrSsnr_new :: "cmath \<Rightarrow> nr_ssnr" where
  "NrSsnr_new lm = ssnr_setLevel 5 (initWindow lm
     \<lparr>ss_enabled = False, ss_level = 5, ss_overSubtraction = Fin 2, ss_noiseFloorSmoothing = single (98 / 100),
      ss_spectralFloor = single (1 / 100), ss_inputBuffer = replicate FFT_SIZE (Fin 0),
      ss_window = replicate FFT_SIZE (Fin 0), ss_noiseEstimate = replicate (FFT_SIZE div 2 + 1) (Fin 0),
      ss_fftReal = replicate FFT_SIZE (Fin 0), ss_fftImag = replicate FFT_SIZE (Fin 0),
      ss_overlapAdd = replicate FFT_SIZE (Fin 0), ss_inputPos = 0, ss_outputPos = 0,
      ss_noiseEstimated = False, ss_noiseFrameCount = 0\<rparr>)"

definition ssnr_setEnabled :: "bool \<Rightarrow> nr_ssnr \<Rightarrow> nr_ssnr" where
  "ssnr_setEnabled enabled s = s\<lparr>ss_enabled := enabled\<rparr>"

definition ssnr_isEnabled :: "nr_ssnr \<Rightarrow> bool" where
  "ssnr_isEnabled s = ss_enabled s"

definition ssnr_reset :: "nr_ssnr \<Rightarrow> nr_ssnr" where
  "ssnr_reset s = s\<lparr>ss_inputBuffer := replicate (length (ss_inputBuffer s)) (Fin 0),
     ss_overlapAdd := replicate (length (ss_overlapAdd s)) (Fin 0),
     ss_noiseEstimate := replicate (length (ss_noiseEstimate s)) (Fin 0),
     ss_inputPos := 0, ss_outputPos := 0, ss_noiseEstimated := False, ss_noiseFrameCount := 0\<rparr>"

section \<open>The transforms\<close>

text \<open>\<open>float angle = c * M_PI * k * n / N\<close>, with \<open>c\<close> 2 or -2.\<close>

definition angle :: "rat \<Rightarrow> nat \<Rightarrow> nat \<Rightarrow> fval" where
  "angle c k n = convert single (quot double (mul double (mul double (mul double (Fin c) M_PI)
     (Fin (of_nat k))) (Fin (of_nat n))) (Fin (of_nat FFT_SIZE)))"

definition dft_sum :: "(fval \<Rightarrow> fval) \<Rightarrow> fval list \<Rightarrow> nat \<Rightarrow> fval" where
  "dft_sum trig input k =
     fold (\<lambda>n acc. add single acc (mul single (input ! n) (trig (angle (- 2) k n)))) [0..<FFT_SIZE] (Fin 0)"

text \<open>Only the bins up to \<open>N / 2\<close> are written; the rest of both arrays is kept.\<close>

definition fftForward :: "cmath \<Rightarrow> fval list \<Rightarrow> fval list \<Rightarrow> fval list \<Rightarrow> fval list \<times> fval list" where
  "fftForward lm input re im =
     (map (dft_sum (cos_f lm) input) [0..<FFT_SIZE div 2 + 1] @ drop (FFT_SIZE div 2 + 1) re,
      map (dft_sum (sin_f lm) input) [0..<FFT_SIZE div 2 + 1] @ drop (FFT_SIZE div 2 + 1) im)"

definition contribution :: "cmath \<Rightarrow> fval list \<Rightarrow> fval list \<Rightarrow> nat \<Rightarrow> nat \<Rightarrow> fval" where
  "contribution lm re im n k =
     sub single (mul single (re ! k) (cos_f lm (angle 2 k n))) (mul single (im ! k) (sin_f lm (angle 2 k n)))"

definition fftInverse :: "cmath \<Rightarrow> fval list \<Rightarrow> fval list \<Rightarrow> fval list" where
  "fftInverse lm re im =
     map (\<lambda>n. quot single
            (fold (\<lambda>k acc. add single acc
               (if k = 0 \<or> k = FFT_SIZE div 2 then contribution lm re im n k
                else mul single (Fin 2) (contribution lm re im n k))) [0..<FFT_SIZE div 2 + 1] (Fin 0))
            (Fin (of_nat FFT_SIZE)))
         [0..<FFT_SIZE]"

section \<open>One frame\<close>

definition smooth :: "fval \<Rightarrow> fval \<Rightarrow> fval \<Rightarrow> fval" where
  "smooth rate old new = add single (mul single rate old) (mul single (sub single (Fin 1) rate) new)"

definition track :: "fval \<Rightarrow> fval \<Rightarrow> fval \<Rightarrow> fval" where
  "track rate old magnitude =
     (if less magnitude (mul single old (Fin (3 / 2))) then smooth rate old magnitude else old)"

text \<open>The noise estimate averages the first 10 frames, then follows magnitudes below 1.5 times it.\<close>

definition update_noise :: "fval list \<Rightarrow> nr_ssnr \<Rightarrow> nr_ssnr" where
  "update_noise magnitude s =
     (if ss_noiseFrameCount s < 10 then
        s\<lparr>ss_noiseEstimate := map2 (smooth (ss_noiseFloorSmoothing s)) (ss_noiseEstimate s) magnitude,
          ss_noiseFrameCount := ss_noiseFrameCount s + 1,
          ss_noiseEstimated := (ss_noiseFrameCount s + 1 \<ge> 10 \<or> ss_noiseEstimated s)\<rparr>
      else
        s\<lparr>ss_noiseEstimate := map2 (track (ss_noiseFloorSmoothing s)) (ss_noiseEstimate s) magnitude\<rparr>)"

definition gain :: "nr_ssnr \<Rightarrow> fval \<Rightarrow> fval \<Rightarrow> fval" where
  "gain s magnitude noise =
     maxf (quot single (sub single magnitude (mul single (ss_overSubtraction s) noise))
             (add single magnitude (single (1 / 10 ^ 10))))
          (ss_spectralFloor s)"

definition rebuild :: "nr_ssnr \<Rightarrow> (fval \<Rightarrow> fval) \<Rightarrow> fval list \<Rightarrow> fval list \<Rightarrow> fval list" where
  "rebuild s trig magnitude phase =
     map (\<lambda>i. mul single (mul single (gain s (magnitude ! i) (ss_noiseEstimate s ! i)) (magnitude ! i)) (trig (phase ! i)))
       [0..<FFT_SIZE div 2 + 1]"

definition processFrame :: "cmath \<Rightarrow> fval list \<Rightarrow> nr_ssnr \<Rightarrow> nr_ssnr \<times> fval list" where
  "processFrame lm frame s =
     (let windowed = map2 (mul single) frame (ss_window s);
          spectrum = fftForward lm windowed (ss_fftReal s) (ss_fftImag s);
          re = fst spectrum; im = snd spectrum;
          magnitude = map (\<lambda>i. sqrt_f lm (add single (mul single (re ! i) (re ! i)) (mul single (im ! i) (im ! i))))
                        [0..<FFT_SIZE div 2 + 1];
          phase = map (\<lambda>i. atan2_f lm (im ! i) (re ! i)) [0..<FFT_SIZE div 2 + 1];
          s' = update_noise magnitude s;
          re' = (if ss_noiseEstimated s' then rebuild s' (cos_f lm) magnitude phase @ drop (FFT_SIZE div 2 + 1) re
                   else re);
          im' = (if ss_noiseEstimated s' then rebuild s' (sin_f lm) magnitude phase @ drop (FFT_SIZE div 2 + 1) im
                   else im)
      in (s'\<lparr>ss_fftReal := re', ss_fftImag := im'\<rparr>,
          map2 (mul single) (fftInverse lm re' im') (ss_window s)))"

section \<open>The stream\<close>

text \<open>A full buffer is processed, added to the output and shifted by half.\<close>

definition complete_frame :: "cmath \<Rightarrow> nr_ssnr \<Rightarrow> nr_ssnr" where
  "complete_frame lm s =
     (case processFrame lm (take FFT_SIZE (ss_inputBuffer s)) s of (s', frame) \<Rightarrow>
        s'\<lparr>ss_overlapAdd := map2 (add single) (ss_overlapAdd s') frame,
           ss_inputBuffer := drop HOP_SIZE (ss_inputBuffer s') @ drop (FFT_SIZE - HOP_SIZE) (ss_inputBuffer s'),
           ss_inputPos := FFT_SIZE - HOP_SIZE\<rparr>)"

definition ssnr_sample :: "cmath \<Rightarrow> fval \<Rightarrow> nr_ssnr \<Rightarrow> nr_ssnr \<times> fval" where
  "ssnr_sample lm input s =
     (let s1 = s\<lparr>ss_inputBuffer := (ss_inputBuffer s)[ss_inputPos s := input], ss_inputPos := ss_inputPos s + 1\<rparr>;
          s2 = (if ss_inputPos s1 \<ge> FFT_SIZE then complete_frame lm s1 else s1)
      in (s2\<lparr>ss_overlapAdd := (ss_overlapAdd s2)[ss_outputPos s2 := Fin 0],
             ss_outputPos := (ss_outputPos s2 + 1) mod FFT_SIZE\<rparr>,
          ss_overlapAdd s2 ! ss_outputPos s2))"

primrec ssnr_loop :: "cmath \<Rightarrow> fval list \<Rightarrow> nr_ssnr \<Rightarrow> nr_ssnr \<times> fval list" where
  "ssnr_loop lm [] s = (s, [])"
| "ssnr_loop lm (x # xs) s =
     (case ssnr_sample lm x s of (s', y) \<Rightarrow> (case ssnr_loop lm xs s' of (s'', ys) \<Rightarrow> (s'', y # ys)))"

text \<open>The conversion of the outputs does not touch the state; it is undefined for NaN.\<close>

definition ssnr_process :: "cmath \<Rightarrow> int list \<Rightarrow> nr_ssnr \<Rightarrow> (nr_ssnr \<times> int list) option" where
  "ssnr_process lm samples s =
     (if \<not> ss_enabled s \<or> samples = [] then Some (s, samples)
      else (case ssnr_loop lm (map pcm_to_float samples) s of (s', out) \<Rightarrow>
              map_option (Pair s') (those (map float_to_pcm out))))"

section \<open>Positions and lengths\<close>

definition ssnr_ok :: "nr_ssnr \<Rightarrow> bool" where
  "ssnr_ok s \<longleftrightarrow> length (ss_inputBuffer s) = 256 \<and> length (ss_window s) = 256 \<and>
     length (ss_overlapAdd s) = 256 \<and> length (ss_fftReal s) = 256 \<and> length (ss_fftImag s) = 256 \<and>
     length (ss_noiseEstimate s) = 129 \<and> ss_inputPos s < 256 \<and> ss_outputPos s < 256"

lemma length_fftInverse [simp]: "length (fftInverse lm re im) = 256"
  by (simp add: fftInverse_def FFT_SIZE_def)

lemma length_rebuild [simp]: "length (rebuild s trig magnitude phase) = 129"
  by (simp add: rebuild_def FFT_SIZE_def)

lemma rebuild_irrelevant [simp]:
  "rebuild (s\<lparr>ss_inputBuffer := b\<rparr>) = rebuild s" "rebuild (s\<lparr>ss_inputPos := i\<rparr>) = rebuild s"
  "rebuild (s\<lparr>ss_overlapAdd := a\<rparr>) = rebuild s" "rebuild (s\<lparr>ss_outputPos := j\<rparr>) = rebuild s"
  by (simp_all add: rebuild_def gain_def fun_eq_iff)

text \<open>A frame does not read or write the positions and buffers of the stream.\<close>

lemma update_noise_frame [simp]:
  "update_noise m (s\<lparr>ss_inputBuffer := b\<rparr>) = (update_noise m s)\<lparr>ss_inputBuffer := b\<rparr>"
  "update_noise m (s\<lparr>ss_inputPos := i\<rparr>) = (update_noise m s)\<lparr>ss_inputPos := i\<rparr>"
  "update_noise m (s\<lparr>ss_overlapAdd := a\<rparr>) = (update_noise m s)\<lparr>ss_overlapAdd := a\<rparr>"
  "update_noise m (s\<lparr>ss_outputPos := j\<rparr>) = (update_noise m s)\<lparr>ss_outputPos := j\<rparr>"
  by (simp_all add: update_noise_def)

lemma processFrame_frame [simp]:
  "processFrame lm f (s\<lparr>ss_inputBuffer := b\<rparr>) = apfst (ss_inputBuffer_update (\<lambda>_. b)) (processFrame lm f s)"
  "processFrame lm f (s\<lparr>ss_inputPos := i\<rparr>) = apfst (ss_inputPos_update (\<lambda>_. i)) (processFrame lm f s)"
  "processFrame lm f (s\<lparr>ss_overlapAdd := a\<rparr>) = apfst (ss_overlapAdd_update (\<lambda>_. a)) (processFrame lm f s)"
  "processFrame lm f (s\<lparr>ss_outputPos := j\<rparr>) = apfst (ss_outputPos_update (\<lambda>_. j)) (processFrame lm f s)"
  by (simp_all add: processFrame_def Let_def)

lemma processFrame_keeps [simp]:
  "ss_inputBuffer (fst (processFrame lm f s)) = ss_inputBuffer s" "ss_inputPos (fst (processFrame lm f s)) = ss_inputPos s"
  "ss_overlapAdd (fst (processFrame lm f s)) = ss_overlapAdd s" "ss_outputPos (fst (processFrame lm f s)) = ss_outputPos s"
  "ss_window (fst (processFrame lm f s)) = ss_window s"
  by (simp_all add: processFrame_def update_noise_def Let_def)

lemma length_frame: "ssnr_ok s \<Longrightarrow> length (snd (processFrame lm f s)) = 256"
  by (simp add: ssnr_ok_def processFrame_def Let_def)

lemma processFrame_ok:
  assumes "ssnr_ok s"
  shows "ssnr_ok (fst (processFrame lm f s))"
  using assms by (auto simp: ssnr_ok_def processFrame_def update_noise_def Let_def fftForward_def FFT_SIZE_def)

lemma complete_frame_ok:
  assumes "length (ss_inputBuffer s) = 256" "ssnr_ok (s\<lparr>ss_inputPos := 0\<rparr>)"
  shows "ssnr_ok (complete_frame lm s)"
proof -
  let ?r = "processFrame lm (take FFT_SIZE (ss_inputBuffer s)) s"
  have "ssnr_ok (fst (processFrame lm (take FFT_SIZE (ss_inputBuffer s)) (s\<lparr>ss_inputPos := 0\<rparr>)))"
    using assms(2) by (rule processFrame_ok)
  then have "ssnr_ok ((fst ?r)\<lparr>ss_inputPos := 0\<rparr>)" by simp
  moreover have "length (snd ?r) = 256"
    using length_frame [OF assms(2), of lm "take FFT_SIZE (ss_inputBuffer s)"] by simp
  ultimately show ?thesis using assms(1)
    by (simp add: complete_frame_def split_beta ssnr_ok_def FFT_SIZE_def HOP_SIZE_def)
qed

lemma ssnr_sample_ok:
  assumes "ssnr_ok s"
  shows "ssnr_ok (fst (ssnr_sample lm x s))"
proof -
  let ?s1 = "s\<lparr>ss_inputBuffer := (ss_inputBuffer s)[ss_inputPos s := x], ss_inputPos := ss_inputPos s + 1\<rparr>"
  have "ssnr_ok (complete_frame lm ?s1)" using assms by (intro complete_frame_ok) (simp_all add: ssnr_ok_def)
  then show ?thesis using assms by (auto simp: ssnr_sample_def Let_def ssnr_ok_def FFT_SIZE_def)
qed

lemma ssnr_controls_ok [simp]:
  "ssnr_ok s \<Longrightarrow> ssnr_ok (ssnr_reset s)" "ssnr_ok s \<Longrightarrow> ssnr_ok (ssnr_setLevel level s)"
  "ssnr_ok (ssnr_setEnabled b s) = ssnr_ok s"
  by (simp_all add: ssnr_ok_def ssnr_reset_def ssnr_setLevel_def ssnr_setEnabled_def Let_def)

lemma ssnr_new_ok: "ssnr_ok (NrSsnr_new lm)"
  by (simp add: NrSsnr_new_def ssnr_ok_def ssnr_setLevel_def initWindow_def Let_def FFT_SIZE_def)

lemma ssnr_loop_ok: "ssnr_ok s \<Longrightarrow> ssnr_ok (fst (ssnr_loop lm xs s)) \<and> length (snd (ssnr_loop lm xs s)) = length xs"
proof (induction xs arbitrary: s)
  case (Cons x xs)
  with ssnr_sample_ok [OF Cons.prems, of lm x] show ?case by (simp add: split_beta)
qed simp

section \<open>Where the frames go\<close>

text \<open>Samples that complete no frame: the buffer fills and the output is read and cleared.\<close>

lemma ssnr_fill:
  assumes "ssnr_ok s" "ss_inputPos s + length xs < 256" "ss_outputPos s + length xs < 256"
  shows "ssnr_loop lm xs s =
    (s\<lparr>ss_inputBuffer := take (ss_inputPos s) (ss_inputBuffer s) @ xs @ drop (ss_inputPos s + length xs) (ss_inputBuffer s),
       ss_inputPos := ss_inputPos s + length xs,
       ss_overlapAdd := take (ss_outputPos s) (ss_overlapAdd s) @ replicate (length xs) (Fin 0) @
         drop (ss_outputPos s + length xs) (ss_overlapAdd s),
       ss_outputPos := ss_outputPos s + length xs\<rparr>,
     take (length xs) (drop (ss_outputPos s) (ss_overlapAdd s)))"
  using assms
proof (induction xs arbitrary: s)
  case (Cons x xs)
  define p where "p = ss_inputPos s"
  define q where "q = ss_outputPos s"
  have len: "length (ss_inputBuffer s) = 256" "length (ss_overlapAdd s) = 256" "p < 255" "q < 255"
    using Cons.prems by (simp_all add: ssnr_ok_def p_def q_def)
  define s1 where "s1 = s\<lparr>ss_inputBuffer := (ss_inputBuffer s)[p := x], ss_inputPos := Suc p,
    ss_overlapAdd := (ss_overlapAdd s)[q := Fin 0], ss_outputPos := Suc q\<rparr>"
  have step: "ssnr_sample lm x s = (s1, ss_overlapAdd s ! q)"
    using len by (simp add: ssnr_sample_def Let_def s1_def FFT_SIZE_def p_def q_def)
  have "ssnr_ok s1" using ssnr_sample_ok [OF Cons.prems(1), of lm x] by (simp add: step)
  from Cons.IH [OF this] Cons.prems(2,3) have rest: "ssnr_loop lm xs s1 =
    (s1\<lparr>ss_inputBuffer := take (Suc p) ((ss_inputBuffer s)[p := x]) @ xs @ drop (Suc p + length xs) ((ss_inputBuffer s)[p := x]),
       ss_inputPos := Suc p + length xs,
       ss_overlapAdd := take (Suc q) ((ss_overlapAdd s)[q := Fin 0]) @ replicate (length xs) (Fin 0) @
         drop (Suc q + length xs) ((ss_overlapAdd s)[q := Fin 0]),
       ss_outputPos := Suc q + length xs\<rparr>,
     take (length xs) (drop (Suc q) ((ss_overlapAdd s)[q := Fin 0])))"
    by (simp add: s1_def p_def q_def)
  have "take (Suc i) (ys[i := y]) = take i ys @ [y]" if "i < length ys" for i y and ys :: "fval list"
    using that by (simp add: take_Suc_conv_app_nth)
  moreover have "take (Suc n) (drop q (ss_overlapAdd s)) = ss_overlapAdd s ! q # take n (drop (Suc q) (ss_overlapAdd s))" for n
    using len by (simp flip: Cons_nth_drop_Suc)
  ultimately show ?case using step rest len
    by (simp add: p_def [symmetric] q_def [symmetric]) (simp add: s1_def)
qed (simp add: ssnr_ok_def)

text \<open>The sample that completes a frame.\<close>

lemma ssnr_complete:
  assumes "ssnr_ok s" "ss_inputPos s = 255" "ss_inputBuffer s = front @ [old]"
    "processFrame lm (front @ [x]) s = (s', f)"
  shows "ssnr_sample lm x s =
    (s'\<lparr>ss_overlapAdd := (map2 (add single) (ss_overlapAdd s) f)[ss_outputPos s := Fin 0],
        ss_inputBuffer := drop 128 (front @ [x]) @ drop 128 (front @ [x]), ss_inputPos := 128,
        ss_outputPos := (ss_outputPos s + 1) mod 256\<rparr>,
     add single (ss_overlapAdd s ! ss_outputPos s) (f ! ss_outputPos s))"
proof -
  have len: "length front = 255" "length (ss_overlapAdd s) = 256" "ss_outputPos s < 256"
    using assms(1,3) by (simp_all add: ssnr_ok_def)
  have f: "length f = 256" using length_frame [OF assms(1), of lm "front @ [x]"] assms(4) by simp
  let ?s1 = "s\<lparr>ss_inputBuffer := front @ [x], ss_inputPos := 256\<rparr>"
  have upd: "(ss_inputBuffer s)[ss_inputPos s := x] = front @ [x]" using assms(2,3) len by (simp add: list_update_append)
  have keeps: "ss_overlapAdd s' = ss_overlapAdd s" "ss_outputPos s' = ss_outputPos s"
    using processFrame_keeps [of lm "front @ [x]" s] assms(4) by simp_all
  have "complete_frame lm ?s1 =
    s'\<lparr>ss_overlapAdd := map2 (add single) (ss_overlapAdd s) f,
       ss_inputBuffer := drop 128 (front @ [x]) @ drop 128 (front @ [x]), ss_inputPos := 128\<rparr>"
    using len keeps assms(4) by (simp add: complete_frame_def FFT_SIZE_def HOP_SIZE_def)
  moreover have "ssnr_sample lm x s = (let s2 = complete_frame lm ?s1 in
      (s2\<lparr>ss_overlapAdd := (ss_overlapAdd s2)[ss_outputPos s2 := Fin 0], ss_outputPos := (ss_outputPos s2 + 1) mod 256\<rparr>,
       ss_overlapAdd s2 ! ss_outputPos s2))"
    using upd assms(2) by (simp add: ssnr_sample_def Let_def FFT_SIZE_def)
  ultimately show ?thesis using len f keeps by (simp add: Let_def)
qed

lemma ssnr_loop_append:
  "ssnr_loop lm (xs @ ys) s =
     (case ssnr_loop lm xs s of (s1, as) \<Rightarrow> (case ssnr_loop lm ys s1 of (s2, bs) \<Rightarrow> (s2, as @ bs)))"
  by (induction xs arbitrary: s) (simp_all add: split_beta)

lemma is_single_ops: "is_single (mul single a b)"
proof -
  have "is_single (single x)" for x
    using round_representable [of 24 "-149" 128 x] by (auto simp: is_single_def single_def split: fval.split)
  then show ?thesis by (cases a; cases b) (auto simp: is_single_def)
qed

lemma frame_plus_zero:
  assumes "ssnr_ok s"
  shows "map2 (add single) (replicate 256 (Fin 0)) (snd (processFrame lm f s)) = snd (processFrame lm f s)"
proof -
  have "add single (Fin 0) v = v" if "is_single v" for v
    using that by (cases v) (auto simp: is_single_def single_exact)
  moreover have "is_single (snd (processFrame lm f s) ! i)" if "i < 256" for i
    using that assms by (simp add: processFrame_def Let_def is_single_ops ssnr_ok_def)
  ultimately show ?thesis using length_frame [OF assms, of lm f] by (intro nth_equalityI) simp_all
qed

text \<open>From one frame to the next: \<open>n\<close> samples that fill the buffer and the one that completes it.\<close>

lemma ssnr_cycle:
  fixes s :: nr_ssnr
  defines "p \<equiv> ss_inputPos s" and "q \<equiv> ss_outputPos s"
  assumes "ssnr_ok s" "p + length a = 255" "q + length a < 256"
    and front: "front = take p (ss_inputBuffer s) @ a"
    and frame: "processFrame lm (front @ [x]) s = (s1, f)"
  shows "ssnr_loop lm (a @ [x]) s =
    (s1\<lparr>ss_overlapAdd := (map2 (add single) (take q (ss_overlapAdd s) @ replicate (length a) (Fin 0) @
           drop (q + length a) (ss_overlapAdd s)) f)[q + length a := Fin 0],
        ss_inputBuffer := drop 128 (front @ [x]) @ drop 128 (front @ [x]), ss_inputPos := 128,
        ss_outputPos := (q + length a + 1) mod 256\<rparr>,
     take (length a) (drop q (ss_overlapAdd s)) @
       [add single (ss_overlapAdd s ! (q + length a)) (f ! (q + length a))])"
proof -
  have len: "length (ss_inputBuffer s) = 256" "length (ss_overlapAdd s) = 256"
    using assms(3) by (simp_all add: ssnr_ok_def)
  define old where "old = ss_inputBuffer s ! 255"
  have old: "drop 255 (ss_inputBuffer s) = [old]"
    using len Cons_nth_drop_Suc [of 255 "ss_inputBuffer s"] by (simp add: old_def)
  define A where "A = s\<lparr>ss_inputBuffer := front @ [old], ss_inputPos := 255,
    ss_overlapAdd := take q (ss_overlapAdd s) @ replicate (length a) (Fin 0) @ drop (q + length a) (ss_overlapAdd s),
    ss_outputPos := q + length a\<rparr>"
  have A: "ssnr_loop lm a s = (A, take (length a) (drop q (ss_overlapAdd s)))"
    using ssnr_fill [OF assms(3), of a lm] assms(4,5) old unfolding p_def q_def front A_def by simp
  have Aok: "ssnr_ok A" using ssnr_loop_ok [OF assms(3), of lm a] A by simp
  have "processFrame lm (front @ [x]) A = (s1\<lparr>ss_inputBuffer := front @ [old], ss_inputPos := 255,
    ss_overlapAdd := take q (ss_overlapAdd s) @ replicate (length a) (Fin 0) @ drop (q + length a) (ss_overlapAdd s),
    ss_outputPos := q + length a\<rparr>, f)" by (simp add: A_def frame)
  from ssnr_complete [OF Aok _ _ this] len assms(5)
  show ?thesis by (simp add: ssnr_loop_append A A_def nth_append)
qed

text \<open>Two frames, as the stream plays them.\<close>

lemma two_frames:
  assumes "ssnr_ok s" "ss_inputPos s = 0" "ss_outputPos s = 0" "ss_overlapAdd s = replicate 256 (Fin 0)"
    and len: "length a = 255" "length b = 127" "length c = 127"
    and f1: "processFrame lm (a @ [x]) s = (s1, f1)"
    and f2: "processFrame lm (drop 128 (a @ [x]) @ b @ [y]) s1 = (s2, f2)"
  shows "snd (ssnr_loop lm ((a @ [x]) @ (b @ [y]) @ c) s) =
     replicate 255 (Fin 0) @ [f1 ! 255] @ take 127 f1 @ map2 (add single) (take 128 (drop 127 f1)) (take 128 (drop 127 f2))"
proof -
  define w where "w = drop 128 (a @ [x])"
  have w: "length w = 128" using len by (simp add: w_def)
  have fl: "length f1 = 256" "length f2 = 256"
    using length_frame [OF assms(1), of lm "a @ [x]"] processFrame_ok [OF assms(1), of lm "a @ [x]"]
      length_frame [of s1 lm "drop 128 (a @ [x]) @ b @ [y]"] f1 f2 by simp_all
  have plus0: "map2 (add single) (replicate 256 (Fin 0)) f1 = f1"
    using frame_plus_zero [OF assms(1), of lm "a @ [x]"] f1 by simp
  have zero: "add single (Fin 0) (f1 ! 255) = f1 ! 255"
    using arg_cong [OF plus0, of "\<lambda>l. l ! 255"] fl by simp
  have rep: "replicate 255 z @ [z] = replicate 256 z" for z :: fval
    using replicate_add [of 255 1 z] by simp
  define B where "B = s1\<lparr>ss_overlapAdd := f1[255 := Fin 0], ss_inputBuffer := w @ w, ss_inputPos := 128, ss_outputPos := 0\<rparr>"
  have B: "ssnr_loop lm (a @ [x]) s = (B, replicate 255 (Fin 0) @ [f1 ! 255])"
    using ssnr_cycle [OF assms(1), of a "a" lm x s1 f1] assms(2-5) f1 zero rep plus0
    by (simp add: B_def w_def)
  have Bok: "ssnr_ok B" using ssnr_loop_ok [OF assms(1), of lm "a @ [x]"] B by simp
  have fB: "processFrame lm ((w @ b) @ [y]) B = (s2\<lparr>ss_overlapAdd := f1[255 := Fin 0], ss_inputBuffer := w @ w,
      ss_inputPos := 128, ss_outputPos := 0\<rparr>, f2)"
    using f2 by (simp add: B_def w_def)
  define C where "C = s2\<lparr>ss_overlapAdd := (map2 (add single) (replicate 127 (Fin 0) @ drop 127 (f1[255 := Fin 0])) f2)[127 := Fin 0],
    ss_inputBuffer := drop 128 (w @ b @ [y]) @ drop 128 (w @ b @ [y]), ss_inputPos := 128, ss_outputPos := 128\<rparr>"
  have C: "ssnr_loop lm (b @ [y]) B = (C, take 127 f1 @ [add single (f1 ! 127) (f2 ! 127)])"
    using ssnr_cycle [OF Bok _ _ _ fB, of b] len w by (simp add: B_def C_def)
  have Cok: "ssnr_ok C" using ssnr_loop_ok [OF Bok, of lm "b @ [y]"] C by simp
  have "snd (ssnr_loop lm c C) = map2 (add single) (take 127 (drop 128 f1)) (take 127 (drop 128 f2))"
    using ssnr_fill [OF Cok, of c lm] len fl
    by (simp add: C_def take_zip drop_zip take_map drop_map drop_update_swap)
  moreover have "take 128 (drop 127 l) = l ! 127 # take 127 (drop 128 l)" if "length l = 256" for l :: "fval list"
    using that by (simp flip: Cons_nth_drop_Suc [of 127 l])
  ultimately show ?thesis using fl
    unfolding ssnr_loop_append [of lm "a @ [x]" "(b @ [y]) @ c"] B ssnr_loop_append [of lm "b @ [y]" c] C prod.case
    by (simp add: split_beta)
qed


text \<open>A \<open><cmath>\<close> whose every function is constant.\<close>

definition flat_math :: cmath where
  "flat_math = \<lparr>cos_d = \<lambda>_. Fin 0, cos_f = \<lambda>_. Fin 1, sin_f = \<lambda>_. Fin 0, sqrt_f = \<lambda>_. Fin 1, atan2_f = \<lambda>_ _. Fin 0\<rparr>"

definition new_ssnr :: nr_ssnr where
  "new_ssnr = ssnr_setEnabled True (ssnr_reset (NrSsnr_new flat_math))"


end
