(* ===== verification/Opus.thy ===== *)
theory Opus
  imports RingBuffer
begin

text \<open>
  The wrappers around libopus (\<open>audio/opus_decoder.h\<close>, \<open>audio/opus_decoder.cpp\<close>, \<open>audio/opus_encoder.h\<close>,
  \<open>audio/opus_encoder.cpp\<close>). The library is a parameter; a call of it is an event. The facts: the
  library is never called without a codec, a codec is created only while there is none, and it is
  destroyed with its wrapper.
\<close>

section \<open>The library\<close>

datatype opus_call =
    Create int int
  | Destroy
  | Decode "byte list option" int
  | Encode "sample list" int int
  | Ctl_reset
  | Ctl_bitrate int
  | Ctl_complexity int
  | Ctl_signal_voice
  | Ctl_dtx int

text \<open>
  \<open>lib_create\<close> gives the codec, null or not, and the error code, 0 for \<open>OPUS_OK\<close>; \<open>lib_decode\<close> and
  \<open>lib_encode\<close> the new state of the codec, the returned number and what was written; \<open>lib_ctl\<close> the new state.
\<close>

record 'c libopus =
  lib_create :: "int \<Rightarrow> int \<Rightarrow> 'c option \<times> int"
  lib_decode :: "'c \<Rightarrow> byte list option \<Rightarrow> int \<Rightarrow> 'c \<times> int \<times> sample list"
  lib_encode :: "'c \<Rightarrow> sample list \<Rightarrow> int \<Rightarrow> int \<Rightarrow> 'c \<times> int \<times> byte list"
  lib_ctl :: "'c \<Rightarrow> opus_call \<Rightarrow> 'c"

section \<open>Decoder\<close>

record 'c opus_decoder =
  m_decoder :: "'c option"

definition QK4OpusDecoder_new :: "'c opus_decoder" where
  "QK4OpusDecoder_new = \<lparr>m_decoder = None\<rparr>"

definition decoder_destroy :: "'c opus_decoder \<Rightarrow> 'c opus_decoder \<times> opus_call list" where
  "decoder_destroy s = (case m_decoder s of None \<Rightarrow> (s, []) | Some d \<Rightarrow> (s\<lparr>m_decoder := None\<rparr>, [Destroy]))"

definition decoder_init :: "'c libopus \<Rightarrow> 'c opus_decoder \<Rightarrow> 'c opus_decoder \<times> bool \<times> opus_call list" where
  "decoder_init lib s =
     (case m_decoder s of
        Some d \<Rightarrow> (s, True, [])
      | None \<Rightarrow> (case lib_create lib 12000 2 of (d, err) \<Rightarrow>
                   (s\<lparr>m_decoder := d\<rparr>, err = 0 \<and> d \<noteq> None, [Create 12000 2])))"

definition decode ::
  "'c libopus \<Rightarrow> byte list \<Rightarrow> int \<Rightarrow> 'c opus_decoder \<Rightarrow> 'c opus_decoder \<times> (int \<times> sample list) \<times> opus_call list" where
  "decode lib data max_frames s =
     (case m_decoder s of
        None \<Rightarrow> (s, (-1, []), [])
      | Some d \<Rightarrow> (case lib_decode lib d (Some data) max_frames of (d', r) \<Rightarrow>
                    (s\<lparr>m_decoder := Some d'\<rparr>, r, [Decode (Some data) max_frames])))"

definition decodePlc ::
  "'c libopus \<Rightarrow> int \<Rightarrow> 'c opus_decoder \<Rightarrow> 'c opus_decoder \<times> (int \<times> sample list) \<times> opus_call list" where
  "decodePlc lib max_frames s =
     (case m_decoder s of
        None \<Rightarrow> (s, (-1, []), [])
      | Some d \<Rightarrow> (case lib_decode lib d None max_frames of (d', r) \<Rightarrow>
                    (s\<lparr>m_decoder := Some d'\<rparr>, r, [Decode None max_frames])))"

definition decoder_reset :: "'c libopus \<Rightarrow> 'c opus_decoder \<Rightarrow> 'c opus_decoder \<times> opus_call list" where
  "decoder_reset lib s =
     (case m_decoder s of
        None \<Rightarrow> (s, [])
      | Some d \<Rightarrow> (s\<lparr>m_decoder := Some (lib_ctl lib d Ctl_reset)\<rparr>, [Ctl_reset]))"

definition decoder_isInitialized :: "'c opus_decoder \<Rightarrow> bool" where
  "decoder_isInitialized s = (m_decoder s \<noteq> None)"

section \<open>Encoder\<close>

record 'c opus_encoder =
  m_encoder :: "'c option"
  m_frameSize :: int

definition QK4OpusEncoder_new :: "'c opus_encoder" where
  "QK4OpusEncoder_new = \<lparr>m_encoder = None, m_frameSize = 480\<rparr>"

definition encoder_destroy :: "'c opus_encoder \<Rightarrow> 'c opus_encoder \<times> opus_call list" where
  "encoder_destroy s = (case m_encoder s of None \<Rightarrow> (s, []) | Some c \<Rightarrow> (s\<lparr>m_encoder := None\<rparr>, [Destroy]))"

definition voice_settings :: "opus_call list" where
  "voice_settings = [Ctl_bitrate 24000, Ctl_complexity 5, Ctl_signal_voice, Ctl_dtx 0]"

definition encoder_init :: "'c libopus \<Rightarrow> 'c opus_encoder \<Rightarrow> 'c opus_encoder \<times> bool \<times> opus_call list" where
  "encoder_init lib s =
     (case m_encoder s of
        Some c \<Rightarrow> (s, True, [])
      | None \<Rightarrow> (case lib_create lib 12000 1 of
            (None, err) \<Rightarrow> (s, False, [Create 12000 1])
          | (Some c, err) \<Rightarrow>
              if err \<noteq> 0 then (s\<lparr>m_encoder := Some c\<rparr>, False, [Create 12000 1])
              else (s\<lparr>m_encoder := Some (fold (\<lambda>call c. lib_ctl lib c call) voice_settings c)\<rparr>, True,
                    Create 12000 1 # voice_settings)))"

definition opus_encode ::
  "'c libopus \<Rightarrow> sample list \<Rightarrow> int \<Rightarrow> int \<Rightarrow> 'c opus_encoder \<Rightarrow>
   'c opus_encoder \<times> (int \<times> byte list) \<times> opus_call list" where
  "opus_encode lib pcm frame_size max_output s =
     (case m_encoder s of
        None \<Rightarrow> (s, (-1, []), [])
      | Some c \<Rightarrow> (case lib_encode lib c pcm frame_size max_output of (c', r) \<Rightarrow>
                    (s\<lparr>m_encoder := Some c'\<rparr>, r, [Encode pcm frame_size max_output])))"

definition setBitrate :: "'c libopus \<Rightarrow> int \<Rightarrow> 'c opus_encoder \<Rightarrow> 'c opus_encoder \<times> opus_call list" where
  "setBitrate lib bitrate s =
     (case m_encoder s of
        None \<Rightarrow> (s, [])
      | Some c \<Rightarrow> (s\<lparr>m_encoder := Some (lib_ctl lib c (Ctl_bitrate bitrate))\<rparr>, [Ctl_bitrate bitrate]))"

text \<open>The stored frame size is read by nothing.\<close>

definition setFrameSize :: "int \<Rightarrow> 'c opus_encoder \<Rightarrow> 'c opus_encoder" where
  "setFrameSize frame_size s = s\<lparr>m_frameSize := frame_size\<rparr>"

definition encoder_reset :: "'c libopus \<Rightarrow> 'c opus_encoder \<Rightarrow> 'c opus_encoder \<times> opus_call list" where
  "encoder_reset lib s =
     (case m_encoder s of
        None \<Rightarrow> (s, [])
      | Some c \<Rightarrow> (s\<lparr>m_encoder := Some (lib_ctl lib c Ctl_reset)\<rparr>, [Ctl_reset]))"

definition encoder_isInitialized :: "'c opus_encoder \<Rightarrow> bool" where
  "encoder_isInitialized s = (m_encoder s \<noteq> None)"

section \<open>Lifetime\<close>

text \<open>What a client does with each wrapper between constructor and destructor.\<close>

datatype decoder_use = Dec_init | Dec_decode "byte list" int | Dec_plc int | Dec_reset

primrec decoder_op :: "'c libopus \<Rightarrow> decoder_use \<Rightarrow> 'c opus_decoder \<Rightarrow> 'c opus_decoder \<times> opus_call list" where
  "decoder_op lib Dec_init s = (case decoder_init lib s of (s', ok, calls) \<Rightarrow> (s', calls))"
| "decoder_op lib (Dec_decode data n) s = (case decode lib data n s of (s', r, calls) \<Rightarrow> (s', calls))"
| "decoder_op lib (Dec_plc n) s = (case decodePlc lib n s of (s', r, calls) \<Rightarrow> (s', calls))"
| "decoder_op lib Dec_reset s = decoder_reset lib s"

datatype encoder_use = Enc_init | Enc_encode "sample list" int int | Enc_bitrate int | Enc_frame_size int | Enc_reset

primrec encoder_op :: "'c libopus \<Rightarrow> encoder_use \<Rightarrow> 'c opus_encoder \<Rightarrow> 'c opus_encoder \<times> opus_call list" where
  "encoder_op lib Enc_init s = (case encoder_init lib s of (s', ok, calls) \<Rightarrow> (s', calls))"
| "encoder_op lib (Enc_encode pcm n m) s = (case opus_encode lib pcm n m s of (s', r, calls) \<Rightarrow> (s', calls))"
| "encoder_op lib (Enc_bitrate b) s = setBitrate lib b s"
| "encoder_op lib (Enc_frame_size n) s = (setFrameSize n s, [])"
| "encoder_op lib Enc_reset s = encoder_reset lib s"

primrec run_calls :: "('op \<Rightarrow> 's \<Rightarrow> 's \<times> 'e list) \<Rightarrow> 'op list \<Rightarrow> 's \<Rightarrow> 's \<times> 'e list" where
  "run_calls f [] s = (s, [])"
| "run_calls f (c # cs) s = (case f c s of (s1, a) \<Rightarrow> (case run_calls f cs s1 of (s2, b) \<Rightarrow> (s2, a @ b)))"

text \<open>
  A trace of library calls is sound when the library is told to create a codec before every other
  call, and only while there is none; \<open>alive\<close> is whether a codec exists, \<open>gives\<close> whether creating one
  yields it.
\<close>

fun sound :: "bool \<Rightarrow> bool \<Rightarrow> opus_call list \<Rightarrow> bool \<Rightarrow> bool" where
  "sound gives alive [] alive' = (alive = alive')"
| "sound gives alive (Create rate channels # calls) alive' = (\<not> alive \<and> sound gives gives calls alive')"
| "sound gives alive (Destroy # calls) alive' = (alive \<and> sound gives False calls alive')"
| "sound gives alive (call # calls) alive' = (alive \<and> sound gives alive calls alive')"

lemma sound_append: "sound gives a xs b \<Longrightarrow> sound gives b ys c \<Longrightarrow> sound gives a (xs @ ys) c"
  by (induction gives a xs b rule: sound.induct) auto

locale codec_wrapper =
  fixes gives :: bool
    and step :: "'op \<Rightarrow> 's \<Rightarrow> 's \<times> opus_call list"
    and alive :: "'s \<Rightarrow> bool"
    and destroy :: "'s \<Rightarrow> 's \<times> opus_call list"
  assumes step_sound: "step c s = (s', calls) \<Longrightarrow> sound gives (alive s) calls (alive s')"
    and destroy_sound: "sound gives (alive s) (snd (destroy s)) False"
begin

lemma run_sound: "sound gives (alive s) (snd (run_calls step cs s)) (alive (fst (run_calls step cs s)))"
proof (induction cs arbitrary: s)
  case (Cons c cs)
  obtain s1 a where "step c s = (s1, a)" by fastforce
  with step_sound [OF this] Cons.IH [of s1] show ?case by (simp add: split_beta sound_append)
qed simp

lemma lifetime_sound:
  "sound gives (alive s) (snd (run_calls step cs s) @ snd (destroy (fst (run_calls step cs s)))) False"
  by (rule sound_append [OF run_sound destroy_sound])

end

interpretation opus_decoder: codec_wrapper "fst (lib_create lib 12000 2) \<noteq> None" "decoder_op lib"
    decoder_isInitialized decoder_destroy for lib :: "'c libopus"
proof unfold_locales
  show "sound (fst (lib_create lib 12000 2) \<noteq> None) (decoder_isInitialized s) calls (decoder_isInitialized s')"
    if "decoder_op lib c s = (s', calls)" for c s s' calls
    using that by (cases c) (auto simp: decoder_init_def decode_def decodePlc_def decoder_reset_def
        decoder_isInitialized_def split: prod.splits option.splits)
qed (auto simp: decoder_destroy_def decoder_isInitialized_def split: option.split)

interpretation opus_encoder: codec_wrapper "fst (lib_create lib 12000 1) \<noteq> None" "encoder_op lib"
    encoder_isInitialized encoder_destroy for lib :: "'c libopus"
proof unfold_locales
  show "sound (fst (lib_create lib 12000 1) \<noteq> None) (encoder_isInitialized s) calls (encoder_isInitialized s')"
    if "encoder_op lib c s = (s', calls)" for c s s' calls
    using that by (cases c) (auto simp: encoder_init_def opus_encode_def setBitrate_def setFrameSize_def encoder_reset_def
        encoder_isInitialized_def voice_settings_def split: prod.splits option.splits if_splits)
qed (auto simp: encoder_destroy_def encoder_isInitialized_def split: option.split)

text \<open>
  From construction to destruction, in whatever order a wrapper is used, libopus is only called
  with a codec that exists, a codec is only created while there is none, and when the wrapper is gone
  so is the codec.
\<close>

theorem opus_codec_lifetime:
  "sound (fst (lib_create lib 12000 2) \<noteq> None) False
     (snd (run_calls (decoder_op lib) ds QK4OpusDecoder_new) @
      snd (decoder_destroy (fst (run_calls (decoder_op lib) ds QK4OpusDecoder_new)))) False \<and>
   sound (fst (lib_create lib 12000 1) \<noteq> None) False
     (snd (run_calls (encoder_op lib) es QK4OpusEncoder_new) @
      snd (encoder_destroy (fst (run_calls (encoder_op lib) es QK4OpusEncoder_new)))) False"
  using opus_decoder.lifetime_sound [of lib QK4OpusDecoder_new ds] opus_encoder.lifetime_sound [of lib QK4OpusEncoder_new es]
  by (simp add: decoder_isInitialized_def QK4OpusDecoder_new_def encoder_isInitialized_def QK4OpusEncoder_new_def)

end
