(* ===== verification/JniBridge.thy ===== *)
theory JniBridge
  imports Api
begin

text \<open>
  The JNI bridge of the Android application (\<open>android/app/src/main/cpp/jni_bridge.cpp\<close>): the globals it
  keeps, the native methods over the C interface, and the callbacks it routes to the Java object. The
  Java VM is seen through the JNI calls made; Java exceptions and failing JNI allocations are left
  out. Calls of the native methods, steps of the engine's threads and their callbacks come in any order.
\<close>

section \<open>State\<close>

datatype java_method = On_state_changed | On_connection_changed | On_error | On_spot_received

datatype java_value = JInt int | JLong int | JString string

datatype jni_call =
    AttachCurrentThread nat
  | NewStringUTF string
  | DeleteLocalRef string
  | CallVoidMethod java_method "java_value list"
  | NewGlobalRef
  | DeleteGlobalRef
  | GetMethodID java_method
  | GetStringUTFChars
  | ReleaseStringUTFChars
  | GetByteArrayElements
  | ReleaseByteArrayElements

text \<open>
  The globals; \<open>br_methods\<close> tells which method ids are not null, \<open>br_attached\<close> which native threads the
  VM knows, the Java threads to begin with.
\<close>

record 'd bridge =
  br_handle :: "'d engine option"
  br_initialized :: bool
  br_jvm :: bool
  br_callbackObj :: bool
  br_methods :: "java_method \<Rightarrow> bool"
  br_attached :: "nat list"

definition bridge_globals :: "nat list \<Rightarrow> 'd bridge" where
  "bridge_globals java_threads = \<lparr>br_handle = None, br_initialized = False, br_jvm = False, br_callbackObj = False,
     br_methods = (\<lambda>_. False), br_attached = java_threads\<rparr>"

definition JNI_OnLoad :: "'d bridge \<Rightarrow> 'd bridge" where
  "JNI_OnLoad b = b\<lparr>br_jvm := True\<rparr>"

section \<open>Callbacks\<close>

text \<open>The environment of the calling thread, attaching it when the VM does not know it.\<close>

definition getEnv :: "nat \<Rightarrow> 'd bridge \<Rightarrow> 'd bridge \<times> bool \<times> jni_call list" where
  "getEnv t b =
     (if \<not> br_jvm b then (b, False, [])
      else if t \<in> set (br_attached b) then (b, True, [])
      else (b\<lparr>br_attached := t # br_attached b\<rparr>, True, [AttachCurrentThread t]))"

definition to_java :: "nat \<Rightarrow> java_method \<Rightarrow> jni_call list \<Rightarrow> 'd bridge \<Rightarrow> 'd bridge \<times> jni_call list" where
  "to_java t method calls b =
     (case getEnv t b of (b', env, attach) \<Rightarrow>
        (b', attach @ (if \<not> env \<or> \<not> br_callbackObj b' \<or> \<not> br_methods b' method then [] else calls)))"

definition onStateChanged :: "nat \<Rightarrow> string \<Rightarrow> 'd bridge \<Rightarrow> 'd bridge \<times> jni_call list" where
  "onStateChanged t key = to_java t On_state_changed
     [NewStringUTF key, CallVoidMethod On_state_changed [JString key], DeleteLocalRef key]"

definition onConnectionChanged :: "nat \<Rightarrow> int \<Rightarrow> int \<Rightarrow> 'd bridge \<Rightarrow> 'd bridge \<times> jni_call list" where
  "onConnectionChanged t st attempt = to_java t On_connection_changed
     [CallVoidMethod On_connection_changed [JInt st, JInt attempt]]"

definition onError :: "nat \<Rightarrow> int \<Rightarrow> string \<Rightarrow> 'd bridge \<Rightarrow> 'd bridge \<times> jni_call list" where
  "onError t code msg = to_java t On_error
     [NewStringUTF msg, CallVoidMethod On_error [JInt code, JString msg], DeleteLocalRef msg]"

text \<open>Registered, but the engine never reports a spot.\<close>

definition onSpotReceived ::
  "nat \<Rightarrow> string \<Rightarrow> int \<Rightarrow> string \<Rightarrow> string \<Rightarrow> int \<Rightarrow> 'd bridge \<Rightarrow> 'd bridge \<times> jni_call list" where
  "onSpotReceived t callsign freq_hz spotter comment timestamp = to_java t On_spot_received
     [NewStringUTF callsign, NewStringUTF spotter, NewStringUTF comment,
      CallVoidMethod On_spot_received [JString callsign, JLong freq_hz, JString spotter, JString comment, JLong timestamp],
      DeleteLocalRef callsign, DeleteLocalRef spotter, DeleteLocalRef comment]"

fun deliver :: "nat \<Rightarrow> engine_event \<Rightarrow> 'd bridge \<Rightarrow> 'd bridge \<times> jni_call list" where
  "deliver t (StateCb key) b = onStateChanged t key b"
| "deliver t (ConnectionCb st attempt) b = onConnectionChanged t st attempt b"
| "deliver t (ErrorCb code msg) b = onError t code msg b"
| "deliver t _ b = (b, [])"

datatype bridge_event = Core engine_event | Jni jni_call

type_synonym 'a bridged = "bridge_event list \<times> 'a option"

text \<open>What the core does on thread \<open>t\<close>, with each callback on its way to Java.\<close>

primrec route :: "nat \<Rightarrow> engine_event list \<Rightarrow> 'd bridge \<Rightarrow> 'd bridge \<times> bridge_event list" where
  "route t [] b = (b, [])"
| "route t (ev # evs) b =
     (case deliver t ev b of (b1, calls) \<Rightarrow>
      (case route t evs b1 of (b2, trace) \<Rightarrow> (b2, Core ev # map Jni calls @ trace)))"

definition call_core :: "nat \<Rightarrow> 'a outcome \<Rightarrow> 'd bridge \<Rightarrow> ('d bridge \<times> 'a) bridged" where
  "call_core t r b = (case r of (evs, x) \<Rightarrow> (case route t evs b of (b', trace) \<Rightarrow> (trace, map_option (Pair b') x)))"

definition core_void :: "nat \<Rightarrow> 'd engine option outcome \<Rightarrow> 'd bridge \<Rightarrow> 'd bridge bridged" where
  "core_void t r b = (case call_core t r b of (trace, x) \<Rightarrow> (trace, map_option (\<lambda>(b', h). b'\<lparr>br_handle := h\<rparr>) x))"

section \<open>Native methods\<close>

definition native_config :: "int \<Rightarrow> int \<Rightarrow> qk4_config" where
  "native_config jitterMs spectrumFps =
     \<lparr>cfg_audio_jitter_ms = (if jitterMs > 0 then jitterMs else 40),
      cfg_spectrum_max_fps = (if spectrumFps > 0 then spectrumFps else 30),
      cfg_keepalive_interval_s = 15, cfg_keepalive_max_probes = 3, cfg_reconnect_max_attempts = 10\<rparr>"

definition register_callbacks :: "'d platform \<Rightarrow> 'd engine option \<Rightarrow> 'd engine option outcome" where
  "register_callbacks pf h =
     and_then (and_then (and_then (qk4_set_state_callback pf h True)
       (\<lambda>h. qk4_set_connection_callback pf h True))
       (\<lambda>h. qk4_set_error_callback pf h True))
       (\<lambda>h. qk4_dxcluster_set_spot_callback pf h True)"

text \<open>\<open>found\<close> tells which of the methods \<open>GetMethodID\<close> finds.\<close>

definition nativeInitialize ::
  "'d platform \<Rightarrow> nat \<Rightarrow> int \<Rightarrow> int \<Rightarrow> bool \<Rightarrow> 'd option \<Rightarrow> (java_method \<Rightarrow> bool) \<Rightarrow> 'd bridge \<Rightarrow>
     ('d bridge \<times> bool) bridged" where
  "nativeInitialize pf t jitterMs spectrumFps alloc opus found b =
     (if br_initialized b then ([], Some (b, True))
      else
        (case qk4_create (Some (native_config jitterMs spectrumFps)) alloc opus of
           None \<Rightarrow> ([], Some (b\<lparr>br_handle := None\<rparr>, False))
         | Some e \<Rightarrow>
             (case core_void t (register_callbacks pf (Some e))
                     (b\<lparr>br_handle := Some e, br_callbackObj := True, br_methods := found\<rparr>) of
                (trace, x) \<Rightarrow>
                  (map Jni [NewGlobalRef, GetMethodID On_state_changed, GetMethodID On_connection_changed,
                     GetMethodID On_error, GetMethodID On_spot_received] @ trace,
                   map_option (\<lambda>b'. (b'\<lparr>br_initialized := True\<rparr>, True)) x))))"

text \<open>\<open>qk4_destroy\<close> frees the engine, the handle is cleared.\<close>

definition destroy_handle :: "'d platform \<Rightarrow> nat \<Rightarrow> 'd bridge \<Rightarrow> 'd bridge bridged" where
  "destroy_handle pf t b =
     (case br_handle b of
        None \<Rightarrow> ([], Some b)
      | Some e \<Rightarrow> (case call_core t (qk4_destroy pf (Some e)) b of
                    (trace, x) \<Rightarrow> (trace, map_option (\<lambda>(b', h). b'\<lparr>br_handle := None\<rparr>) x)))"

definition nativeDestroy :: "'d platform \<Rightarrow> nat \<Rightarrow> 'd bridge \<Rightarrow> 'd bridge bridged" where
  "nativeDestroy pf t b =
     (case destroy_handle pf t b of
        (trace, None) \<Rightarrow> (trace, None)
      | (trace, Some b') \<Rightarrow>
          (trace @ (if br_callbackObj b' then [Jni DeleteGlobalRef] else []),
           Some (b'\<lparr>br_callbackObj := False, br_initialized := False\<rparr>)))"

definition JNI_OnUnload :: "'d platform \<Rightarrow> nat \<Rightarrow> 'd bridge \<Rightarrow> 'd bridge bridged" where
  "JNI_OnUnload pf t b =
     (case destroy_handle pf t b of (trace, x) \<Rightarrow>
        (trace, map_option (\<lambda>b'. b'\<lparr>br_initialized := False, br_jvm := False\<rparr>) x))"

definition nativeConnect ::
  "'d platform \<Rightarrow> connect_env \<Rightarrow> nat \<Rightarrow> string \<Rightarrow> int \<Rightarrow> byte list option \<Rightarrow> bool \<Rightarrow> 'd bridge \<Rightarrow>
     ('d bridge \<times> int) bridged" where
  "nativeConnect pf env t host port psk useTls b =
     (if \<not> br_initialized b then ([], Some (b, QK4_ERR_INVALID_HANDLE))
      else
        (let elements = (\<lambda>call. if psk = None then [] else [Jni call]);
             len = (case psk of None \<Rightarrow> 0 | Some bytes \<Rightarrow> length bytes)
         in case call_core t (qk4_connect pf env (br_handle b) (Some host) (port mod 65536) psk len (if useTls then 1 else 0)) b of
              (trace, None) \<Rightarrow> (Jni GetStringUTFChars # elements GetByteArrayElements @ trace, None)
            | (trace, Some (b', h, result)) \<Rightarrow>
                (Jni GetStringUTFChars # elements GetByteArrayElements @ trace @
                   Jni ReleaseStringUTFChars # elements ReleaseByteArrayElements,
                 Some (b'\<lparr>br_handle := h\<rparr>, result))))"

definition nativeDisconnect :: "'d platform \<Rightarrow> nat \<Rightarrow> 'd bridge \<Rightarrow> 'd bridge bridged" where
  "nativeDisconnect pf t b = (if \<not> br_initialized b then ([], Some b) else core_void t (qk4_disconnect pf (br_handle b)) b)"

definition native_query :: "int \<Rightarrow> ('d engine option \<Rightarrow> int) \<Rightarrow> 'd bridge \<Rightarrow> int" where
  "native_query default_value query b = (if \<not> br_initialized b then default_value else query (br_handle b))"

definition nativeGetConnectionState :: "'d bridge \<Rightarrow> int" where
  "nativeGetConnectionState = native_query QK4_CONN_DISCONNECTED qk4_get_connection_state"

definition nativeGetFrequency :: "int \<Rightarrow> 'd bridge \<Rightarrow> int" where
  "nativeGetFrequency vfo = native_query 0 (\<lambda>h. qk4_get_frequency h vfo)"

definition nativeGetMode :: "int \<Rightarrow> 'd bridge \<Rightarrow> int" where
  "nativeGetMode vfo = native_query 0 (\<lambda>h. qk4_get_mode h vfo)"

definition nativeGetSmeter :: "int \<Rightarrow> 'd bridge \<Rightarrow> int" where
  "nativeGetSmeter vfo = native_query 0 (\<lambda>h. qk4_get_smeter h vfo)"

text \<open>The commands, which change nothing in the engine.\<close>

definition native_command :: "('d engine option \<Rightarrow> int \<times> engine_event list) \<Rightarrow> 'd bridge \<Rightarrow> int \<times> bridge_event list" where
  "native_command command b =
     (if \<not> br_initialized b then (QK4_ERR_INVALID_HANDLE, [])
      else (case command (br_handle b) of (code, evs) \<Rightarrow> (code, map Core evs)))"

definition nativeSetFrequency :: "int \<Rightarrow> int \<Rightarrow> 'd bridge \<Rightarrow> int \<times> bridge_event list" where
  "nativeSetFrequency vfo freqHz = native_command (\<lambda>h. qk4_set_frequency h vfo freqHz)"

definition nativeSetMode :: "int \<Rightarrow> int \<Rightarrow> 'd bridge \<Rightarrow> int \<times> bridge_event list" where
  "nativeSetMode vfo mode = native_command (\<lambda>h. qk4_set_mode h vfo mode)"

definition nativeSetPtt :: "bool \<Rightarrow> 'd bridge \<Rightarrow> int \<times> bridge_event list" where
  "nativeSetPtt on = native_command (\<lambda>h. qk4_set_ptt h (if on then 1 else 0))"

definition nativeSetBand :: "int \<Rightarrow> 'd bridge \<Rightarrow> int \<times> bridge_event list" where
  "nativeSetBand bandId = native_command (\<lambda>h. qk4_set_band h bandId)"

definition nativeSetPower :: "int \<Rightarrow> 'd bridge \<Rightarrow> int \<times> bridge_event list" where
  "nativeSetPower watts = native_command (\<lambda>h. qk4_set_power h watts)"

definition nativeSetVolume :: "'d platform \<Rightarrow> nat \<Rightarrow> int \<Rightarrow> int \<Rightarrow> 'd bridge \<Rightarrow> 'd bridge bridged" where
  "nativeSetVolume pf t channel level b =
     (if \<not> br_initialized b then ([], Some b) else core_void t (qk4_audio_set_volume pf (br_handle b) channel level) b)"

definition nativeCwKey :: "nat \<Rightarrow> int \<Rightarrow> 'd bridge \<Rightarrow> 'd bridge bridged" where
  "nativeCwKey t element b =
     (if \<not> br_initialized b then ([], Some b) else core_void t (qk4_cw_key (br_handle b) element) b)"

definition nativeCwSetSpeed :: "'d platform \<Rightarrow> nat \<Rightarrow> int \<Rightarrow> 'd bridge \<Rightarrow> 'd bridge bridged" where
  "nativeCwSetSpeed pf t wpm b =
     (if \<not> br_initialized b then ([], Some b) else core_void t (qk4_cw_set_speed pf (br_handle b) wpm) b)"

section \<open>The application\<close>

text \<open>A native method called from thread \<open>t\<close>, or a step of the engine on one of its own threads.\<close>

datatype 'd native =
    Initialize int int bool "'d option" "java_method \<Rightarrow> bool"
  | Destroy_native
  | Connect_native connect_env string int "byte list option" bool
  | Disconnect_native
  | Command_native command
  | Volume_native int int
  | Cw_key_native int
  | Cw_speed_native int
  | Core_step step

primrec native_step :: "'d platform \<Rightarrow> nat \<Rightarrow> 'd native \<Rightarrow> 'd bridge \<Rightarrow> 'd bridge bridged" where
  "native_step pf t (Initialize jitterMs spectrumFps alloc opus found) b =
     apsnd (map_option fst) (nativeInitialize pf t jitterMs spectrumFps alloc opus found b)"
| "native_step pf t Destroy_native b = nativeDestroy pf t b"
| "native_step pf t (Connect_native env host port psk useTls) b =
     apsnd (map_option fst) (nativeConnect pf env t host port psk useTls b)"
| "native_step pf t Disconnect_native b = nativeDisconnect pf t b"
| "native_step pf t (Command_native c) b = (snd (native_command (api_command c) b), Some b)"
| "native_step pf t (Volume_native channel level) b = nativeSetVolume pf t channel level b"
| "native_step pf t (Cw_key_native element) b = nativeCwKey t element b"
| "native_step pf t (Cw_speed_native wpm) b = nativeCwSetSpeed pf t wpm b"
| "native_step pf t (Core_step s) b = core_void t (system_step pf s (br_handle b)) b"

primrec native_run :: "'d platform \<Rightarrow> (nat \<times> 'd native) list \<Rightarrow> 'd bridge \<Rightarrow> 'd bridge bridged" where
  "native_run pf [] b = ([], Some b)"
| "native_run pf (c # cs) b =
     (case native_step pf (fst c) (snd c) b of
        (trace, None) \<Rightarrow> (trace, None)
      | (trace, Some b') \<Rightarrow> (case native_run pf cs b' of (trace', x) \<Rightarrow> (trace @ trace', x)))"

section \<open>The global reference\<close>

text \<open>
  Whether the reference to the callback object is live after a trace, \<open>None\<close> if on the way it was
  created twice, deleted when there was none, or used when it was gone.
\<close>

fun ref_live :: "bool \<Rightarrow> bridge_event list \<Rightarrow> bool option" where
  "ref_live l [] = Some l"
| "ref_live l (Jni NewGlobalRef # tr) = (if l then None else ref_live True tr)"
| "ref_live l (Jni DeleteGlobalRef # tr) = (if l then ref_live False tr else None)"
| "ref_live l (Jni (CallVoidMethod m args) # tr) = (if l then ref_live l tr else None)"
| "ref_live l (_ # tr) = ref_live l tr"

lemma ref_live_append: "ref_live l (xs @ ys) = Option.bind (ref_live l xs) (\<lambda>l'. ref_live l' ys)"
  by (induction l xs rule: ref_live.induct) auto

lemma ref_live_core [simp]: "ref_live l (map Core evs) = Some l"
  by (induction evs) auto

text \<open>A callback changes nothing but the attached threads and uses the reference only when it is there.\<close>

definition same_globals :: "'d bridge \<Rightarrow> 'd bridge \<Rightarrow> bool" where
  "same_globals b b' \<longleftrightarrow> br_handle b' = br_handle b \<and> br_initialized b' = br_initialized b \<and> br_jvm b' = br_jvm b \<and>
     br_callbackObj b' = br_callbackObj b \<and> br_methods b' = br_methods b"

lemma deliver_ok:
  "same_globals b (fst (deliver t ev b)) \<and> ref_live (br_callbackObj b) (map Jni (snd (deliver t ev b))) = Some (br_callbackObj b)"
  by (cases ev) (simp_all add: same_globals_def onStateChanged_def onConnectionChanged_def onError_def to_java_def getEnv_def)

lemma route_ok:
  "same_globals b (fst (route t evs b)) \<and> ref_live (br_callbackObj b) (snd (route t evs b)) = Some (br_callbackObj b)"
proof (induction evs arbitrary: b)
  case (Cons ev evs)
  define b1 where "b1 = fst (deliver t ev b)"
  have 1: "same_globals b b1" "ref_live (br_callbackObj b) (map Jni (snd (deliver t ev b))) = Some (br_callbackObj b)"
    using deliver_ok [of b t ev] by (simp_all add: b1_def)
  with Cons.IH [of b1] show ?case
    by (auto simp: split_beta b1_def [symmetric] ref_live_append same_globals_def)
qed (simp add: same_globals_def)

section \<open>The invariant of the bridge\<close>

definition bridge_ok :: "'d bridge \<Rightarrow> bool" where
  "bridge_ok b \<longleftrightarrow> br_initialized b = (br_handle b \<noteq> None) \<and> br_callbackObj b = br_initialized b"

text \<open>A trace that fits the bridge before it and, if it ends, the one after it.\<close>

definition fits :: "('a \<Rightarrow> 'd bridge) \<Rightarrow> bool \<Rightarrow> 'a bridged \<Rightarrow> bool" where
  "fits br l r \<longleftrightarrow> (\<exists>l'. ref_live l (fst r) = Some l' \<and> (\<forall>x. snd r = Some x \<longrightarrow> bridge_ok (br x) \<and> l' = br_callbackObj (br x)))"

text \<open>A call of the core that keeps an engine behind the handle.\<close>

definition keeps_handle :: "'d engine option outcome \<Rightarrow> bool" where
  "keeps_handle r \<longleftrightarrow> (\<forall>h. snd r = Some h \<longrightarrow> h \<noteq> None)"

lemma keeps_validate: "keeps_handle (validate_void (Some e) call)"
  by (auto simp: keeps_handle_def validate_void_def and_then_def emit_def split: prod.splits option.splits)

lemma keeps_validate_code: "snd (validate_code (Some e) call) = Some (h, code) \<Longrightarrow> h \<noteq> None"
  by (auto simp: validate_code_def and_then_def emit_def split: prod.splits option.splits)

lemma keeps_drop_code: "keeps_handle (drop_code (validate_code (Some e) call))"
  using keeps_validate_code [of e call]
  by (auto simp: keeps_handle_def drop_code_def and_then_def emit_def split: prod.splits option.splits)

lemma keeps_system_step: "keeps_handle (system_step pf s (Some e))"
  by (cases s)
    (simp_all add: api_defs api_set_callback_eq keeps_validate qk4_connect_def qk4_set_nr_def keeps_drop_code, simp_all add: keeps_handle_def emit_def)

lemma fits_core_void:
  assumes "bridge_ok b" "br_handle b \<noteq> None \<Longrightarrow> keeps_handle r" "br_handle b = None \<Longrightarrow> r = ([], Some None)"
  shows "fits id (br_callbackObj b) (core_void t r b)"
proof (cases "br_handle b = None")
  case True
  then show ?thesis using assms(1,3) by (auto simp: core_void_def call_core_def fits_def bridge_ok_def)
next
  case False
  then show ?thesis using route_ok [of b t "fst r"] assms(1,2)
    by (auto simp: core_void_def call_core_def fits_def bridge_ok_def same_globals_def keeps_handle_def split_beta)
qed

lemma keeps_and_then:
  assumes "keeps_handle r" "\<And>e. keeps_handle (f (Some e))"
  shows "keeps_handle (and_then r f)"
proof (cases "snd r")
  case None
  then show ?thesis by (cases r) (simp add: keeps_handle_def and_then_def)
next
  case (Some h)
  then obtain e where "snd r = Some (Some e)" using assms(1) by (auto simp: keeps_handle_def)
  with assms(2) [of e] show ?thesis by (cases r) (simp add: keeps_handle_def and_then_def split_beta)
qed

lemma keeps_register: "keeps_handle (register_callbacks pf (Some e))"
  unfolding register_callbacks_def by (intro keeps_and_then) (simp_all add: callback_defs keeps_validate)

lemma fits_initialize:
  assumes "bridge_ok b"
  shows "fits fst (br_callbackObj b) (nativeInitialize pf t j f alloc opus found b)"
proof (cases "br_initialized b \<or> qk4_create (Some (native_config j f)) alloc opus = None")
  case True
  then show ?thesis using assms by (auto simp: nativeInitialize_def fits_def bridge_ok_def)
next
  case False
  then obtain e where e: "qk4_create (Some (native_config j f)) alloc opus = Some e" by blast
  let ?b = "b\<lparr>br_handle := Some e, br_callbackObj := True, br_methods := found\<rparr>"
  have "same_globals ?b (fst (route t (fst (register_callbacks pf (Some e))) ?b))"
    "ref_live True (snd (route t (fst (register_callbacks pf (Some e))) ?b)) = Some True"
    using route_ok [of ?b t "fst (register_callbacks pf (Some e))"] by simp_all
  then show ?thesis using False e assms keeps_register [of pf e]
    by (auto simp: nativeInitialize_def core_void_def call_core_def fits_def bridge_ok_def same_globals_def
        keeps_handle_def split_beta)
qed

lemma fits_destroy:
  assumes "bridge_ok b"
  shows "fits id (br_callbackObj b) (nativeDestroy pf t b)"
proof (cases "br_handle b")
  case None
  then show ?thesis using assms by (auto simp: nativeDestroy_def destroy_handle_def fits_def bridge_ok_def)
next
  case (Some e)
  then show ?thesis using route_ok [of b t "fst (qk4_destroy pf (Some e))"] assms
    by (auto simp: nativeDestroy_def destroy_handle_def call_core_def fits_def bridge_ok_def same_globals_def
        ref_live_append split_beta split: option.splits)
qed

lemma fits_connect:
  assumes "bridge_ok b"
  shows "fits fst (br_callbackObj b) (nativeConnect pf env t host port psk useTls b)"
proof (cases "br_handle b")
  case None
  then show ?thesis using assms by (auto simp: nativeConnect_def fits_def bridge_ok_def)
next
  case (Some e)
  have keeps: "h \<noteq> None" if "snd (qk4_connect pf env (Some e) hst p k n tls) = Some (h, r)" for hst p k n tls h r
    using that unfolding qk4_connect_def by (rule keeps_validate_code)
  let ?call = "qk4_connect pf env (Some e) (Some host) (port mod 65536) psk
    (case psk of None \<Rightarrow> 0 | Some bytes \<Rightarrow> length bytes) (if useTls then 1 else 0)"
  show ?thesis using route_ok [of b t "fst ?call"] assms Some keeps [of "Some host" "port mod 65536" psk
      "case psk of None \<Rightarrow> 0 | Some bytes \<Rightarrow> length bytes" "if useTls then 1 else 0"]
    by (cases "snd ?call"; cases psk)
      (auto simp: nativeConnect_def call_core_def fits_def bridge_ok_def same_globals_def ref_live_append split_beta Let_def)
qed

lemma call_null [simp]:
  "qk4_disconnect pf None = ([], Some None)" "qk4_audio_set_volume pf None c l = ([], Some None)"
  "qk4_cw_key None k = ([], Some None)" "qk4_cw_set_speed pf None w = ([], Some None)"
  by (simp_all add: api_defs validate_void_def emit_def)

lemma fits_step:
  assumes "bridge_ok b"
  shows "fits id (br_callbackObj b) (native_step pf t c b)"
proof -
  have lift: "fits id l (apsnd (map_option fst) r)" if "fits fst l r" for l and r :: "('a bridge \<times> 'x) bridged"
    using that by (auto simp: fits_def)
  have unchanged: "fits id (br_callbackObj b) (map Core evs, Some b)" for evs using assms by (simp add: fits_def)
  have core: "fits id (br_callbackObj b) (core_void t r b)"
    if "\<And>e. br_handle b = Some e \<Longrightarrow> keeps_handle r" "br_handle b = None \<Longrightarrow> r = ([], Some None)" for r
    using that by (intro fits_core_void [OF assms]) auto
  have idle: "fits id (br_callbackObj b) ([], Some b)" using unchanged [of "[]"] by simp
  show ?thesis
  proof (cases c)
    case (Initialize j f alloc opus found)
    then show ?thesis using lift [OF fits_initialize [OF assms]] by simp
  next
    case (Connect_native env host port psk useTls)
    then show ?thesis using lift [OF fits_connect [OF assms]] by simp
  next
    case (Command_native cmd)
    then show ?thesis using unchanged idle by (auto simp: native_command_def split_beta)
  next
    case (Core_step s)
    then show ?thesis by (auto intro!: core simp: keeps_system_step step_null)
  qed (auto simp: fits_destroy [OF assms] nativeDisconnect_def nativeSetVolume_def nativeCwKey_def nativeCwSetSpeed_def
      api_defs keeps_validate validate_void_def [of None] emit_def intro!: core idle)
qed

lemma fits_run:
  "bridge_ok b \<Longrightarrow> fits id (br_callbackObj b) (native_run pf cs b)"
proof (induction cs arbitrary: b)
  case (Cons c cs)
  note step = fits_step [OF Cons.prems, of pf "fst c" "snd c"]
  show ?case
  proof (cases "snd (native_step pf (fst c) (snd c) b)")
    case None
    then show ?thesis using step by (cases "native_step pf (fst c) (snd c) b") (simp add: fits_def)
  next
    case (Some b')
    then have "bridge_ok b'" "ref_live (br_callbackObj b) (fst (native_step pf (fst c) (snd c) b)) = Some (br_callbackObj b')"
      using step by (auto simp: fits_def)
    with Cons.IH [of b'] Some show ?thesis
      by (cases "native_step pf (fst c) (snd c) b") (auto simp: fits_def ref_live_append split_beta)
  qed
qed (simp add: fits_def)

section \<open>Properties\<close>


lemma registered:
  assumes "en_cbLocks e = 0"
  shows "register_callbacks pf (Some e) = ([], Some (Some (e\<lparr>en_callbacks := (en_callbacks e)
    \<lparr>m_stateCb := True, m_connectionCb := True, m_errorCb := True, m_spotCb := True\<rparr>\<rparr>)))"
proof -
  have step: "validate_void (Some e) (setCallback pf store) = ([], Some (Some (e\<lparr>en_callbacks := store (en_callbacks e)\<rparr>)))"
    if "en_cbLocks e = 0" for e :: "'a engine" and store
    using that by (cases e) (simp add: validate_void_def setCallback_def lock_defs and_then_def)
  then show ?thesis using assms by (cases e) (simp add: register_callbacks_def callback_defs and_then_def)
qed

lemma initialized_bridge:
  assumes "\<not> br_initialized b" "br_jvm b" "found On_connection_changed"
  obtains e b1 tr where "nativeInitialize pf t j f True opus found b = (tr, Some (b1, True))" "br_handle b1 = Some e"
    "br_initialized b1" "br_jvm b1" "br_callbackObj b1" "br_methods b1 On_connection_changed"
    "rs_changeCb (en_radio e)" "en_cbLocks e = 0" "m_connectionCb (en_callbacks e)"
proof -
  obtain e0 where e0: "qk4_create (Some (native_config j f)) True opus = Some e0" "en_cbLocks e0 = 0" "rs_changeCb (en_radio e0)"
    by (simp add: qk4_create_def Let_def engine_new_def setChangeCallback_def)
  have "\<exists>tr b1. nativeInitialize pf t j f True opus found b = (tr, Some (b1, True)) \<and> br_initialized b1 \<and> br_jvm b1 \<and>
      br_callbackObj b1 \<and> br_methods b1 On_connection_changed \<and> br_handle b1 = Some (e0\<lparr>en_callbacks := (en_callbacks e0)
        \<lparr>m_stateCb := True, m_connectionCb := True, m_errorCb := True, m_spotCb := True\<rparr>\<rparr>)"
    using assms e0 by (simp add: nativeInitialize_def core_void_def call_core_def registered)
  with that e0 show thesis by fastforce
qed

text \<open>
  C6. On a platform where a thread cannot lock a \<open>std::mutex\<close> it already holds, as on Android, a
  freshly initialised application that connects is shown \<open>CONNECTING\<close> and its call never returns.
\<close>

theorem application_connect_hangs:
  assumes "\<not> pf_relock pf" and "\<not> br_initialized b" and "br_jvm b" and "found On_connection_changed"
  shows "\<exists>tr b1 seen. nativeInitialize pf t j f True opus found b = (tr, Some (b1, True)) \<and>
     nativeConnect pf env t host port psk useTls b1 = (seen, None) \<and>
     filter (\<lambda>ev. \<exists>c. ev = Core c) seen = [Core (ConnectionCb QK4_CONN_CONNECTING 0)] \<and>
     last seen = Jni (CallVoidMethod On_connection_changed [JInt QK4_CONN_CONNECTING, JInt 0])"
proof -
  obtain e b1 tr where init: "nativeInitialize pf t j f True opus found b = (tr, Some (b1, True))" "br_handle b1 = Some e"
    "br_initialized b1" "br_jvm b1" "br_callbackObj b1" "br_methods b1 On_connection_changed"
    "rs_changeCb (en_radio e)" "en_cbLocks e = 0" "m_connectionCb (en_callbacks e)"
    using initialized_bridge [where found = found, OF assms(2-4)] by metis
  have "qk4_connect pf env (Some e) (Some host) p k n tls = ([ConnectionCb QK4_CONN_CONNECTING 0], None)" for p k n tls
    using assms(1) init(7-9)
    by (simp add: qk4_connect_def validate_code_def engine_connect_def notifyConnectionState_blocks and_then_def)
  with init show ?thesis
    by (cases "t \<in> set (br_attached b1)"; cases psk)
      (auto simp: nativeConnect_def call_core_def onConnectionChanged_def to_java_def getEnv_def Let_def)
qed

theorem application_connect_hangs_witness:
  "\<exists>b1 seen. nativeConnect posix radio_env 1 ''k4.local'' 9205 None False b1 = (seen, None) \<and> br_initialized b1"
  using application_connect_hangs [of posix "JNI_OnLoad (bridge_globals [1])" "\<lambda>_. True" 1 40 30 "Some ()" radio_env "''k4.local''" 9205 None False]
  by (auto simp: posix_def JNI_OnLoad_def bridge_globals_def nativeConnect_def split: if_splits)

text \<open>
  A thread of the engine that has called back into Java stays attached to the VM when it ends: nothing
  detaches it, which the VM requires of a native thread before it exits.
\<close>

theorem callback_thread_stays_attached:
  assumes "br_jvm b" and "t \<in> set (br_attached b) \<or> (\<exists>key. StateCb key \<in> set evs)"
  shows "t \<in> set (br_attached (fst (route t evs b)))"
  using assms
proof (induction evs arbitrary: b)
  case (Cons ev evs)
  have jvm: "br_jvm (fst (deliver t ev b))" using deliver_ok [of b t ev] Cons.prems(1) by (simp add: same_globals_def)
  have "t \<in> set (br_attached (fst (deliver t ev b))) \<or> (\<exists>key. StateCb key \<in> set evs)"
    using Cons.prems
    by (cases ev) (auto simp: onStateChanged_def onConnectionChanged_def onError_def to_java_def getEnv_def)
  with Cons.IH [OF jvm] show ?case by (simp add: split_beta)
qed simp

end
