(* ===== verification/JniRace.thy ===== *)
theory JniRace
  imports Main
begin

text \<open>
  The globals of the JNI bridge (\<open>android/app/src/main/cpp/jni_bridge.cpp\<close>) under concurrent calls: any
  number of Java threads in any native method, and threads of the engine in callbacks, one step per
  access of a global. \<open>nativeInitialize\<close>, \<open>nativeDestroy\<close> and \<open>JNI_OnUnload\<close> hold \<open>g_mutex\<close>; the other
  methods read \<open>g_initialized\<close> and then \<open>g_handle\<close> without it, the callbacks \<open>g_callbackObj\<close>. Engines and
  global references are addresses; what a method does inside the engine is one step.
\<close>

section \<open>State\<close>

text \<open>
  Where a thread is. The flag of the tear-down steps tells \<open>nativeDestroy\<close> from \<open>JNI_OnUnload\<close>, which
  leaves the reference to the callback object alone.
\<close>

datatype pc =
    Idle
  | Init_locked | Init_created | Init_referenced | Init_done
  | Down_locked bool | Down_destroying bool nat | Down_freed bool | Down_cleared bool | Down_deleted | Down_storing
  | Down_done
  | Method_entered | In_engine "nat option"
  | Callback_checked | Calling_java "nat option"

record race =
  ra_handle :: "nat option"
  ra_initialized :: bool
  ra_callbackObj :: "nat option"
  ra_mutex :: "nat option"
  ra_engines :: "nat list"
  ra_refs :: "nat list"
  ra_next :: nat
  ra_pc :: "nat \<Rightarrow> pc"

definition race_init :: race where
  "race_init = \<lparr>ra_handle = None, ra_initialized = False, ra_callbackObj = None, ra_mutex = None,
     ra_engines = [], ra_refs = [], ra_next = 0, ra_pc = (\<lambda>_. Idle)\<rparr>"

section \<open>Steps\<close>

datatype job = Do_initialize | Do_destroy | Do_unload | Do_method | Do_callback

definition goto :: "nat \<Rightarrow> pc \<Rightarrow> race \<Rightarrow> race" where
  "goto t l s = s\<lparr>ra_pc := (ra_pc s)(t := l)\<rparr>"

text \<open>\<open>std::lock_guard\<close>: \<open>None\<close> while the thread has to wait.\<close>

definition lock :: "nat \<Rightarrow> pc \<Rightarrow> race \<Rightarrow> race option" where
  "lock t l s = (if ra_mutex s = None then Some (goto t l (s\<lparr>ra_mutex := Some t\<rparr>)) else None)"

definition unlock :: "nat \<Rightarrow> race \<Rightarrow> race" where
  "unlock t s = goto t Idle (s\<lparr>ra_mutex := None\<rparr>)"

definition initialize_step :: "nat \<Rightarrow> bool \<Rightarrow> pc \<Rightarrow> race \<Rightarrow> race" where
  "initialize_step t alloc l s =
     (if l = Init_locked then
        (if ra_initialized s then goto t Init_done s
         else if alloc then
           goto t Init_created (s\<lparr>ra_handle := Some (ra_next s), ra_engines := ra_next s # ra_engines s, ra_next := ra_next s + 1\<rparr>)
         else goto t Init_done (s\<lparr>ra_handle := None\<rparr>))
      else if l = Init_created then
        goto t Init_referenced (s\<lparr>ra_callbackObj := Some (ra_next s), ra_refs := ra_next s # ra_refs s, ra_next := ra_next s + 1\<rparr>)
      else if l = Init_referenced then goto t Init_done (s\<lparr>ra_initialized := True\<rparr>)
      else unlock t s)"

fun teardown_step :: "nat \<Rightarrow> pc \<Rightarrow> race \<Rightarrow> race" where
  "teardown_step t (Down_locked ref) s =
     (case ra_handle s of None \<Rightarrow> goto t (Down_cleared ref) s | Some a \<Rightarrow> goto t (Down_destroying ref a) s)"
| "teardown_step t (Down_destroying ref a) s = goto t (Down_freed ref) (s\<lparr>ra_engines := remove1 a (ra_engines s)\<rparr>)"
| "teardown_step t (Down_freed ref) s = goto t (Down_cleared ref) (s\<lparr>ra_handle := None\<rparr>)"
| "teardown_step t (Down_cleared ref) s =
     (case ra_callbackObj s of
        Some r \<Rightarrow> if ref then goto t Down_deleted (s\<lparr>ra_refs := remove1 r (ra_refs s)\<rparr>) else goto t Down_storing s
      | None \<Rightarrow> goto t Down_storing s)"
| "teardown_step t Down_deleted s = goto t Down_storing (s\<lparr>ra_callbackObj := None\<rparr>)"
| "teardown_step t Down_storing s = goto t Down_done (s\<lparr>ra_initialized := False\<rparr>)"
| "teardown_step t _ s = unlock t s"

fun method_step :: "nat \<Rightarrow> pc \<Rightarrow> race \<Rightarrow> race" where
  "method_step t Method_entered s = goto t (In_engine (ra_handle s)) s"
| "method_step t _ s = goto t Idle s"

fun callback_step :: "nat \<Rightarrow> pc \<Rightarrow> race \<Rightarrow> race" where
  "callback_step t Callback_checked s = goto t (Calling_java (ra_callbackObj s)) s"
| "callback_step t _ s = goto t Idle s"

text \<open>The next step of thread \<open>t\<close>; \<open>job\<close> is what an idle thread begins, \<open>alloc\<close> whether \<open>new\<close> succeeds.\<close>

fun begin_job :: "nat \<Rightarrow> job \<Rightarrow> race \<Rightarrow> race option" where
  "begin_job t Do_initialize s = lock t Init_locked s"
| "begin_job t Do_destroy s = lock t (Down_locked True) s"
| "begin_job t Do_unload s = lock t (Down_locked False) s"
| "begin_job t Do_method s = Some (if ra_initialized s then goto t Method_entered s else s)"
| "begin_job t Do_callback s = Some (if ra_callbackObj s = None then s else goto t Callback_checked s)"

fun initializing :: "pc \<Rightarrow> bool" where
  "initializing Init_locked = True" | "initializing Init_created = True" | "initializing Init_referenced = True"
| "initializing Init_done = True" | "initializing _ = False"

fun tearing_down :: "pc \<Rightarrow> bool" where
  "tearing_down (Down_locked _) = True" | "tearing_down (Down_destroying _ _) = True" | "tearing_down (Down_freed _) = True"
| "tearing_down (Down_cleared _) = True" | "tearing_down Down_deleted = True" | "tearing_down Down_storing = True"
| "tearing_down Down_done = True" | "tearing_down _ = False"

fun in_method :: "pc \<Rightarrow> bool" where
  "in_method Method_entered = True" | "in_method (In_engine _) = True" | "in_method _ = False"

definition thread_step :: "nat \<Rightarrow> job \<Rightarrow> bool \<Rightarrow> race \<Rightarrow> race option" where
  "thread_step t job alloc s =
     (let l = ra_pc s t
      in if l = Idle then begin_job t job s
         else if initializing l then Some (initialize_step t alloc l s)
         else if tearing_down l then Some (teardown_step t l s)
         else if in_method l then Some (method_step t l s)
         else Some (callback_step t l s))"

text \<open>A run: which threads take steps, in which order. A thread that waits for the mutex ends it.\<close>

type_synonym schedule = "(nat \<times> job \<times> bool) list"

primrec race_run :: "schedule \<Rightarrow> race \<Rightarrow> race option" where
  "race_run [] s = Some s"
| "race_run (a # as) s = (case a of (t, job, alloc) \<Rightarrow> Option.bind (thread_step t job alloc s) (race_run as))"

lemma race_run_append: "race_run (as @ bs) s = Option.bind (race_run as s) (race_run bs)"
  by (induction as arbitrary: s) (auto split: bind_splits)

section \<open>What can go wrong\<close>

text \<open>A method runs on an engine that has been freed; a callback uses a reference that has been deleted.\<close>

definition use_after_free :: "race \<Rightarrow> bool" where
  "use_after_free s \<longleftrightarrow> (\<exists>t a. ra_pc s t = In_engine (Some a) \<and> a \<notin> set (ra_engines s))"

definition stale_reference :: "race \<Rightarrow> bool" where
  "stale_reference s \<longleftrightarrow> (\<exists>t r. ra_pc s t = Calling_java r \<and> (\<forall>a. r = Some a \<longrightarrow> a \<notin> set (ra_refs s)))"

section \<open>The mutex protects the lifecycle\<close>

abbreviation critical :: "pc \<Rightarrow> bool" where
  "critical l \<equiv> initializing l \<or> tearing_down l"

definition handle_engines :: "race \<Rightarrow> nat list" where
  "handle_engines s = (case ra_handle s of None \<Rightarrow> [] | Some a \<Rightarrow> [a])"

text \<open>What holds of the globals while the holder of the mutex is at \<open>l\<close>, or nobody holds it.\<close>

definition settled :: "race \<Rightarrow> bool" where
  "settled s \<longleftrightarrow> ra_initialized s = (ra_handle s \<noteq> None) \<and> ra_engines s = handle_engines s \<and>
     (ra_initialized s \<longrightarrow> ra_callbackObj s \<noteq> None)"

fun holds_at :: "pc \<Rightarrow> race \<Rightarrow> bool" where
  "holds_at Init_created s = (\<not> ra_initialized s \<and> ra_handle s \<noteq> None \<and> ra_engines s = handle_engines s)"
| "holds_at Init_referenced s =
     (\<not> ra_initialized s \<and> ra_handle s \<noteq> None \<and> ra_engines s = handle_engines s \<and> ra_callbackObj s \<noteq> None)"
| "holds_at (Down_destroying ref a) s = (settled s \<and> ra_handle s = Some a)"
| "holds_at (Down_freed ref) s = (ra_engines s = [])"
| "holds_at (Down_cleared ref) s = (ra_handle s = None \<and> ra_engines s = [])"
| "holds_at Down_deleted s = (ra_handle s = None \<and> ra_engines s = [])"
| "holds_at Down_storing s = (ra_handle s = None \<and> ra_engines s = [])"
| "holds_at _ s = settled s"

definition race_ok :: "race \<Rightarrow> bool" where
  "race_ok s \<longleftrightarrow> (\<forall>t. critical (ra_pc s t) \<longleftrightarrow> ra_mutex s = Some t) \<and>
     (case ra_mutex s of None \<Rightarrow> settled s | Some t \<Rightarrow> holds_at (ra_pc s t) s)"

lemma race_ok_init: "race_ok race_init"
  by (simp add: race_ok_def race_init_def settled_def handle_engines_def)

lemma race_ok_outside:
  assumes "race_ok s" "\<not> critical (ra_pc s t)" "\<not> critical l"
  shows "race_ok (goto t l s)"
proof -
  have "ra_mutex s \<noteq> Some t" using assms(1,2) by (auto simp: race_ok_def)
  moreover have "holds_at m (goto t l s) = holds_at m s" for m
    by (cases m) (simp_all add: goto_def settled_def handle_engines_def)
  moreover have "settled (goto t l s) = settled s" by (simp add: goto_def settled_def handle_engines_def)
  ultimately show ?thesis using assms
    by (auto simp: race_ok_def goto_def split: option.splits)
qed

lemma race_ok_lock:
  assumes "race_ok s" "lock t l s = Some s'" "critical l" "\<And>s. settled s \<Longrightarrow> holds_at l s"
  shows "race_ok s'"
proof -
  have free: "ra_mutex s = None" "s' = goto t l (s\<lparr>ra_mutex := Some t\<rparr>)"
    using assms(2) by (auto simp: lock_def split: if_splits)
  have "settled s'" using assms(1) free by (simp add: race_ok_def goto_def settled_def handle_engines_def)
  then show ?thesis using assms(1,3,4) free by (auto simp: race_ok_def goto_def)
qed

text \<open>A step of the thread that holds the mutex.\<close>

lemma race_ok_inside:
  assumes "race_ok s" "critical (ra_pc s t)" "critical l" "ra_mutex s' = ra_mutex s" "ra_pc s' = ra_pc s"
    "holds_at l (goto t l s')"
  shows "race_ok (goto t l s')"
  using assms by (auto simp: race_ok_def goto_def)

lemma race_ok_unlock:
  assumes "race_ok s" "critical (ra_pc s t)" "settled s"
  shows "race_ok (unlock t s)"
proof -
  have "ra_mutex s = Some t" using assms(1,2) by (simp add: race_ok_def)
  then show ?thesis using assms
    by (auto simp: race_ok_def unlock_def goto_def settled_def handle_engines_def)
qed

lemma race_ok_holds: "race_ok s \<Longrightarrow> critical (ra_pc s t) \<Longrightarrow> holds_at (ra_pc s t) s"
  by (auto simp: race_ok_def)

lemma initialize_step_ok:
  assumes "race_ok s" "initializing (ra_pc s t)"
  shows "race_ok (initialize_step t alloc (ra_pc s t) s)"
  using race_ok_holds [OF assms(1), of t] assms
  by (cases "ra_pc s t")
    (auto simp: initialize_step_def intro!: race_ok_inside [OF assms(1)] race_ok_unlock,
     auto simp: goto_def settled_def handle_engines_def)

lemma teardown_step_ok:
  assumes "race_ok s" "tearing_down (ra_pc s t)"
  shows "race_ok (teardown_step t (ra_pc s t) s)"
  using race_ok_holds [OF assms(1), of t] assms
  by (cases "ra_pc s t")
    (auto split: option.split intro!: race_ok_inside [OF assms(1)] race_ok_unlock,
     auto simp: goto_def settled_def handle_engines_def)

lemma thread_step_ok:
  assumes "race_ok s" "thread_step t job alloc s = Some s'"
  shows "race_ok s'"
proof -
  consider "ra_pc s t = Idle" | "initializing (ra_pc s t)" | "tearing_down (ra_pc s t)"
    | "in_method (ra_pc s t)" | "ra_pc s t = Callback_checked \<or> (\<exists>r. ra_pc s t = Calling_java r)"
    by (cases "ra_pc s t") auto
  then show ?thesis
  proof cases
    case 1
    then show ?thesis using assms
      by (cases job) (auto simp: thread_step_def intro: race_ok_lock race_ok_outside split: if_splits)
  next
    case 2
    then have "s' = initialize_step t alloc (ra_pc s t) s"
      using assms(2) by (cases "ra_pc s t") (simp_all add: thread_step_def)
    with initialize_step_ok [OF assms(1) 2] show ?thesis by simp
  next
    case 3
    then have "s' = teardown_step t (ra_pc s t) s"
      using assms(2) by (cases "ra_pc s t") (simp_all add: thread_step_def)
    with teardown_step_ok [OF assms(1) 3] show ?thesis by simp
  next
    case 4
    then show ?thesis using assms
      by (cases "ra_pc s t") (auto simp: thread_step_def intro: race_ok_outside)
  next
    case 5
    then show ?thesis using assms(2) by (auto simp: thread_step_def intro!: race_ok_outside [OF assms(1)])
  qed
qed

lemma race_run_ok: "race_ok s \<Longrightarrow> race_run as s = Some s' \<Longrightarrow> race_ok s'"
proof (induction as arbitrary: s)
  case (Cons a as)
  then show ?case by (cases a) (auto split: bind_splits intro: thread_step_ok)
qed simp

section \<open>Calls that do not overlap\<close>

text \<open>\<open>P\<close> holds in every state of the run.\<close>

primrec always :: "(race \<Rightarrow> bool) \<Rightarrow> schedule \<Rightarrow> race \<Rightarrow> bool" where
  "always P [] s \<longleftrightarrow> P s"
| "always P (a # as) s \<longleftrightarrow> P s \<and> (case a of (t, job, alloc) \<Rightarrow> pred_option (always P as) (thread_step t job alloc s))"

definition no_overlap :: "race \<Rightarrow> bool" where
  "no_overlap s \<longleftrightarrow> (\<forall>t u. in_method (ra_pc s t) \<longrightarrow> \<not> critical (ra_pc s u))"

definition methods_ok :: "race \<Rightarrow> bool" where
  "methods_ok s \<longleftrightarrow> (\<forall>t. (ra_pc s t = Method_entered \<longrightarrow> ra_initialized s) \<and>
     (\<forall>h. ra_pc s t = In_engine h \<longrightarrow> (\<exists>a. h = Some a \<and> a \<in> set (ra_engines s))))"

lemma methods_ok_idle: "(\<And>t. \<not> in_method (ra_pc s t)) \<Longrightarrow> methods_ok s"
proof -
  assume none: "\<And>t. \<not> in_method (ra_pc s t)"
  have "ra_pc s t \<noteq> Method_entered \<and> ra_pc s t \<noteq> In_engine h" for t h using none [of t] by auto
  then show ?thesis by (simp add: methods_ok_def)
qed

text \<open>A step that neither begins nor ends in a critical section stores nothing.\<close>

lemma outside_step:
  assumes "thread_step t job alloc s = Some s'" "\<not> critical (ra_pc s t)" "\<not> critical (ra_pc s' t)"
  shows "s' = s \<or> (\<exists>l. s' = goto t l s \<and> (l = Method_entered \<longrightarrow> ra_initialized s) \<and>
    (\<forall>h. l = In_engine h \<longrightarrow> ra_pc s t = Method_entered \<and> h = ra_handle s))"
proof (cases "ra_pc s t")
  case Idle
  then show ?thesis using assms
    by (cases job) (auto simp: thread_step_def lock_def goto_def split: if_splits)
qed (use assms in \<open>auto simp: thread_step_def\<close>)

lemma methods_ok_step:
  assumes "race_ok s" "methods_ok s" "no_overlap s" "no_overlap s'" "thread_step t job alloc s = Some s'"
  shows "methods_ok s'"
proof (cases "\<exists>u. in_method (ra_pc s' u)")
  case False
  then show ?thesis by (intro methods_ok_idle) auto
next
  case True
  then obtain u where u: "in_method (ra_pc s' u)" by blast
  with assms(4) have out: "\<not> critical (ra_pc s' t)" by (auto simp: no_overlap_def)
  have quiet: "\<not> critical (ra_pc s t)"
  proof
    assume crit: "critical (ra_pc s t)"
    then have "\<not> in_method (ra_pc s u)" using assms(3) by (auto simp: no_overlap_def)
    moreover have "ra_pc s' = (ra_pc s)(t := Idle)"
      using assms(5) crit out
      by (cases "ra_pc s t") (auto simp: thread_step_def initialize_step_def goto_def unlock_def split: if_splits option.splits)
    ultimately show False using u by (auto split: if_splits)
  qed
  have settled: "settled s" if "in_method (ra_pc s v)" for v
    using that assms(1,3) by (auto simp: race_ok_def no_overlap_def split: option.splits)
  from outside_step [OF assms(5) quiet out] show ?thesis
  proof (elim disjE exE conjE)
    fix l assume l: "s' = goto t l s" "l = Method_entered \<longrightarrow> ra_initialized s"
      "\<forall>h. l = In_engine h \<longrightarrow> ra_pc s t = Method_entered \<and> h = ra_handle s"
    have "\<exists>a. h = Some a \<and> a \<in> set (ra_engines s)" if "l = In_engine h" for h
    proof -
      from l(3) that have at: "ra_pc s t = Method_entered" "h = ra_handle s" by blast+
      with settled [of t] assms(2) show ?thesis by (auto simp: methods_ok_def settled_def handle_engines_def)
    qed
    with l(1,2) assms(2) show ?thesis by (auto simp: methods_ok_def goto_def)
  qed (use assms(2) in simp)
qed

lemma methods_ok_run:
  "race_ok s \<Longrightarrow> methods_ok s \<Longrightarrow> always no_overlap as s \<Longrightarrow> race_run as s = Some s' \<Longrightarrow> methods_ok s'"
proof (induction as arbitrary: s)
  case (Cons a as)
  obtain t job alloc where a: "a = (t, job, alloc)" by (cases a)
  obtain s1 where s1: "thread_step t job alloc s = Some s1" "race_run as s1 = Some s'"
    using Cons.prems(4) by (auto simp: a split: bind_splits)
  have later: "no_overlap s" "always no_overlap as s1" using Cons.prems(3) by (simp_all add: a s1)
  then have "no_overlap s1" by (cases as) simp_all
  with Cons.IH [OF thread_step_ok [OF Cons.prems(1) s1(1)] methods_ok_step [OF Cons.prems(1,2) later(1) _ s1(1)] later(2) s1(2)]
  show ?case by blast
qed simp

section \<open>Properties\<close>

text \<open>
  C38. Whatever threads call whatever native methods, and however they interleave, the mutex protects
  the life of the engine: one thread at a time creates or destroys it, an engine is freed only while
  it is allocated, and whenever no thread is in between, the handle is the one allocated engine or
  null and \<open>g_initialized\<close> tells which.
\<close>

theorem lifecycle_protected:
  assumes "race_run as race_init = Some s"
  shows "(critical (ra_pc s t) \<and> critical (ra_pc s u) \<longrightarrow> t = u) \<and>
    (ra_pc s t = Down_destroying ref a \<longrightarrow> ra_engines s = [a]) \<and>
    (ra_mutex s = None \<longrightarrow> ra_engines s = handle_engines s \<and> ra_initialized s = (ra_handle s \<noteq> None))"
proof -
  have ok: "race_ok s" by (rule race_run_ok [OF race_ok_init assms])
  then have "critical (ra_pc s t) \<and> critical (ra_pc s u) \<longrightarrow> t = u"
    "ra_mutex s = None \<longrightarrow> ra_engines s = handle_engines s \<and> ra_initialized s = (ra_handle s \<noteq> None)"
    by (auto simp: race_ok_def settled_def)
  moreover have "ra_engines s = [a]" if "ra_pc s t = Down_destroying ref a"
    using race_ok_holds [OF ok, of t] that by (simp add: settled_def handle_engines_def)
  ultimately show ?thesis by blast
qed

theorem lifecycle_protected_witness:
  "\<exists>s. race_run [(1, Do_initialize, True), (1, Do_initialize, True), (1, Do_initialize, True), (1, Do_initialize, True),
      (1, Do_initialize, True), (2, Do_destroy, True), (2, Do_destroy, True)] race_init = Some s \<and>
    ra_pc s 2 = Down_destroying True 0 \<and> ra_engines s = [0]"
  (is "\<exists>s. race_run ?as race_init = Some s \<and> _ s \<and> _ s")
proof -
  obtain s where s: "race_run ?as race_init = Some s" "ra_pc s 2 = Down_destroying True 0"
    by (simp add: race_init_def thread_step_def lock_def goto_def initialize_step_def unlock_def)
  from lifecycle_protected [OF s(1), of 2 2 True 0] s show ?thesis by blast
qed



text \<open>
  Calls are safe when the application keeps them apart: in a run where no native method overlaps
  with the creation or destruction of the engine, no method ever runs on a freed engine.
\<close>

theorem separate_calls_safe:
  assumes "race_run as race_init = Some s" and "always no_overlap as race_init"
  shows "\<not> use_after_free s"
proof -
  have "methods_ok race_init" by (simp add: race_init_def methods_ok_def)
  from methods_ok_run [OF race_ok_init this assms(2,1)] show ?thesis
    by (auto simp: methods_ok_def use_after_free_def)
qed

theorem separate_calls_safe_witness:
  "\<exists>s. race_run (replicate 5 (1, Do_initialize, True) @ [(2, Do_method, True), (2, Do_method, True)]) race_init = Some s \<and>
     ra_pc s 2 = In_engine (Some 0) \<and> \<not> use_after_free s"
proof -
  let ?as = "replicate 5 (1 :: nat, Do_initialize, True) @ [(2, Do_method, True), (2, Do_method, True)]"
  note eval = race_init_def thread_step_def lock_def goto_def initialize_step_def unlock_def numeral_eq_Suc
  obtain s where s: "race_run ?as race_init = Some s" "ra_pc s 2 = In_engine (Some 0)"
    by (simp add: eval)
  have "always no_overlap ?as race_init" by (simp add: eval no_overlap_def)
  from separate_calls_safe [OF s(1) this] s show ?thesis by blast
qed

end
