(* ===== verification/UnitTests.thy ===== *)
theory UnitTests
  imports RingBuffer ReconnectPolicy FreqPixel Protocol RadioState
begin

text \<open>
  The repository's unit tests (\<open>core/tests/test_protocol.cpp\<close>, \<open>test_ring_buffer.cpp\<close>,
  \<open>test_radio_state.cpp\<close>, \<open>test_reconnect_policy.cpp\<close>, \<open>test_radio_utils.cpp\<close>), each as a lemma with its
  name that runs the model on the test's input and finds what the test expects: a check of the model
  against the behaviour its authors had in mind. The last section is about the one test that depends
  on the scheduler.
\<close>

section \<open>Framing\<close>

text \<open>The frames a new protocol object has delivered after the chunks; \<open>received\<close> in the fixture.\<close>

definition received :: "byte list list \<Rightarrow> frame list" where
  "received chunks = snd (feed_all feedData (setFrameCallback True Protocol_new) chunks)"

lemma received_stream:
  assumes "list_all segment_ok ss" "no_marker g" "concat cs = stream_bytes ss @ g" "list_all (\<lambda>c. length c \<le> MAX_FRAME_SIZE) cs"
  shows "received cs = map snd ss"
proof -
  let ?p = "setFrameCallback True Protocol_new"
  have p: "m_frameCb ?p" "m_state ?p = SEEKING_START" "m_buffer ?p = []"
    by (simp_all add: setFrameCallback_def Protocol_new_def)
  from processBuffer_stream [OF assms(1,2) p(1)] feedData_at_start [OF p(2,3), of cs] assms(3,4)
  show ?thesis by (simp add: received_def list_all_iff)
qed

lemma received_frame:
  assumes "length pl < 1000000"
  shows "received [encode ty pl] = [(ty, pl)]"
proof -
  have "received [encode ty pl] = map snd [([] :: byte list, ty, pl)]"
    by (rule received_stream [of "[([], ty, pl)]" "[]"])
      (use assms in \<open>simp_all add: segment_ok_def fits_def stream_bytes_def segment_bytes_def MAX_FRAME_SIZE_def encode_def\<close>)
  then show ?thesis by simp
qed

lemma test_RoundTrip_CatCommand:
  "received [encode TYPE_CAT_COMMAND (string_bytes ''FA00014225000;'')] = [(TYPE_CAT_COMMAND, string_bytes ''FA00014225000;'')]"
  by (rule received_frame) (simp add: string_bytes_def)

lemma test_RoundTrip_EmptyPayload: "received [encode TYPE_STATUS []] = [(TYPE_STATUS, [])]"
  by (rule received_frame) simp

lemma test_RoundTrip_LargePayload:
  "received [encode TYPE_AUDIO_DATA (replicate 4096 0xAB)] = [(TYPE_AUDIO_DATA, replicate 4096 0xAB)]"
  by (rule received_frame) simp

lemma test_MultipleFrames:
  "received [encode TYPE_CAT_COMMAND (string_bytes ''Hello'') @ encode TYPE_CAT_RESPONSE (string_bytes ''World'')] =
     [(TYPE_CAT_COMMAND, string_bytes ''Hello''), (TYPE_CAT_RESPONSE, string_bytes ''World'')]"
  by code_simp

lemma test_FragmentedDelivery:
  "received (map (\<lambda>b. [b]) (encode TYPE_CAT_COMMAND (string_bytes ''TEST''))) = [(TYPE_CAT_COMMAND, string_bytes ''TEST'')]"
  by code_simp

lemma test_GarbageBeforeFrame:
  "received [[0x00, 0xFF, 0x12, 0x34, 0x56] @ encode TYPE_CAT_RESPONSE (string_bytes ''OK'')] =
     [(TYPE_CAT_RESPONSE, string_bytes ''OK'')]"
  by code_simp

lemma test_Reset_ClearsState:
  "snd (feedData (protocol_reset (fst (feedData (setFrameCallback True Protocol_new) [0xFE, 0xFD, 0xFC, 0xFB, 0x00, 0x00])))
      (encode TYPE_STATUS (string_bytes ''A''))) = [(TYPE_STATUS, string_bytes ''A'')]"
  by code_simp

lemma test_OversizedFrame_Rejected:
  "received [[0xFE, 0xFD, 0xFC, 0xFB] @ length_bytes (2 * 1024 * 1024), encode TYPE_CAT_COMMAND (string_bytes ''RECOVER'')] =
     [(TYPE_CAT_COMMAND, string_bytes ''RECOVER'')]"
  by code_simp

lemma test_EncodeCat_ProducesValidFrame:
  "map (\<lambda>(ty, pl). (ty, bytes_string pl)) (received [encodeCat ''FA00014225000;'']) = [(TYPE_CAT_COMMAND, ''FA00014225000;'')]"
  unfolding encodeCat_def by (subst received_frame) (simp_all add: string_bytes_def bytes_string_def, code_simp)

section \<open>Ring buffer\<close>

lemma write_then_read:
  assumes "0 < unat n" "unat n \<le> 2 ^ 63" "length xs = m" "m \<le> unat n"
  shows "case rb_write (RingBuffer_new n) xs (of_nat m) of (rb, written) \<Rightarrow>
    unat written = m \<and> unat (rb_available rb) = m \<and> snd (rb_read rb (of_nat m)) = xs"
proof -
  let ?c = "of_nat m :: u64"
  note new = RingBuffer_new_ok [OF assms(1,2)]
  have c: "unat ?c = m" using assms(2,4) by (simp add: unat_of_nat)
  obtain rb k where w: "rb_write (RingBuffer_new n) xs ?c = (rb, k)" by force
  have k: "unat k = m"
    using toWrite_eq [of "RingBuffer_new n" xs ?c] new assms(4) by (simp add: w c rb_cap_def)
  have rb: "ring_ok rb" "contents rb = xs"
    using rb_write_effect [of "RingBuffer_new n" ?c xs] new k assms(3) by (simp_all add: w c)
  have "unat (rb_available rb) = m" using length_contents [of rb] rb(2) assms(3) by simp
  moreover have "snd (rb_read rb ?c) = xs"
    using rb_read_effect [OF rb(1), of ?c] rb(2) c assms(3) by (metis append_Nil2 append_eq_append_conv min.idem)
  ultimately show ?thesis using k by (simp add: w)
qed

lemma test_BasicWriteRead:
  "(case rb_write (RingBuffer_new 1024) [100, 200, 300, 400] 4 of (rb, n) \<Rightarrow>
     unat n = 4 \<and> unat (rb_available rb) = 4 \<and> snd (rb_read rb 4) = [100, 200, 300, 400])"
  using write_then_read [of 1024 "[100, 200, 300, 400]" 4] by simp

lemma test_EmptyRead: "snd (rb_read (RingBuffer_new 1024) 4) = []" "rb_available (RingBuffer_new 1024) = 0"
  by (simp_all add: RingBuffer_new_def Let_def rb_read_def rb_available_def copy_out_def)

lemma test_FullWrite:
  "(case rb_write (RingBuffer_new 8) [0, 1, 2, 3, 4, 5, 6, 7] 8 of (rb, n) \<Rightarrow>
     n = 8 \<and> rb_space rb = 0 \<and> snd (rb_write rb [99, 99] 2) = 0)"
  by code_simp

lemma test_WrapAround:
  "(case rb_write (RingBuffer_new 8) [1, 2, 3, 4, 5, 6] 6 of (rb, n) \<Rightarrow> n = 6 \<and>
     (case rb_read rb 4 of (rb, r1) \<Rightarrow> r1 = [1, 2, 3, 4] \<and>
       (case rb_write rb [7, 8, 9, 10, 11, 12] 6 of (rb, n) \<Rightarrow> n = 6 \<and>
          snd (rb_read rb 8) = [5, 6, 7, 8, 9, 10, 11, 12])))"
  by code_simp

lemma test_Reset:
  "(case rb_write (RingBuffer_new 1024) (map of_nat [0..<100]) 100 of (rb, n) \<Rightarrow>
     unat (rb_available rb) = 100 \<and> rb_available (rb_reset rb) = 0)"
  using write_then_read [of 1024 "map of_nat [0..<100]" 100] by (simp add: split_beta rb_reset_def rb_available_def)

lemma test_PowerOf2Capacity: "rb_capacity (RingBuffer_new 100) = 128"
  by code_simp

section \<open>Reconnection policy\<close>

definition failures :: "nat \<Rightarrow> reconnect_policy \<Rightarrow> (reconnect_policy \<times> bool) option" where
  "failures n p = ((\<lambda>r. Option.bind r (\<lambda>(p, again). rp_onAttemptFailed p)) ^^ n) (Some (p, True))"

definition policy :: "int \<Rightarrow> int \<Rightarrow> int \<Rightarrow> reconnect_policy" where
  "policy attempts initial maximum =
     rp_onDisconnected (ReconnectPolicy_new \<lparr>max_attempts = attempts, initial_delay_ms = initial, max_delay_ms = maximum\<rparr>)"

lemma test_ExponentialBackoff:
  "map (\<lambda>n. Option.bind (failures n (policy 10 1000 60000)) (\<lambda>(p, again). getNextDelayMs p)) [0..<10] =
     map Some [1000, 1000, 2000, 4000, 8000, 16000, 32000, 60000, 60000, 60000]"
  by code_simp

lemma test_MaxAttempts:
  "map (\<lambda>n. map_option (\<lambda>(p, again). (again, isExhausted p)) (failures n (policy 10 1000 60000))) [1..<11] =
     replicate 9 (Some (True, False)) @ [Some (False, True)]"
  by code_simp

lemma test_ResetOnConnect:
  "map_option (\<lambda>(p, again). (currentAttempt p, currentAttempt (rp_onConnected p), isReconnecting (rp_onConnected p)))
     (failures 2 (policy 10 1000 60000)) = Some (2, 0, False)"
  by code_simp

lemma test_ResetOnUserDisconnect:
  "map_option (\<lambda>(p, again). (currentAttempt (rp_reset p), isReconnecting (rp_reset p), isExhausted (rp_reset p)))
     (failures 1 (policy 10 1000 60000)) = Some (0, False, False)"
  by code_simp

lemma test_InitialState:
  "(let p = ReconnectPolicy_new \<lparr>max_attempts = 10, initial_delay_ms = 1000, max_delay_ms = 60000\<rparr>
    in \<not> isReconnecting p \<and> \<not> isExhausted p \<and> currentAttempt p = 0)"
  by code_simp

lemma test_DelayCappedAtMax:
  "Option.bind (failures 15 (policy 20 1000 5000)) (\<lambda>(p, again). getNextDelayMs p) = Some 5000"
  by code_simp

lemma test_SingleAttemptConfig:
  "map_option (\<lambda>(p, again). (again, isExhausted p)) (failures 1 (policy 1 500 500)) = Some (False, True)"
  by code_simp

section \<open>Radio state\<close>

text \<open>The fixture's state, and what a sequence of operations leaves and notifies.\<close>

definition fixture :: "radio_op list \<Rightarrow> radio_state \<times> string list" where
  "fixture ops = run_radio ops (setChangeCallback True RadioState_new)"

lemma test_DefaultState:
  "(let d = snapshot (fst (fixture [])) in vfo_frequency_hz (fst (rd_vfo d)) = 14225000 \<and> vfo_mode (fst (rd_vfo d)) = 1 \<and>
     vfo_active (fst (rd_vfo d)) \<and> \<not> vfo_active (snd (rd_vfo d)) \<and> \<not> tx_ptt (rd_tx d))"
  by code_simp

lemma test_SetFrequency:
  "(case fixture [SetFrequency 0 7040000] of (s, keys) \<Rightarrow> vfo_frequency_hz (getVfo s 0) = 7040000 \<and> keys = [''vfo.a.freq''])"
  by code_simp

lemma test_SetFrequency_NoChangeNoNotify: "snd (fixture [SetFrequency 0 14225000]) = []"
  by code_simp

lemma test_SetMode:
  "(case fixture [SetMode 0 2] of (s, keys) \<Rightarrow> vfo_mode (getVfo s 0) = 2 \<and> keys = [''vfo.a.mode''])"
  by code_simp

lemma test_SetSmeter:
  "(case fixture [SetSmeter 0 54] of (s, keys) \<Rightarrow> vfo_smeter (getVfo s 0) = 54 \<and> last keys = ''vfo.a.smeter'')"
  by code_simp

lemma test_SetPtt: "(case fixture [SetPtt True] of (s, keys) \<Rightarrow> tx_ptt (getTx s) \<and> last keys = ''tx.ptt'')"
  by code_simp

lemma test_SetPower: "tx_power_watts (getTx (fst (fixture [SetPower 50]))) = 50"
  by code_simp

lemma test_SetVolume_Clamped:
  "au_main_volume (getAudio (fst (fixture [SetMainVolume 150]))) = 100"
  "au_main_volume (getAudio (fst (fixture [SetMainVolume 150, SetMainVolume (-10)]))) = 0"
  by code_simp+

lemma test_SetSidetonePitch_Clamped:
  "au_sidetone_hz (getAudio (fst (fixture [SetSidetonePitch 200]))) = 400"
  "au_sidetone_hz (getAudio (fst (fixture [SetSidetonePitch 200, SetSidetonePitch 1500]))) = 1000"
  "au_sidetone_hz (getAudio (fst (fixture [SetSidetonePitch 200, SetSidetonePitch 1500, SetSidetonePitch 700]))) = 700"
  by code_simp+

lemma test_SetNr:
  "nr_lms_enabled (getNr (fst (fixture [SetNrEnabled 0 0 True])) 0)"
  "nr_lms_level (getNr (fst (fixture [SetNrEnabled 0 0 True, SetNrLevel 0 0 8])) 0) = 8"
  "nr_lms_level (getNr (fst (fixture [SetNrEnabled 0 0 True, SetNrLevel 0 0 8, SetNrLevel 0 0 15])) 0) = 10"
  by code_simp+

lemma test_SetCwSpeed_Clamped:
  "cw_speed_wpm (getCw (fst (fixture [SetCwSpeed 3]))) = 5"
  "cw_speed_wpm (getCw (fst (fixture [SetCwSpeed 3, SetCwSpeed 70]))) = 60"
  "cw_speed_wpm (getCw (fst (fixture [SetCwSpeed 3, SetCwSpeed 70, SetCwSpeed 25]))) = 25"
  by code_simp+

lemma test_SetActiveVfo:
  "(let d = snapshot (fst (fixture [SetActiveVfo 1])) in \<not> vfo_active (fst (rd_vfo d)) \<and> vfo_active (snd (rd_vfo d)))"
  by code_simp

lemma test_ParseCat_Frequency: "vfo_frequency_hz (getVfo (fst (fixture [ParseCat ''FA00014100000;''])) 0) = 14100000"
  by code_simp

lemma test_ParseCat_FrequencyB: "vfo_frequency_hz (getVfo (fst (fixture [ParseCat ''FB00007040000;''])) 1) = 7040000"
  by code_simp

lemma test_ParseCat_Mode_USB: "vfo_mode (getVfo (fst (fixture [ParseCat ''MD2;''])) 0) = 1"
  by code_simp

lemma test_ParseCat_Mode_CW: "vfo_mode (getVfo (fst (fixture [ParseCat ''MD3;''])) 0) = 2"
  by code_simp

lemma test_ParseCat_Smeter: "vfo_smeter (getVfo (fst (fixture [ParseCat ''SM00054;''])) 0) = 54"
  by code_simp

lemma test_ParseCat_TxState:
  "tx_ptt (getTx (fst (fixture [ParseCat ''TQ1;''])))" "\<not> tx_ptt (getTx (fst (fixture [ParseCat ''TQ1;'', ParseCat ''TQ0;''])))"
  by code_simp+

lemma test_ParseCat_Power: "tx_power_watts (getTx (fst (fixture [ParseCat ''PC050;'']))) = 50"
  by code_simp

lemma test_ParseCat_InvalidCommand:
  "vfo_frequency_hz (fst (rd_vfo (snapshot (fst (fixture [ParseCat [], ParseCat ''X'', ParseCat ''ZZ999;'']))))) =
   vfo_frequency_hz (fst (rd_vfo (snapshot (fst (fixture [])))))"
  by code_simp

lemma test_Snapshot_IsConsistent:
  "(let d = snapshot (fst (fixture [SetFrequency 0 21300000, SetMode 0 4, SetPtt True]))
    in vfo_frequency_hz (fst (rd_vfo d)) = 21300000 \<and> vfo_mode (fst (rd_vfo d)) = 4 \<and> tx_ptt (rd_tx d))"
  by code_simp

section \<open>Radio utilities\<close>

lemma test_FreqToBand: "freqToBand 14225000 = 5" "freqToBand 7040000 = 3" "freqToBand 12000000 = -1"
  by code_simp+

lemma test_FreqToBand_BandEdges:
  "freqToBand 14000000 = 5" "freqToBand 14350000 = 5" "freqToBand 13999999 = -1" "freqToBand 14350001 = -1"
  by code_simp+

lemma test_IsFreqInBand: "isFreqInBand 14225000 5" "\<not> isFreqInBand 14225000 3" "\<not> isFreqInBand 14350001 5"
  by code_simp+

lemma test_Consistency_AllBands:
  "list_all (\<lambda>b. freqToBand (tdiv (lower_hz b + upper_hz b) 2) = band_id b \<and>
     freqToBand (lower_hz b) = band_id b \<and> freqToBand (upper_hz b) = band_id b) getAllBands"
  by code_simp

lemma test_Format:
  "formatFrequency 14225000 = ''14.225.000''" "formatFrequency 7040000 = ''7.040.000''"
  "formatFrequency 50125000 = ''50.125.000''"
  by code_simp+

lemma test_Parse: "parseFrequency ''14.225.000'' = 14225000" "parseFrequency ''7.040.000'' = 7040000"
  by code_simp+

lemma test_ParseKhz:
  "parseFrequencyKhz ''14225'' = Some 14225000" "parseFrequencyKhz ''7040'' = Some 7040000"
  "parseFrequencyKhz ''14225.5'' = Some 14225500"
  using khz_entry_exact [of "''14225''" "[]" 14225000] khz_entry_exact [of "''7040''" "[]" 7040000]
    khz_entry_exact [of "''14225''" "''5''" 14225500]
  by (simp_all add: is_digit_def digits_value_def digit_val_def)

lemma test_ParseInvalid:
  "parseFrequency [] = -1" "parseFrequency ''abc'' = -1" "parseFrequencyKhz [] = Some (-1)"
  "parseFrequencyKhz ''xyz'' = Some (-1)"
  by code_simp+

lemma test_Smeter:
  "smeterToString 0 = ''S0''" "smeterToString 54 = ''S9''" "smeterToString 74 = ''S9+20''" "smeterToString 114 = ''S9+60''"
  by code_simp+

lemma test_Smeter_Monotonic:
  "sorted (map (\<lambda>raw. case smeterToUnits (int raw) of (s_unit, db_over) \<Rightarrow> s_unit * 100 + db_over) [0..<121])"
  by code_simp

lemma test_CycleForward:
  "nextTuningRate 1 = 10" "nextTuningRate 10 = 20" "nextTuningRate 100 = 200" "nextTuningRate 10000 = 1"
  by code_simp+

lemma test_CycleBackward: "prevTuningRate 1 = 10000" "prevTuningRate 10 = 1" "prevTuningRate 10000 = 5000"
  by code_simp+

lemma test_InvalidRate_ReturnsFirst: "nextTuningRate 999 = 1"
  by code_simp

lemma test_PixelToFreq:
  "pixelToFreq 500 1000 14225000 100000 = Some 14225000" "pixelToFreq 0 1000 14225000 100000 = Some 14175000"
  "pixelToFreq 1000 1000 14225000 100000 = Some 14275000"
  by code_simp+

lemma test_FreqToPixel_RoundTrip:
  "Option.bind (pixelToFreq 50 1000 14225000 100000) (\<lambda>f. freqToPixel f 1000 14225000 100000) = Some 50"
  by code_simp

lemma test_ClampCenter:
  "clampCenter 14225000 100000 14000000 14350000 = Some 14225000"
  "clampCenter 14020000 100000 14000000 14350000 = Some 14050000"
  "clampCenter 14330000 100000 14000000 14350000 = Some 14300000"
  by code_simp+

lemma test_SnapToTier:
  "snapToSpanTier 6000 = Some 5000" "snapToSpanTier 6500 = Some 7000" "snapToSpanTier 100000 = Some 100000"
  by code_simp+

lemma test_NextTier: "nextSpanTier 5000 = 7000" "nextSpanTier 100000 = 150000" "nextSpanTier 500000 = 500000"
  by code_simp+

lemma test_PrevTier: "prevSpanTier 7000 = 5000" "prevSpanTier 2000 = 2000"
  by code_simp+

lemma test_FreqInBand:
  "isFreqInBand 14225000 5" "isFreqInBand 14000000 5" "isFreqInBand 14350000 5"
  "\<not> isFreqInBand 13999999 5" "\<not> isFreqInBand 14350001 5" "\<not> isFreqInBand 7040000 5"
  by code_simp+

section \<open>The concurrent test\<close>

text \<open>
  One round of the producer in \<open>ConcurrentProducerConsumer\<close>: it numbers a batch of up to 64 samples,
  writes it and counts the samples accepted. The numbers of samples that were not accepted are not
  used again. The state is the buffer, \<open>sample\<close> and \<open>written\<close>.
\<close>

definition TOTAL_SAMPLES :: nat where
  "TOTAL_SAMPLES = 100000"

definition produce :: "ring \<times> nat \<times> nat \<Rightarrow> ring \<times> nat \<times> nat" where
  "produce p =
     (case p of (rb, sample, written) \<Rightarrow>
        (if written < TOTAL_SAMPLES then
           (let batch = min 64 (TOTAL_SAMPLES - written)
            in case rb_write rb (map of_nat [sample..<sample + batch]) (of_nat batch) of
                 (rb', n) \<Rightarrow> (rb', sample + batch, written + unat n))
         else p))"

lemma produce_round:
  assumes "ring_ok rb" "written + 64 \<le> TOTAL_SAMPLES"
  obtains rb' n where "produce (rb, sample, written) = (rb', sample + 64, written + n)" "ring_ok rb'"
    "rb_capacity rb' = rb_capacity rb" "n = min 64 (unat (rb_capacity rb) - length (contents rb))"
    "contents rb' = contents rb @ map of_nat [sample..<sample + n]"
proof -
  let ?xs = "map of_nat [sample..<sample + 64] :: sample list"
  obtain rb' m where w: "rb_write rb ?xs 64 = (rb', m)" by force
  have n: "unat m = min 64 (unat (rb_capacity rb) - length (contents rb))"
    using toWrite_eq [OF assms(1), of ?xs 64] by (simp add: w)
  have "produce (rb, sample, written) = (rb', sample + 64, written + unat m)"
    using assms(2) w by (simp add: produce_def TOTAL_SAMPLES_def Let_def)
  moreover have "ring_ok rb'" "rb_capacity rb' = rb_capacity rb" "contents rb' = contents rb @ take (unat m) ?xs"
    using rb_write_effect [OF assms(1), of 64 ?xs] by (simp_all add: w)
  moreover have "take (unat m) ?xs = map of_nat [sample..<sample + unat m]" using n by (simp add: take_map)
  ultimately show thesis using that n by metis
qed

lemma produce_fills:
  "k \<le> 64 \<Longrightarrow> \<exists>rb. (produce ^^ k) (RingBuffer_new 4096, 0, 0) = (rb, 64 * k, 64 * k) \<and> ring_ok rb \<and>
     unat (rb_capacity rb) = 4096 \<and> contents rb = map of_nat [0..<64 * k]"
proof (induction k)
  case 0
  have "nextPowerOf2 4096 = 4096" by code_simp
  then have "unat (rb_capacity (RingBuffer_new 4096)) = 4096" by (simp add: RingBuffer_new_def)
  with RingBuffer_new_ok [of 4096] show ?case by simp
next
  case (Suc k)
  then obtain rb where rb: "(produce ^^ k) (RingBuffer_new 4096, 0, 0) = (rb, 64 * k, 64 * k)" "ring_ok rb"
    "unat (rb_capacity rb) = 4096" "contents rb = map of_nat [0..<64 * k]" by auto
  from produce_round [OF rb(2), of "64 * k" "64 * k"] Suc.prems obtain rb' n where
    "produce (rb, 64 * k, 64 * k) = (rb', 64 * k + 64, 64 * k + n)" "ring_ok rb'" "rb_capacity rb' = rb_capacity rb"
    "n = min 64 (unat (rb_capacity rb) - length (contents rb))" "contents rb' = contents rb @ map of_nat [64 * k..<64 * k + n]"
    by (auto simp: TOTAL_SAMPLES_def)
  moreover have "n = 64" using Suc.prems rb(3,4) calculation(4) by simp
  moreover have "[0..<64 * Suc k] = [0..<64 * k] @ [64 * k..<64 * k + 64]"
    using upt_add_eq_append [of 0 "64 * k" 64] by (simp add: algebra_simps)
  ultimately show ?case using rb by auto
qed

text \<open>
  The test can fail although the buffer is correct: when the producer comes round once before the
  consumer has read anything from the full buffer, the consumer receives sample 4160 after sample
  4095, where the test expects 4096.
\<close>

theorem stress_test_skips_samples:
  "\<exists>rb rb' first. fst ((produce ^^ 65) (RingBuffer_new 4096, 0, 0)) = rb \<and> rb_read rb 256 = (rb', first) \<and>
     first = map of_nat [0..<256] \<and>
     contents (fst (produce (rb', snd ((produce ^^ 65) (RingBuffer_new 4096, 0, 0))))) =
       map of_nat ([256..<4096] @ [4160..<4224])"
proof -
  obtain r0 where r0: "(produce ^^ 64) (RingBuffer_new 4096, 0, 0) = (r0, 4096, 4096)" "ring_ok r0"
    "unat (rb_capacity r0) = 4096" "contents r0 = map of_nat [0..<4096]"
    using produce_fills [of 64] by (auto simp del: upt_rec_numeral)
  from produce_round [OF r0(2), of 4096 4096] r0(3,4) obtain r1 where
    r1: "produce (r0, 4096, 4096) = (r1, 4160, 4096)" "ring_ok r1" "rb_capacity r1 = rb_capacity r0" "contents r1 = contents r0"
    by (auto simp: TOTAL_SAMPLES_def simp del: upt_rec_numeral)
  have full: "(produce ^^ 65) (RingBuffer_new 4096, 0, 0) = (r1, 4160, 4096)"
    using r0(1) r1(1) funpow.simps(2) [of 64 produce] by (simp del: funpow.simps)
  obtain r2 first where read: "rb_read r1 256 = (r2, first)" by force
  have r2: "ring_ok r2" "rb_capacity r2 = rb_capacity r1" "length first = 256" "map of_nat [0..<4096] = first @ contents r2"
    using rb_read_effect [OF r1(2), of 256] r1(4) r0(4) by (simp_all add: read del: upt_rec_numeral)
  have "map of_nat [0..<4096] = map of_nat [0..<256] @ (map of_nat [256..<4096] :: sample list)"
    using upt_add_eq_append [of 0 256 3840] by (simp add: map_append [symmetric] del: upt_rec_numeral map_append)
  with r2(3,4) have parts: "first = map of_nat [0..<256]" "contents r2 = map of_nat [256..<4096]"
    by (auto simp: append_eq_append_conv simp del: upt_rec_numeral)
  have "4096 + 64 \<le> TOTAL_SAMPLES" by (simp add: TOTAL_SAMPLES_def)
  then obtain r3 n where r3: "produce (r2, 4160, 4096) = (r3, 4160 + 64, 4096 + n)"
    "n = min 64 (unat (rb_capacity r2) - length (contents r2))" "contents r3 = contents r2 @ map of_nat [4160..<4160 + n]"
    using produce_round [OF r2(1), of 4096 4160] by metis
  have "n = 64" using r2(2) r1(3) r0(3) parts(2) by (simp add: r3(2))
  with r3 parts(2) have "contents (fst (produce (r2, 4160, 4096))) = map of_nat ([256..<4096] @ [4160..<4224])"
    by (simp del: upt_rec_numeral)
  then show ?thesis using full read parts(1) by (simp del: upt_rec_numeral)
qed

end
